(* ===== verification/Prelude.thy ===== *)
theory Prelude
  imports Main "HOL-Library.Word"
begin

text \<open>
  Shared vocabulary of the FacetOS development: the result codes of
  include/facetos/libfacet/common.h, the error monad in which fallible C
  functions are written, the allocator budget that stands for malloc, calloc
  and realloc, and the generic list and word facts the components rely on.

  Bytes and C strings are char lists: HOL's char is an 8-bit value, so a
  uint8_t buffer and a char buffer are the same thing, and the terminating NUL
  of a C string is left implicit.  Sizes and offsets are natural numbers; where
  the source depends on a width (uint32_t fields, int64_t values, SIZE_MAX
  checks) the width is written out.
\<close>

unbundle bit_operations_syntax

section \<open>Result codes\<close>

datatype FacetResult =
    FACET_OK
  | FACET_ERROR
  | FACET_INVALID_ARGUMENT
  | FACET_NO_INTERFACE
  | FACET_NO_SUCH_METHOD
  | FACET_ACCESS_DENIED
  | FACET_OUT_OF_MEMORY
  | FACET_INVALID_HANDLE
  | FACET_PROTOCOL_ERROR
  | FACET_BUFFER_TOO_SMALL
  | FACET_NOT_SUPPORTED
  | FACET_NOT_FOUND

fun facet_result_code :: "FacetResult \<Rightarrow> int" where
  "facet_result_code FACET_OK = 0"
| "facet_result_code FACET_ERROR = -1"
| "facet_result_code FACET_INVALID_ARGUMENT = -2"
| "facet_result_code FACET_NO_INTERFACE = -3"
| "facet_result_code FACET_NO_SUCH_METHOD = -4"
| "facet_result_code FACET_ACCESS_DENIED = -5"
| "facet_result_code FACET_OUT_OF_MEMORY = -6"
| "facet_result_code FACET_INVALID_HANDLE = -7"
| "facet_result_code FACET_PROTOCOL_ERROR = -8"
| "facet_result_code FACET_BUFFER_TOO_SMALL = -9"
| "facet_result_code FACET_NOT_SUPPORTED = -10"
| "facet_result_code FACET_NOT_FOUND = -11"

text \<open>
  A C function that returns a FacetResult and writes its outputs through
  pointers is a function into \<open>'a facet\<close>: \<open>Inr\<close> carries the
  outputs of FACET_OK, \<open>Inl\<close> the other codes.
\<close>

type_synonym 'a facet = "FacetResult + 'a"
type_synonym u32 = "32 word"
type_synonym u64 = "64 word"

section \<open>The error monad\<close>

definition bindE :: "'e + 'a \<Rightarrow> ('a \<Rightarrow> 'e + 'b) \<Rightarrow> 'e + 'b" where
  "bindE m f = (case m of Inl e \<Rightarrow> Inl e | Inr x \<Rightarrow> f x)"

definition guardE :: "bool \<Rightarrow> 'e \<Rightarrow> 'e + unit" where
  "guardE b e = (if b then Inr () else Inl e)"

named_theorems error_monad

lemma bindE_Inl [simp]: "bindE (Inl e) f = Inl e"
  by (simp add: bindE_def)

lemma bindE_Inr [simp]: "bindE (Inr x) f = f x"
  by (simp add: bindE_def)

lemma bindE_eq_Inr [error_monad]:
  "bindE m f = Inr y \<longleftrightarrow> (\<exists>x. m = Inr x \<and> f x = Inr y)"
  by (cases m) auto

lemma bindE_eq_Inl [error_monad]:
  "bindE m f = Inl e \<longleftrightarrow> m = Inl e \<or> (\<exists>x. m = Inr x \<and> f x = Inl e)"
  by (cases m) auto

lemma bindE_cong [fundef_cong]:
  "m = m' \<Longrightarrow> (\<And>x. m' = Inr x \<Longrightarrow> f x = g x) \<Longrightarrow> bindE m f = bindE m' g"
  by (cases m') auto

lemma bindE_assoc: "bindE (bindE m f) g = bindE m (\<lambda>x. bindE (f x) g)"
  by (cases m) auto

lemma guardE_eq_Inr [error_monad]: "guardE b e = Inr u \<longleftrightarrow> b"
  by (simp add: guardE_def)

lemma guardE_eq_Inl [error_monad]: "guardE b e = Inl e' \<longleftrightarrow> \<not> b \<and> e = e'"
  by (simp add: guardE_def)

text \<open>A loop over an array that a failing round ends.\<close>

fun foldE :: "('a \<Rightarrow> 's \<Rightarrow> 'e + 's) \<Rightarrow> 'a list \<Rightarrow> 's \<Rightarrow> 'e + 's" where
  "foldE f [] s = Inr s"
| "foldE f (x # xs) s = bindE (f x s) (foldE f xs)"

lemma foldE_append: "foldE f (xs @ ys) s = bindE (foldE f xs s) (foldE f ys)"
  by (induction xs arbitrary: s) (simp_all add: bindE_def split: sum.split)

lemma foldE_invariant:
  assumes "foldE f xs s = Inr s'" and "P [] s"
    and "\<And>ys x t t'. P ys t \<Longrightarrow> f x t = Inr t' \<Longrightarrow> x \<in> set xs \<Longrightarrow> P (ys @ [x]) t'"
  shows "P xs s'"
  using assms
proof (induction xs arbitrary: s' rule: rev_induct)
  case (snoc x xs)
  from snoc.prems(1) obtain t where t: "foldE f xs s = Inr t" "f x t = Inr s'"
    by (auto simp: foldE_append bindE_eq_Inr)
  with snoc have "P xs t" by simp
  with snoc.prems(3) t(2) show ?case by simp
qed simp

text \<open>A loop that only checks.\<close>

definition checkE :: "('a \<Rightarrow> 'e + unit) \<Rightarrow> 'a list \<Rightarrow> 'e + unit" where
  "checkE f xs = foldE (\<lambda>x u. f x) xs ()"

lemma checkE_simps [simp]:
  "checkE f [] = Inr ()"
  "checkE f (x # xs) = bindE (f x) (\<lambda>u. checkE f xs)"
  by (simp_all add: checkE_def)

lemma checkE_eq_Inr [error_monad]: "checkE f xs = Inr u \<longleftrightarrow> (\<forall>x \<in> set xs. f x = Inr ())"
  by (induction xs) (auto simp: bindE_eq_Inr)

text \<open>
  A loop that checks each element against the earlier ones and may update it in
  place.
\<close>

definition scanE :: "('a list \<Rightarrow> 'a \<Rightarrow> 'e + 'a) \<Rightarrow> 'a list \<Rightarrow> 'e + 'a list" where
  "scanE f xs = foldE (\<lambda>x prev. bindE (f prev x) (\<lambda>y. Inr (prev @ [y]))) xs []"

lemma scanE_Nil [simp]: "scanE f [] = Inr []"
  by (simp add: scanE_def)

lemma scanE_snoc:
  "scanE f (xs @ [x]) = bindE (scanE f xs) (\<lambda>ys. bindE (f ys x) (\<lambda>y. Inr (ys @ [y])))"
  by (simp add: scanE_def foldE_append) (simp add: bindE_def split: sum.split)

lemma scanE_InrD:
  assumes "scanE f xs = Inr ys"
  shows "length ys = length xs" and "\<And>i. i < length xs \<Longrightarrow> f (take i ys) (xs ! i) = Inr (ys ! i)"
proof -
  have "length ys = length xs \<and> (\<forall>i < length xs. f (take i ys) (xs ! i) = Inr (ys ! i))"
    using assms
  proof (induction xs arbitrary: ys rule: rev_induct)
    case (snoc x xs)
    from snoc.prems obtain zs y where z: "scanE f xs = Inr zs" "f zs x = Inr y" "ys = zs @ [y]"
      by (auto simp: scanE_snoc bindE_eq_Inr)
    with snoc.IH [OF z(1)] show ?case by (auto simp: nth_append less_Suc_eq)
  qed simp
  then show "length ys = length xs" and "\<And>i. i < length xs \<Longrightarrow> f (take i ys) (xs ! i) = Inr (ys ! i)"
    by auto
qed

section \<open>State and errors\<close>

text \<open>
  A service keeps its state when an operation fails half-way, so an operation on a
  state is a function to a result and the new state.
\<close>

type_synonym ('s, 'a) service = "'s \<Rightarrow> 'a facet \<times> 's"

definition returnS :: "'a \<Rightarrow> ('s, 'a) service" where
  "returnS x s = (Inr x, s)"

definition failS :: "FacetResult \<Rightarrow> ('s, 'a) service" where
  "failS e s = (Inl e, s)"

definition bindS :: "('s, 'a) service \<Rightarrow> ('a \<Rightarrow> ('s, 'b) service) \<Rightarrow> ('s, 'b) service" where
  "bindS m f s = (case m s of (Inl e, s') \<Rightarrow> (Inl e, s') | (Inr x, s') \<Rightarrow> f x s')"

text \<open>A call whose C code may run into undefined behaviour.\<close>

datatype 'a outcome = Undefined | Returns 'a

section \<open>Allocation\<close>

text \<open>
  Allocation is the one effect outside a function's arguments: a heap is the
  number of further allocation requests that will be granted.  The functions
  modelled here give up at the first refused request, so "the first n requests
  succeed" covers every behaviour of the allocator they can observe.
\<close>

type_synonym heap = nat

definition alloc :: "'e \<Rightarrow> heap \<Rightarrow> 'e + heap" where
  "alloc e h = (if h = 0 then Inl e else Inr (h - 1))"

lemma alloc_eq_Inr [error_monad]: "alloc e h = Inr h' \<longleftrightarrow> h = Suc h'"
  by (cases h) (auto simp: alloc_def)

lemma alloc_eq_Inl [error_monad]: "alloc e h = Inl e' \<longleftrightarrow> h = 0 \<and> e = e'"
  by (auto simp: alloc_def)

section \<open>Lists\<close>

lemma dropWhile_length_less:
  "xs \<noteq> [] \<Longrightarrow> P (hd xs) \<Longrightarrow> length (dropWhile P xs) < length xs"
  by (cases xs) (auto simp: le_imp_less_Suc length_dropWhile_le)

lemma takeWhile_neq_append:
  "c \<notin> set xs \<Longrightarrow> takeWhile ((\<noteq>) c) (xs @ c # ys) = xs"
  by (induction xs) auto

lemma dropWhile_neq_append:
  "c \<notin> set xs \<Longrightarrow> dropWhile ((\<noteq>) c) (xs @ c # ys) = c # ys"
  by (induction xs) auto

lemma takeWhile_neq_id: "c \<notin> set xs \<Longrightarrow> takeWhile ((\<noteq>) c) xs = xs"
  by (induction xs) auto

lemma dropWhile_neq_Nil: "c \<notin> set xs \<Longrightarrow> dropWhile ((\<noteq>) c) xs = []"
  by (induction xs) auto

lemma notin_takeWhile_neq: "c \<notin> set (takeWhile ((\<noteq>) c) xs)"
  by (induction xs) auto

lemma last_butlast_nth:
  "xs \<noteq> [] \<Longrightarrow> last xs = xs ! (length xs - 1)"
  by (rule last_conv_nth)

text \<open>Searching an array for the first element with a property.\<close>

fun first_index :: "('a \<Rightarrow> bool) \<Rightarrow> 'a list \<Rightarrow> nat option" where
  "first_index P [] = None"
| "first_index P (x # xs) = (if P x then Some 0 else map_option Suc (first_index P xs))"

lemma first_index_SomeD:
  "first_index P xs = Some i \<Longrightarrow> i < length xs \<and> P (xs ! i) \<and> (\<forall>j < i. \<not> P (xs ! j))"
proof (induction xs arbitrary: i)
  case (Cons x xs)
  then show ?case
    by (fastforce split: if_splits simp: less_Suc_eq_0_disj nth_Cons')
qed simp

lemma first_index_None_iff: "first_index P xs = None \<longleftrightarrow> (\<forall>x \<in> set xs. \<not> P x)"
  by (induction xs) auto

lemma first_index_Some_iff:
  assumes "\<And>i j. i < length xs \<Longrightarrow> j < length xs \<Longrightarrow> P (xs ! i) \<Longrightarrow> P (xs ! j) \<Longrightarrow> i = j"
  shows "first_index P xs = Some i \<longleftrightarrow> i < length xs \<and> P (xs ! i)"
proof
  assume "first_index P xs = Some i"
  then show "i < length xs \<and> P (xs ! i)" by (auto dest: first_index_SomeD)
next
  assume i: "i < length xs \<and> P (xs ! i)"
  then obtain j where j: "first_index P xs = Some j"
    using first_index_None_iff [of P xs] nth_mem by (cases "first_index P xs") fastforce+
  with i assms [of i j] show "first_index P xs = Some i"
    by (auto dest: first_index_SomeD)
qed

section \<open>Keyed tables\<close>

text \<open>
  Several services keep a bounded table that is searched by key: the interface
  registry, the bindings of an environment, the variables of a process.  Their
  common contract is that of a finite map whose insertion may be refused.
\<close>

locale keyed_table =
  fixes inv :: "'s \<Rightarrow> bool" and key :: "'v \<Rightarrow> 'k" and lookup :: "'k \<Rightarrow> 's \<Rightarrow> 'v option"
    and store :: "'v \<Rightarrow> 's \<Rightarrow> 'e + 's"
  assumes store_inv: "inv s \<Longrightarrow> store v s = Inr s' \<Longrightarrow> inv s'"
    and lookup_store: "inv s \<Longrightarrow> store v s = Inr s' \<Longrightarrow> lookup k s' = (if k = key v then Some v else lookup k s)"
begin

lemma store_all:
  assumes "foldE store vs s = Inr s'" and "inv s"
  shows "inv s' \<and> lookup k s' = (case find (\<lambda>v. key v = k) (rev vs) of None \<Rightarrow> lookup k s | Some v \<Rightarrow> Some v)"
proof (rule foldE_invariant [OF assms(1),
      of "\<lambda>vs t. inv t \<and> lookup k t = (case find (\<lambda>v. key v = k) (rev vs) of None \<Rightarrow> lookup k s | Some v \<Rightarrow> Some v)"])
  fix ys x t t'
  assume "inv t \<and> lookup k t = (case find (\<lambda>v. key v = k) (rev ys) of None \<Rightarrow> lookup k s | Some v \<Rightarrow> Some v)"
    and "store x t = Inr t'"
  then show "inv t' \<and> lookup k t' = (case find (\<lambda>v. key v = k) (rev (ys @ [x])) of None \<Rightarrow> lookup k s | Some v \<Rightarrow> Some v)"
    by (auto simp: lookup_store [of t] dest: store_inv)
qed (simp add: assms(2))

end

text \<open>Replacing the first element with a key, or appending.\<close>

lemma find_first_index: "find P xs = map_option ((!) xs) (first_index P xs)"
  by (induction xs) (auto simp: option.map_comp o_def)

lemma find_list_update:
  assumes "first_index (\<lambda>x. key x = key y) xs = Some i"
  shows "find (\<lambda>x. key x = k) (xs[i := y]) = (if k = key y then Some y else find (\<lambda>x. key x = k) xs)"
  using assms
proof (induction xs arbitrary: i)
  case (Cons x xs)
  then show ?case by (cases "key x = key y") auto
qed simp

lemma find_append: "find P (xs @ ys) = (case find P xs of None \<Rightarrow> find P ys | Some x \<Rightarrow> Some x)"
  by (induction xs) auto

section \<open>Bytes\<close>

text \<open>A byte read as an unsigned number, and the digits of hexadecimal text.\<close>

abbreviation byte_val :: "char \<Rightarrow> nat" where
  "byte_val c \<equiv> of_char c"

lemma byte_val_less: "byte_val c < 256"
  by (cases c) (simp only: of_char_Char horner_sum_simps, simp add: of_bool_def)

abbreviation NUL :: char where
  "NUL \<equiv> CHR 0x00"

definition hex_digit :: "char \<Rightarrow> nat option" where
  "hex_digit c =
     (if byte_val CHR ''0'' \<le> byte_val c \<and> byte_val c \<le> byte_val CHR ''9''
      then Some (byte_val c - byte_val CHR ''0'')
      else if byte_val CHR ''a'' \<le> byte_val c \<and> byte_val c \<le> byte_val CHR ''f''
      then Some (byte_val c - byte_val CHR ''a'' + 10)
      else if byte_val CHR ''A'' \<le> byte_val c \<and> byte_val c \<le> byte_val CHR ''F''
      then Some (byte_val c - byte_val CHR ''A'' + 10)
      else None)"

lemma hex_digit_less: "hex_digit c = Some d \<Longrightarrow> d < 16"
  by (auto simp: hex_digit_def split: if_splits)

text \<open>Unsigned numbers as printf writes them.\<close>

definition digit_char :: "nat \<Rightarrow> char" where
  "digit_char d = (if d < 10 then char_of (48 + d) else char_of (87 + d))"

fun base_text :: "nat \<Rightarrow> nat \<Rightarrow> string" where
  "base_text b n =
     (if b < 2 \<or> n < b then [digit_char n] else base_text b (n div b) @ [digit_char (n mod b)])"

declare base_text.simps [simp del]

abbreviation decimal :: "nat \<Rightarrow> string" where
  "decimal n \<equiv> base_text 10 n"

text \<open>The bytes of a C string: everything before the first NUL.\<close>

definition cstr :: "string \<Rightarrow> string" where
  "cstr s = takeWhile ((\<noteq>) NUL) s"

section \<open>Handles\<close>

text \<open>
  A FacetHandle is a capability slot; the platform pointer NULL is
  \<open>None\<close>.
\<close>

type_synonym FacetHandle = "nat option"

section \<open>Bits\<close>

lemma word_and_mask_subset:
  fixes p :: "'a::len word"
  assumes "p AND m = m" and "m AND b = b"
  shows "p AND b = b"
  using assms by (metis and.assoc)

end
