(* ===== verification/Paths.thy ===== *)
theory Paths
  imports Prelude
begin

text \<open>
  The path algebra that the three path normalisers of the system implement
  (src/dominit0/initrd.c, src/dominit0/file_view.c and src/dominit0/posix.c):
  a path is a list of components, "." is dropped, ".." drops the last
  component and stops at the root.  The three byte-level routines are modelled
  in their own theories and proved equal to this specification.
\<close>

section \<open>Components\<close>

text \<open>
  All three routines cut a path the same way: skip slashes, take the bytes up
  to the next slash, go on behind them.
\<close>

definition skip_slashes :: "string \<Rightarrow> string" where
  "skip_slashes s = dropWhile ((=) CHR ''/'') s"

definition head_component :: "string \<Rightarrow> string" where
  "head_component s = takeWhile ((\<noteq>) CHR ''/'') (skip_slashes s)"

definition after_component :: "string \<Rightarrow> string" where
  "after_component s = dropWhile ((\<noteq>) CHR ''/'') (skip_slashes s)"

lemma length_after_component [simp]:
  "s \<noteq> [] \<Longrightarrow> length (after_component s) < length s"
proof (cases s)
  case (Cons c cs)
  show ?thesis
  proof (cases "c = CHR ''/''")
    case True
    have "length (after_component s) \<le> length (skip_slashes s)"
      by (simp add: after_component_def length_dropWhile_le)
    also have "\<dots> < length s"
      using Cons True by (auto simp: skip_slashes_def le_imp_less_Suc length_dropWhile_le)
    finally show ?thesis .
  next
    case False
    then show ?thesis
      using Cons by (auto simp: after_component_def skip_slashes_def le_imp_less_Suc length_dropWhile_le)
  qed
qed simp

lemma slash_notin_head_component [simp]: "CHR ''/'' \<notin> set (head_component s)"
  by (simp add: head_component_def notin_takeWhile_neq)

function components :: "string \<Rightarrow> string list" where
  "components s =
     (if s = [] then []
      else if head_component s = [] then components (after_component s)
      else head_component s # components (after_component s))"
  by pat_completeness auto
termination
  by (relation "measure length") auto

declare components.simps [simp del]

lemma components_Nil [simp]: "components [] = []"
  by (simp add: components.simps)

section \<open>Normalisation\<close>

definition path_step :: "string list \<Rightarrow> string \<Rightarrow> string list" where
  "path_step st c =
     (if c = ''.'' then st else if c = ''..'' then butlast st else st @ [c])"

definition normalize :: "string list \<Rightarrow> string list \<Rightarrow> string list" where
  "normalize st cs = foldl path_step st cs"

text \<open>A proper component is one that survives normalisation.\<close>

definition proper_component :: "string \<Rightarrow> bool" where
  "proper_component c \<longleftrightarrow>
     c \<noteq> [] \<and> CHR ''/'' \<notin> set c \<and> c \<noteq> ''.'' \<and> c \<noteq> ''..''"

definition proper_stack :: "string list \<Rightarrow> bool" where
  "proper_stack st \<longleftrightarrow> (\<forall>c \<in> set st. proper_component c)"

definition render_abs :: "string list \<Rightarrow> string" where
  "render_abs st = (if st = [] then ''/'' else concat (map (\<lambda>c. CHR ''/'' # c) st))"

fun render_rel :: "string list \<Rightarrow> string" where
  "render_rel [] = []"
| "render_rel [c] = c"
| "render_rel (c # d # cs) = c @ CHR ''/'' # render_rel (d # cs)"

definition canonical_path_str :: "string \<Rightarrow> bool" where
  "canonical_path_str s \<longleftrightarrow> (\<exists>st. proper_stack st \<and> s = render_abs st)"

lemma proper_stack_Nil [simp]: "proper_stack []"
  by (simp add: proper_stack_def)

lemma proper_stack_append [simp]:
  "proper_stack (xs @ ys) \<longleftrightarrow> proper_stack xs \<and> proper_stack ys"
  by (auto simp: proper_stack_def)

lemma proper_stack_Cons [simp]:
  "proper_stack (x # xs) \<longleftrightarrow> proper_component x \<and> proper_stack xs"
  by (auto simp: proper_stack_def)

lemma proper_stack_butlast [simp]: "proper_stack st \<Longrightarrow> proper_stack (butlast st)"
  by (auto simp: proper_stack_def dest: in_set_butlastD)

lemma normalize_Nil [simp]: "normalize st [] = st"
  by (simp add: normalize_def)

lemma normalize_Cons [simp]: "normalize st (c # cs) = normalize (path_step st c) cs"
  by (simp add: normalize_def)

lemma normalize_append: "normalize st (xs @ ys) = normalize (normalize st xs) ys"
  by (simp add: normalize_def)

lemma normalize_proper_id: "proper_stack cs \<Longrightarrow> normalize st cs = st @ cs"
  by (induction cs arbitrary: st) (auto simp: path_step_def proper_component_def)

lemma components_nonempty: "c \<in> set (components s) \<Longrightarrow> c \<noteq> [] \<and> CHR ''/'' \<notin> set c"
proof (induction s rule: components.induct)
  case (1 s)
  then show ?case
    by (subst (asm) (3) components.simps) (auto split: if_splits)
qed

lemma path_step_proper:
  assumes "proper_stack st" and "c \<noteq> []" and "CHR ''/'' \<notin> set c"
  shows "proper_stack (path_step st c)"
  using assms by (auto simp: path_step_def proper_component_def)

lemma normalize_proper:
  assumes "proper_stack st" and "\<And>c. c \<in> set cs \<Longrightarrow> c \<noteq> [] \<and> CHR ''/'' \<notin> set c"
  shows "proper_stack (normalize st cs)"
  using assms
proof (induction cs arbitrary: st)
  case Nil
  then show ?case by simp
next
  case (Cons c cs)
  then show ?case by (simp add: path_step_proper)
qed

lemma normalize_components_proper:
  "proper_stack st \<Longrightarrow> proper_stack (normalize st (components s))"
  by (rule normalize_proper) (auto dest: components_nonempty)

section \<open>Rendering\<close>

lemma render_abs_Nil [simp]: "render_abs [] = ''/''"
  by (simp add: render_abs_def)

lemma render_abs_snoc:
  "render_abs (st @ [c]) = (if st = [] then [] else render_abs st) @ CHR ''/'' # c"
  by (simp add: render_abs_def)

lemma render_abs_Cons:
  "render_abs (c # cs) = CHR ''/'' # c @ (if cs = [] then [] else render_abs cs)"
  by (simp add: render_abs_def)

lemma render_abs_neq_Nil [simp]: "render_abs st \<noteq> []"
  by (cases st) (simp_all add: render_abs_Cons)

lemma hd_render_abs [simp]: "hd (render_abs st) = CHR ''/''"
  by (cases st) (simp_all add: render_abs_Cons)

lemma length_render_abs_eq_1:
  assumes "proper_stack st"
  shows "length (render_abs st) = 1 \<longleftrightarrow> st = []"
  using assms by (cases st) (auto simp: render_abs_Cons proper_component_def)

lemma skip_slashes_Cons [simp]:
  "skip_slashes (CHR ''/'' # s) = skip_slashes s"
  "c \<noteq> CHR ''/'' \<Longrightarrow> skip_slashes (c # s) = c # s"
  by (simp_all add: skip_slashes_def)

lemma components_slash [simp]: "components (CHR ''/'' # s) = components s"
proof (cases s)
  case Nil
  then show ?thesis
    by (subst components.simps) (simp add: head_component_def after_component_def skip_slashes_def)
next
  case (Cons c cs)
  have "head_component (CHR ''/'' # s) = head_component s"
    and "after_component (CHR ''/'' # s) = after_component s"
    by (simp_all add: head_component_def after_component_def)
  moreover have "s \<noteq> []" using Cons by simp
  ultimately show ?thesis
    by (simp add: components.simps [of "CHR ''/'' # s"] components.simps [of s])
qed

lemma components_word:
  assumes "c \<noteq> []" and "CHR ''/'' \<notin> set c" and "s = [] \<or> hd s = CHR ''/''"
  shows "components (c @ s) = c # components s"
proof -
  have sk: "skip_slashes (c @ s) = c @ s"
    using assms(1,2) by (cases c) auto
  have hc: "head_component (c @ s) = c"
    unfolding head_component_def sk using assms(2,3)
    by (cases s) (auto simp: takeWhile_neq_append takeWhile_neq_id)
  have ac: "after_component (c @ s) = s"
    unfolding after_component_def sk using assms(2,3)
    by (cases s) (auto simp: dropWhile_neq_append dropWhile_neq_Nil)
  show ?thesis
    using assms(1) by (simp add: components.simps [of "c @ s"] hc ac)
qed

lemma components_render_abs:
  "proper_stack st \<Longrightarrow> components (render_abs st) = st"
proof (induction st)
  case Nil
  then show ?case by simp
next
  case (Cons c cs)
  then have "c \<noteq> []" "CHR ''/'' \<notin> set c" "components (render_abs cs) = cs"
    by (auto simp: proper_component_def)
  then show ?case
    by (auto simp: render_abs_Cons components_word)
qed

lemma components_render_rel:
  "proper_stack st \<Longrightarrow> components (render_rel st) = st"
proof (induction st rule: render_rel.induct)
  case (2 c)
  then show ?case
    using components_word [of c "[]"] by (auto simp: proper_component_def)
next
  case (3 c d cs)
  then show ?case
    by (auto simp: proper_component_def components_word)
qed simp

lemma render_abs_inject:
  assumes "proper_stack xs" and "proper_stack ys" and "render_abs xs = render_abs ys"
  shows "xs = ys"
  using assms components_render_abs by metis

lemma canonical_path_str_render [intro, simp]:
  "proper_stack st \<Longrightarrow> canonical_path_str (render_abs st)"
  by (auto simp: canonical_path_str_def)

lemma render_rel_snoc:
  "render_rel (st @ [c]) = (if st = [] then c else render_rel st @ CHR ''/'' # c)"
  by (induction st rule: render_rel.induct) auto

lemma render_rel_eq_Nil: "proper_stack st \<Longrightarrow> render_rel st = [] \<longleftrightarrow> st = []"
  by (cases st rule: render_rel.cases) (auto simp: proper_component_def)

lemma render_abs_rel: "st \<noteq> [] \<Longrightarrow> render_abs st = CHR ''/'' # render_rel st"
  by (induction st rule: render_rel.induct) (auto simp: render_abs_Cons)

section \<open>Cutting at slashes\<close>

lemma components_append_slash:
  "components (xs @ CHR ''/'' # ys) = components xs @ components ys"
proof (induction "length xs" arbitrary: xs rule: less_induct)
  case less
  show ?case
  proof (cases xs)
    case (Cons x xs')
    show ?thesis
    proof (cases "x = CHR ''/''")
      case True
      then show ?thesis using less [of xs'] Cons by simp
    next
      case False
      define c where "c = takeWhile ((\<noteq>) CHR ''/'') xs"
      define r where "r = dropWhile ((\<noteq>) CHR ''/'') xs"
      have xs: "xs = c @ r" by (simp add: c_def r_def)
      have c: "c \<noteq> []" "CHR ''/'' \<notin> set c"
        using False Cons by (auto simp: c_def notin_takeWhile_neq)
      show ?thesis
      proof (cases r)
        case Nil
        then show ?thesis
          using c xs components_word [of c "[]"] components_word [of c "CHR ''/'' # ys"] by simp
      next
        case (Cons y r')
        then have "y = CHR ''/''"
          using hd_dropWhile [of "(\<noteq>) CHR ''/''" xs] by (auto simp: r_def)
        then show ?thesis
          using c xs Cons less [of r'] by (simp add: components_word)
      qed
    qed
  qed simp
qed

text \<open>No two slashes in a row.\<close>

fun single_slashes :: "string \<Rightarrow> bool" where
  "single_slashes (a # b # s) \<longleftrightarrow> \<not> (a = CHR ''/'' \<and> b = CHR ''/'') \<and> single_slashes (b # s)"
| "single_slashes s \<longleftrightarrow> True"

lemma single_slashes_nth:
  "single_slashes s \<Longrightarrow> i + 1 < length s \<Longrightarrow> s ! i = CHR ''/'' \<Longrightarrow> s ! (i + 1) \<noteq> CHR ''/''"
  by (induction s arbitrary: i rule: single_slashes.induct) (auto simp: nth_Cons' split: if_splits)

lemma single_slashes_word:
  "CHR ''/'' \<notin> set c \<Longrightarrow> single_slashes (c @ s) = single_slashes s"
proof (induction c)
  case (Cons x c)
  then show ?case by (cases "c @ s") auto
qed simp

lemma single_slashes_render_rel: "proper_stack st \<Longrightarrow> single_slashes (render_rel st)"
proof (induction st rule: render_rel.induct)
  case (2 c)
  then show ?case
    using single_slashes_word [of c "[]"] by (simp add: proper_component_def)
next
  case (3 c d cs)
  have "render_rel (d # cs) \<noteq> []" "hd (render_rel (d # cs)) \<noteq> CHR ''/''"
    using "3.prems" by (cases cs; cases d; auto simp: proper_component_def)+
  then have "single_slashes (CHR ''/'' # render_rel (d # cs))"
    using 3 by (cases "render_rel (d # cs)") auto
  then show ?case
    using "3.prems" by (simp add: proper_component_def single_slashes_word)
qed simp

end
