(* ===== verification/Initrd.thy ===== *)
theory Initrd
  imports Paths
begin

text \<open>
  The read-only boot file system of src/dominit0/initrd.c: parsing a newc CPIO
  archive into an entry table, resolving paths against a directory, looking
  entries up, reading files, listing directories page by page, and the
  loader-side execute check.  The archive is a byte list; an entry points into
  it by offset and size, as the C entry points into the mapped module.
\<close>

section \<open>State\<close>

record InitrdEntry =
  ie_path :: string
  ie_data :: nat
  ie_size :: nat
  ie_directory :: bool
  ie_mode :: u32
  ie_uid :: u32
  ie_gid :: u32
  ie_file_handle :: FacetHandle
  ie_directory_handle :: FacetHandle
  ie_unix_metadata_handle :: FacetHandle

record FacetInitrd =
  in_data :: string
  in_entries :: "InitrdEntry list"
  in_store_handle :: FacetHandle

abbreviation CPIO_HEADER_SIZE :: nat where "CPIO_HEADER_SIZE \<equiv> 110"
abbreviation CPIO_MAX_ENTRIES :: nat where "CPIO_MAX_ENTRIES \<equiv> 1024"
abbreviation FACET_PATH_MAX :: nat where "FACET_PATH_MAX \<equiv> 4096"
abbreviation SIZE_MAX :: nat where "SIZE_MAX \<equiv> 18446744073709551615"

section \<open>Archive fields\<close>

definition align4 :: "nat \<Rightarrow> nat" where
  "align4 v = 4 * ((v + 3) div 4)"

fun hex_field_loop :: "string \<Rightarrow> nat \<Rightarrow> nat option" where
  "hex_field_loop [] v = Some v"
| "hex_field_loop (c # cs) v =
     (case hex_digit c of
        None \<Rightarrow> None
      | Some d \<Rightarrow> if v > (SIZE_MAX - d) div 16 then None else hex_field_loop cs (v * 16 + d))"

definition hex_field :: "string \<Rightarrow> nat \<Rightarrow> nat \<Rightarrow> nat option" where
  "hex_field header at count = hex_field_loop (take count (drop at header)) 0"

fun strip_dot_slash :: "string \<Rightarrow> string" where
  "strip_dot_slash (a # b # s) =
     (if a = CHR ''.'' \<and> b = CHR ''/'' then strip_dot_slash s else a # b # s)"
| "strip_dot_slash s = s"

definition bad_name_byte :: "string \<Rightarrow> nat \<Rightarrow> bool" where
  "bad_name_byte name i \<longleftrightarrow>
     name ! i = NUL \<or>
     (name ! i = CHR ''/'' \<and> i + 1 < length name \<and> name ! (i + 1) = CHR ''/'') \<or>
     (name ! i = CHR ''.'' \<and> i + 1 < length name \<and> name ! (i + 1) = CHR ''.'' \<and>
      (i = 0 \<or> name ! (i - 1) = CHR ''/'') \<and>
      (i + 2 = length name \<or> name ! (i + 2) = CHR ''/''))"

definition canonical_path :: "heap \<Rightarrow> string \<Rightarrow> (string \<times> heap) option" where
  "canonical_path h raw =
     (let name = skip_slashes (strip_dot_slash raw) in
      if name = [] \<or> name = ''.'' then None
      else if list_ex (bad_name_byte name) [0..<length name] then None
      else if h = 0 then None
      else Some (CHR ''/'' # name, h - 1))"

section \<open>Lookup and path resolution\<close>

definition find_entry :: "FacetInitrd \<Rightarrow> string \<Rightarrow> bool \<Rightarrow> nat option" where
  "find_entry ini path directory =
     (if path = [] \<or> hd path \<noteq> CHR ''/'' then None
      else first_index (\<lambda>e. ie_directory e = directory \<and> ie_path e = path) (in_entries ini))"

definition path_requires_directory :: "string \<Rightarrow> bool" where
  "path_requires_directory path \<longleftrightarrow>
     last path = CHR ''/'' \<or>
     (let tail = rev (takeWhile ((\<noteq>) CHR ''/'') (rev path)) in tail = ''.'' \<or> tail = ''..'')"

text \<open>The output buffer is the list of the bytes written so far.\<close>

function strip_last :: "string \<Rightarrow> string" where
  "strip_last out =
     (if 1 < length out \<and> last out \<noteq> CHR ''/'' then strip_last (butlast out) else out)"
  by pat_completeness auto
termination
  by (relation "measure length") auto

declare strip_last.simps [simp del]

definition pop_component :: "string \<Rightarrow> string" where
  "pop_component out =
     (if 1 < length out
      then (let out' = strip_last out in if 1 < length out' then butlast out' else out')
      else out)"

function resolve_loop :: "string \<Rightarrow> string \<Rightarrow> string facet" where
  "resolve_loop rest out =
     (if rest = [] then Inr out
      else let component = head_component rest; rest' = after_component rest in
        if component = [] \<or> component = ''.'' then resolve_loop rest' out
        else if component = ''..'' then resolve_loop rest' (pop_component out)
        else let separator = (if length out = 1 then 0 else 1) in
          if length out + separator > FACET_PATH_MAX \<or>
             length component > FACET_PATH_MAX - (length out + separator)
          then Inl FACET_INVALID_ARGUMENT
          else resolve_loop rest'
                 ((if separator \<noteq> 0 then out @ ''/'' else out) @ component))"
  by pat_completeness auto
termination
  by (relation "measure (\<lambda>(rest, out). length rest)") auto

declare resolve_loop.simps [simp del]

definition resolve_path :: "bool \<Rightarrow> string \<Rightarrow> string \<Rightarrow> (string \<times> bool) facet" where
  "resolve_path mem base path =
     (if base = [] \<or> hd base \<noteq> CHR ''/'' \<or> path = [] \<or> length path > FACET_PATH_MAX \<or>
         NUL \<in> set path
      then Inl FACET_INVALID_ARGUMENT
      else if \<not> mem then Inl FACET_OUT_OF_MEMORY
      else if hd path \<noteq> CHR ''/'' \<and> (length base = 0 \<or> length base > FACET_PATH_MAX)
      then Inl FACET_INVALID_ARGUMENT
      else bindE (resolve_loop path (if hd path = CHR ''/'' then ''/'' else base))
             (\<lambda>out. Inr (out, path_requires_directory path)))"

section \<open>Parsing the archive\<close>

datatype cpio_step =
    CpioFail
  | CpioTrailer
  | CpioSkip nat
  | CpioEntry InitrdEntry nat heap

definition magic_ok :: "string \<Rightarrow> bool" where
  "magic_ok header \<longleftrightarrow> take 6 header = ''070701'' \<or> take 6 header = ''070702''"

definition new_entry :: "string \<Rightarrow> nat \<Rightarrow> nat \<Rightarrow> bool \<Rightarrow> nat \<Rightarrow> nat \<Rightarrow> nat \<Rightarrow> InitrdEntry" where
  "new_entry path data sz directory mode uid gid =
     \<lparr>ie_path = path, ie_data = data, ie_size = sz, ie_directory = directory,
      ie_mode = of_nat mode, ie_uid = of_nat uid, ie_gid = of_nat gid,
      ie_file_handle = None, ie_directory_handle = None, ie_unix_metadata_handle = None\<rparr>"

definition cpio_member ::
  "heap \<Rightarrow> string \<Rightarrow> InitrdEntry list \<Rightarrow> nat \<Rightarrow> nat \<Rightarrow> nat \<Rightarrow> nat \<Rightarrow> nat \<Rightarrow> nat \<Rightarrow> cpio_step" where
  "cpio_member h img entries offset mode uid gid file_size name_size =
     (let size = length img; name_offset = offset + CPIO_HEADER_SIZE in
      if name_offset > size \<or> name_size > size - name_offset then CpioFail
      else let name = drop name_offset img in
      if name ! (name_size - 1) \<noteq> NUL then CpioFail
      else let data_offset = align4 (name_offset + name_size) in
      if data_offset > size \<or> file_size > size - data_offset then CpioFail
      else if cstr name = ''TRAILER!!!'' then CpioTrailer
      else if cstr name = ''.'' then CpioSkip (align4 (data_offset + file_size))
      else let kind = (of_nat mode :: u32) AND 0xF000 in
      if kind \<noteq> 0x8000 \<and> kind \<noteq> 0x4000 then CpioFail
      else if length entries = CPIO_MAX_ENTRIES then CpioFail
      else case canonical_path h (take (name_size - 1) name) of
             None \<Rightarrow> CpioFail
           | Some (path, h1) \<Rightarrow>
               if list_ex (\<lambda>e. ie_path e = path) entries then CpioFail
               else if h1 = 0 then CpioFail
               else CpioEntry
                      (new_entry path data_offset file_size (kind = 0x4000) mode uid gid)
                      (align4 (data_offset + file_size)) (h1 - 1))"

definition cpio_step :: "heap \<Rightarrow> string \<Rightarrow> InitrdEntry list \<Rightarrow> nat \<Rightarrow> cpio_step" where
  "cpio_step h img entries offset =
     (let header = drop offset img in
      if \<not> magic_ok header then CpioFail
      else case (hex_field header 14 8, hex_field header 22 8, hex_field header 30 8,
                 hex_field header 54 8, hex_field header 94 8) of
             (Some mode, Some uid, Some gid, Some file_size, Some name_size) \<Rightarrow>
               if name_size = 0 then CpioFail
               else cpio_member h img entries offset mode uid gid file_size name_size
           | _ \<Rightarrow> CpioFail)"

lemma align4_ge [simp]: "v \<le> align4 v"
  by (simp add: align4_def)

lemma cpio_member_advances:
  assumes "0 < name_size"
  shows "cpio_member h img es off mode uid gid fs name_size = CpioSkip n \<Longrightarrow> off < n"
    and "cpio_member h img es off mode uid gid fs name_size = CpioEntry e n h' \<Longrightarrow> off < n"
proof -
  have less: "off < align4 (align4 (off + CPIO_HEADER_SIZE + name_size) + fs)"
    using align4_ge [of "off + CPIO_HEADER_SIZE + name_size"]
      align4_ge [of "align4 (off + CPIO_HEADER_SIZE + name_size) + fs"] by linarith
  show "cpio_member h img es off mode uid gid fs name_size = CpioSkip n \<Longrightarrow> off < n"
    using less by (auto simp: cpio_member_def Let_def split: if_splits option.splits)
  show "cpio_member h img es off mode uid gid fs name_size = CpioEntry e n h' \<Longrightarrow> off < n"
    using less by (auto simp: cpio_member_def Let_def split: if_splits option.splits)
qed

lemma cpio_step_advances:
  "cpio_step h img es off = CpioSkip n \<Longrightarrow> off < n"
  "cpio_step h img es off = CpioEntry e n h' \<Longrightarrow> off < n"
  by (auto simp: cpio_step_def Let_def dest: cpio_member_advances split: if_splits option.splits)

function cpio_loop :: "heap \<Rightarrow> string \<Rightarrow> nat \<Rightarrow> InitrdEntry list \<Rightarrow> InitrdEntry list option" where
  "cpio_loop h img offset entries =
     (if offset + CPIO_HEADER_SIZE \<le> length img
      then case cpio_step h img entries offset of
             CpioFail \<Rightarrow> None
           | CpioTrailer \<Rightarrow> Some entries
           | CpioSkip next \<Rightarrow> cpio_loop h img next entries
           | CpioEntry e next h' \<Rightarrow> cpio_loop h' img next (entries @ [e])
      else Some entries)"
  by pat_completeness auto
termination
proof (relation "measure (\<lambda>(h, img, offset, entries). length img - offset)", goal_cases)
  case (2 h img offset entries n)
  then have "offset < n" by (auto dest: cpio_step_advances)
  with 2 show ?case by auto
next
  case (3 h img offset entries e n h')
  then have "offset < n" by (auto dest: cpio_step_advances)
  with 3 show ?case by auto
qed simp

declare cpio_loop.simps [simp del]

definition root_entry :: InitrdEntry where
  "root_entry = (new_entry ''/'' 0 0 True 0x41ED 0 0)"

definition facet_initrd_create :: "heap \<Rightarrow> string \<Rightarrow> FacetInitrd option" where
  "facet_initrd_create h img =
     (if length img < CPIO_HEADER_SIZE then None
      else if h < 3 then None
      else map_option (\<lambda>es. \<lparr>in_data = img, in_entries = es, in_store_handle = None\<rparr>)
             (cpio_loop (h - 3) img 0 [root_entry]))"

section \<open>File and directory objects\<close>

text \<open>
  An object handed to a client is an entry index.  \<open>expo\<close> is the outcome
  of libfacet_export_interface, should the call be made: the handle of the new
  server object, or its error code.
\<close>

definition return_handle :: "FacetHandle \<Rightarrow> FacetHandle facet" where
  "return_handle handle = (if handle = None then Inl FACET_INVALID_HANDLE else Inr handle)"

definition update_entry :: "FacetInitrd \<Rightarrow> nat \<Rightarrow> (InitrdEntry \<Rightarrow> InitrdEntry) \<Rightarrow> FacetInitrd" where
  "update_entry ini i f = ini\<lparr>in_entries := (in_entries ini)[i := f (in_entries ini ! i)]\<rparr>"

definition store_open_file ::
  "bool \<Rightarrow> FacetHandle facet \<Rightarrow> FacetInitrd \<Rightarrow> string \<Rightarrow> FacetHandle facet \<times> FacetInitrd" where
  "store_open_file mem expo ini path =
     (case resolve_path mem ''/'' path of
        Inl r \<Rightarrow> (Inl r, ini)
      | Inr (resolved, requires_directory) \<Rightarrow>
          (case (if requires_directory then None else find_entry ini resolved False) of
             None \<Rightarrow> (Inl FACET_NOT_FOUND, ini)
           | Some i \<Rightarrow>
               if ie_file_handle (in_entries ini ! i) = None
               then (case expo of
                       Inl _ \<Rightarrow> (Inl FACET_OUT_OF_MEMORY, ini)
                     | Inr hdl \<Rightarrow>
                         (return_handle hdl, update_entry ini i (\<lambda>e. e\<lparr>ie_file_handle := hdl\<rparr>)))
               else (return_handle (ie_file_handle (in_entries ini ! i)), ini)))"

definition store_open_directory ::
  "bool \<Rightarrow> FacetHandle facet \<Rightarrow> FacetInitrd \<Rightarrow> string \<Rightarrow> FacetHandle facet \<times> FacetInitrd" where
  "store_open_directory mem expo ini path =
     (case resolve_path mem ''/'' path of
        Inl r \<Rightarrow> (Inl r, ini)
      | Inr (resolved, requires_directory) \<Rightarrow>
          (case find_entry ini resolved True of
             None \<Rightarrow> (Inl FACET_NOT_FOUND, ini)
           | Some i \<Rightarrow>
               if ie_directory_handle (in_entries ini ! i) = None
               then (case expo of
                       Inl _ \<Rightarrow> (Inl FACET_OUT_OF_MEMORY, ini)
                     | Inr hdl \<Rightarrow>
                         (return_handle hdl, update_entry ini i (\<lambda>e. e\<lparr>ie_directory_handle := hdl\<rparr>)))
               else (return_handle (ie_directory_handle (in_entries ini ! i)), ini)))"

definition directory_open_file ::
  "bool \<Rightarrow> bool \<Rightarrow> FacetHandle facet \<Rightarrow> FacetInitrd \<Rightarrow> nat \<Rightarrow> string \<Rightarrow> FacetHandle facet \<times> FacetInitrd" where
  "directory_open_file mem mem' expo ini d path =
     (case resolve_path mem (ie_path (in_entries ini ! d)) path of
        Inl r \<Rightarrow> (Inl r, ini)
      | Inr (resolved, requires_directory) \<Rightarrow>
          if requires_directory then (Inl FACET_NOT_FOUND, ini)
          else store_open_file mem' expo ini resolved)"

definition directory_open_directory ::
  "bool \<Rightarrow> bool \<Rightarrow> FacetHandle facet \<Rightarrow> FacetInitrd \<Rightarrow> nat \<Rightarrow> string \<Rightarrow> FacetHandle facet \<times> FacetInitrd" where
  "directory_open_directory mem mem' expo ini d path =
     (case resolve_path mem (ie_path (in_entries ini ! d)) path of
        Inl r \<Rightarrow> (Inl r, ini)
      | Inr (resolved, requires_directory) \<Rightarrow> store_open_directory mem' expo ini resolved)"

definition file_read_at :: "FacetInitrd \<Rightarrow> InitrdEntry \<Rightarrow> nat \<Rightarrow> nat \<Rightarrow> string facet" where
  "file_read_at ini e offset maximum =
     (if offset > ie_size e then Inl FACET_INVALID_ARGUMENT
      else let remaining = ie_size e - offset;
               count = (if remaining < maximum then remaining else maximum)
           in Inr (take count (drop (ie_data e + offset) (in_data ini))))"

definition file_write_at :: "FacetInitrd \<Rightarrow> InitrdEntry \<Rightarrow> nat \<Rightarrow> string \<Rightarrow> nat facet \<times> FacetInitrd" where
  "file_write_at ini e offset bytes = (Inl FACET_NOT_SUPPORTED, ini)"

text \<open>The IUnixMetadata object of an entry is exported on first use.\<close>

definition ensure_metadata_exported ::
  "FacetHandle facet \<Rightarrow> FacetInitrd \<Rightarrow> nat \<Rightarrow> unit facet \<times> FacetInitrd" where
  "ensure_metadata_exported expo ini i =
     (if ie_unix_metadata_handle (in_entries ini ! i) \<noteq> None then (Inr (), ini)
      else case expo of
             Inl r \<Rightarrow> (Inl r, ini)
           | Inr hdl \<Rightarrow> (Inr (), update_entry ini i (\<lambda>e. e\<lparr>ie_unix_metadata_handle := hdl\<rparr>)))"

definition facet_initrd_node_metadata_handle ::
  "FacetHandle facet \<Rightarrow> FacetInitrd \<Rightarrow> nat \<Rightarrow> FacetHandle facet \<times> FacetInitrd" where
  "facet_initrd_node_metadata_handle expo ini i =
     (case ensure_metadata_exported expo ini i of
        (Inl r, ini') \<Rightarrow> (Inl r, ini')
      | (Inr _, ini') \<Rightarrow> (return_handle (ie_unix_metadata_handle (in_entries ini' ! i)), ini'))"

text \<open>
  The interface ids come from headers that the IDL compiler generates, so they
  are a parameter; \<open>getInterface\<close> compares all sixteen bytes.
\<close>

type_synonym uuid = string

record InterfaceIds =
  IID_IGenericObject :: uuid
  IID_IFileStore :: uuid
  IID_IFile :: uuid
  IID_IDirectory :: uuid
  IID_IUnixMetadata :: uuid

definition iid_equal :: "uuid \<Rightarrow> uuid \<Rightarrow> bool" where
  "iid_equal a b \<longleftrightarrow> take 16 a = take 16 b"

definition store_get_interface :: "InterfaceIds \<Rightarrow> FacetInitrd \<Rightarrow> uuid \<Rightarrow> FacetHandle facet" where
  "store_get_interface I ini iid =
     (if iid_equal iid (IID_IGenericObject I) \<or> iid_equal iid (IID_IFileStore I)
      then return_handle (in_store_handle ini) else Inl FACET_NO_INTERFACE)"

definition file_get_interface ::
  "InterfaceIds \<Rightarrow> FacetHandle facet \<Rightarrow> FacetInitrd \<Rightarrow> nat \<Rightarrow> uuid \<Rightarrow> FacetHandle facet \<times> FacetInitrd" where
  "file_get_interface I expo ini i iid =
     (if iid_equal iid (IID_IGenericObject I) \<or> iid_equal iid (IID_IFile I)
      then (return_handle (ie_file_handle (in_entries ini ! i)), ini)
      else if iid_equal iid (IID_IUnixMetadata I)
      then (case ensure_metadata_exported expo ini i of
              (Inl r, ini') \<Rightarrow> (Inl r, ini')
            | (Inr _, ini') \<Rightarrow> (return_handle (ie_unix_metadata_handle (in_entries ini' ! i)), ini'))
      else (Inl FACET_NO_INTERFACE, ini))"

definition directory_get_interface ::
  "InterfaceIds \<Rightarrow> FacetHandle facet \<Rightarrow> FacetInitrd \<Rightarrow> nat \<Rightarrow> uuid \<Rightarrow> FacetHandle facet \<times> FacetInitrd" where
  "directory_get_interface I expo ini i iid =
     (if iid_equal iid (IID_IGenericObject I) \<or> iid_equal iid (IID_IDirectory I)
      then (return_handle (ie_directory_handle (in_entries ini ! i)), ini)
      else if iid_equal iid (IID_IUnixMetadata I)
      then (case ensure_metadata_exported expo ini i of
              (Inl r, ini') \<Rightarrow> (Inl r, ini')
            | (Inr _, ini') \<Rightarrow> (return_handle (ie_unix_metadata_handle (in_entries ini' ! i)), ini'))
      else (Inl FACET_NO_INTERFACE, ini))"

definition metadata_get_interface :: "InterfaceIds \<Rightarrow> FacetInitrd \<Rightarrow> nat \<Rightarrow> uuid \<Rightarrow> FacetHandle facet" where
  "metadata_get_interface I ini i iid =
     (if iid_equal iid (IID_IGenericObject I) \<or> iid_equal iid (IID_IUnixMetadata I)
      then return_handle (ie_unix_metadata_handle (in_entries ini ! i)) else Inl FACET_NO_INTERFACE)"

definition file_get_path :: "InitrdEntry \<Rightarrow> string" where
  "file_get_path e = ie_path e"

definition directory_get_path :: "InitrdEntry \<Rightarrow> string" where
  "directory_get_path e = ie_path e"

definition file_get_size :: "InitrdEntry \<Rightarrow> nat" where
  "file_get_size e = ie_size e"

definition metadata_get_mode :: "InitrdEntry \<Rightarrow> u32" where
  "metadata_get_mode e = ie_mode e"

definition metadata_get_uid :: "InitrdEntry \<Rightarrow> u32" where
  "metadata_get_uid e = ie_uid e"

definition metadata_get_gid :: "InitrdEntry \<Rightarrow> u32" where
  "metadata_get_gid e = ie_gid e"

text \<open>Teardown: the handles facet_initrd_destroy unexports, in order.\<close>

definition facet_initrd_destroy :: "FacetInitrd \<Rightarrow> nat list" where
  "facet_initrd_destroy ini =
     List.map_filter id
       (in_store_handle ini #
        concat (map (\<lambda>e. [ie_file_handle e, ie_directory_handle e, ie_unix_metadata_handle e])
                  (in_entries ini)))"

section \<open>Directory listing\<close>

datatype EntryType = EntryType_File | EntryType_Directory

definition immediate_child :: "string \<Rightarrow> string \<Rightarrow> string option" where
  "immediate_child directory path =
     (let prefix =
        (if directory = ''/''
         then (if path = [] \<or> hd path \<noteq> CHR ''/'' \<or> length path = 1 then None else Some 1)
         else let n = length directory in
           if take n path \<noteq> directory \<or> length path \<le> n \<or> path ! n \<noteq> CHR ''/'' \<or>
              length path = n + 1
           then None else Some (n + 1))
      in case prefix of
           None \<Rightarrow> None
         | Some k \<Rightarrow> if CHR ''/'' \<in> set (drop k path) then None else Some (drop k path))"

fun list_loop ::
  "string \<Rightarrow> nat \<Rightarrow> nat \<Rightarrow> InitrdEntry list \<Rightarrow> nat \<Rightarrow> (string \<times> EntryType) list
   \<Rightarrow> (string \<times> EntryType) list \<times> bool" where
  "list_loop dir cursor maximum [] seen acc = (acc, True)"
| "list_loop dir cursor maximum (e # es) seen acc =
     (case immediate_child dir (ie_path e) of
        None \<Rightarrow> list_loop dir cursor maximum es seen acc
      | Some name \<Rightarrow>
          if seen < cursor then list_loop dir cursor maximum es (seen + 1) acc
          else if length acc = maximum then (acc, False)
          else list_loop dir cursor maximum es (seen + 1)
                 (acc @ [(name, if ie_directory e then EntryType_Directory else EntryType_File)]))"

definition directory_list ::
  "bool \<Rightarrow> FacetInitrd \<Rightarrow> InitrdEntry \<Rightarrow> nat \<Rightarrow> nat
   \<Rightarrow> ((string \<times> EntryType) list \<times> nat \<times> bool) facet" where
  "directory_list mem ini d cursor maximum =
     (if cursor > length (in_entries ini) then Inl FACET_INVALID_ARGUMENT
      else if maximum \<noteq> 0 \<and> \<not> mem then Inl FACET_OUT_OF_MEMORY
      else let (entries, end) = list_loop (ie_path d) cursor maximum (in_entries ini) 0 []
           in Inr (entries, cursor + length entries, end))"

section \<open>Trusted lookups\<close>

definition facet_initrd_find_file :: "FacetInitrd \<Rightarrow> string \<Rightarrow> string facet" where
  "facet_initrd_find_file ini path =
     (if path = [] \<or> length path > FACET_PATH_MAX \<or> hd path \<noteq> CHR ''/'' then Inl FACET_NOT_FOUND
      else case find_entry ini path False of
             None \<Rightarrow> Inl FACET_NOT_FOUND
           | Some i \<Rightarrow>
               let e = in_entries ini ! i in Inr (take (ie_size e) (drop (ie_data e) (in_data ini))))"

definition entry_allows :: "InitrdEntry \<Rightarrow> u32 \<Rightarrow> u32 \<Rightarrow> bool \<Rightarrow> u32 \<Rightarrow> bool" where
  "entry_allows e uid gid admin requested =
     (if admin \<or> uid = 0
      then \<not> (requested AND 1 \<noteq> 0 \<and> ie_mode e AND 0x49 = 0)
      else let granted =
             (if uid = ie_uid e then drop_bit 6 (ie_mode e) AND 7
              else if gid = ie_gid e then drop_bit 3 (ie_mode e) AND 7
              else ie_mode e AND 7)
           in granted AND requested = requested)"

definition component_end :: "string \<Rightarrow> nat \<Rightarrow> nat" where
  "component_end path i =
     (let s = i + length (takeWhile ((=) CHR ''/'') (drop i path))
      in s + length (takeWhile ((\<noteq>) CHR ''/'') (drop s path)))"

lemma component_end_gt: "i < length path \<Longrightarrow> i < component_end path i"
  by (cases "drop i path") (auto simp: component_end_def Let_def)

function search_prefixes ::
  "FacetInitrd \<Rightarrow> string \<Rightarrow> u32 \<Rightarrow> u32 \<Rightarrow> bool \<Rightarrow> nat \<Rightarrow> unit facet" where
  "search_prefixes ini path uid gid admin i =
     (if i < length path
      then let e = component_end path i in
        if e = length path then Inr ()
        else (case find_entry ini (take e path) True of
                None \<Rightarrow> Inl FACET_NOT_FOUND
              | Some k \<Rightarrow>
                  if \<not> entry_allows (in_entries ini ! k) uid gid admin 1 then Inl FACET_ACCESS_DENIED
                  else search_prefixes ini path uid gid admin e)
      else Inr ())"
  by pat_completeness auto
termination
  by (relation "measure (\<lambda>(ini, path, uid, gid, admin, i). length path - i)")
    (auto intro: diff_less_mono2 component_end_gt)

declare search_prefixes.simps [simp del]

definition facet_initrd_check_execute ::
  "bool \<Rightarrow> FacetInitrd \<Rightarrow> string \<Rightarrow> u32 \<Rightarrow> u32 \<Rightarrow> bool \<Rightarrow> unit facet" where
  "facet_initrd_check_execute mem ini path uid gid admin =
     (if path = [] \<or> hd path \<noteq> CHR ''/'' then Inl FACET_INVALID_ARGUMENT
      else if length path > FACET_PATH_MAX then Inl FACET_INVALID_ARGUMENT
      else case find_entry ini ''/'' True of
             None \<Rightarrow> Inl FACET_ACCESS_DENIED
           | Some r \<Rightarrow>
               if \<not> entry_allows (in_entries ini ! r) uid gid admin 1 then Inl FACET_ACCESS_DENIED
               else if \<not> mem then Inl FACET_OUT_OF_MEMORY
               else bindE (search_prefixes ini path uid gid admin 1)
                 (\<lambda>_. case find_entry ini path False of
                        None \<Rightarrow> Inl FACET_NOT_FOUND
                      | Some f \<Rightarrow>
                          if \<not> entry_allows (in_entries ini ! f) uid gid admin 1
                          then Inl FACET_ACCESS_DENIED else Inr ()))"

definition facet_initrd_open_node :: "bool \<Rightarrow> FacetInitrd \<Rightarrow> string \<Rightarrow> string \<Rightarrow> bool \<Rightarrow> nat facet" where
  "facet_initrd_open_node mem ini base path directory =
     bindE (resolve_path mem base path)
       (\<lambda>(resolved, requires_directory).
          case (if requires_directory \<and> \<not> directory then None
                else find_entry ini resolved directory) of
            None \<Rightarrow> Inl FACET_NOT_FOUND
          | Some i \<Rightarrow> Inr i)"

definition facet_initrd_node_path :: "FacetInitrd \<Rightarrow> nat \<Rightarrow> string" where
  "facet_initrd_node_path ini i = ie_path (in_entries ini ! i)"

definition facet_initrd_node_metadata :: "FacetInitrd \<Rightarrow> nat \<Rightarrow> u32 \<times> u32 \<times> u32" where
  "facet_initrd_node_metadata ini i =
     (let e = in_entries ini ! i in (ie_mode e, ie_uid e, ie_gid e))"

definition facet_initrd_node_size :: "FacetInitrd \<Rightarrow> nat \<Rightarrow> nat facet" where
  "facet_initrd_node_size ini i =
     (if ie_directory (in_entries ini ! i) then Inl FACET_INVALID_ARGUMENT
      else Inr (ie_size (in_entries ini ! i)))"

definition facet_initrd_node_read :: "FacetInitrd \<Rightarrow> nat \<Rightarrow> nat \<Rightarrow> nat \<Rightarrow> string facet" where
  "facet_initrd_node_read ini i offset maximum =
     (if ie_directory (in_entries ini ! i) then Inl FACET_INVALID_ARGUMENT
      else file_read_at ini (in_entries ini ! i) offset maximum)"

definition facet_initrd_node_list ::
  "bool \<Rightarrow> FacetInitrd \<Rightarrow> nat \<Rightarrow> nat \<Rightarrow> nat
   \<Rightarrow> ((string \<times> EntryType) list \<times> nat \<times> bool) facet" where
  "facet_initrd_node_list mem ini i cursor maximum =
     (if \<not> ie_directory (in_entries ini ! i) then Inl FACET_INVALID_ARGUMENT
      else directory_list mem ini (in_entries ini ! i) cursor maximum)"

definition facet_initrd_export ::
  "FacetHandle facet \<Rightarrow> FacetInitrd \<Rightarrow> FacetHandle facet \<times> FacetInitrd" where
  "facet_initrd_export expo ini =
     (if in_store_handle ini \<noteq> None then (return_handle (in_store_handle ini), ini)
      else case expo of
             Inl r \<Rightarrow> (Inl r, ini)
           | Inr hdl \<Rightarrow> (return_handle hdl, ini\<lparr>in_store_handle := hdl\<rparr>))"

section \<open>Path resolution is component normalisation\<close>

lemma strip_last_word:
  "CHR ''/'' \<notin> set c \<Longrightarrow> strip_last (xs @ CHR ''/'' # c) = xs @ ''/''"
proof (induction c rule: rev_induct)
  case Nil
  then show ?case by (simp add: strip_last.simps)
next
  case (snoc x c)
  have "strip_last (xs @ CHR ''/'' # c @ [x]) = strip_last (xs @ CHR ''/'' # c)"
    using snoc.prems by (subst strip_last.simps) (auto simp: butlast_append)
  with snoc show ?case by simp
qed

lemma pop_component_render_abs:
  assumes "proper_stack st"
  shows "pop_component (render_abs st) = render_abs (butlast st)"
proof (cases st rule: rev_cases)
  case Nil
  then show ?thesis by (simp add: pop_component_def)
next
  case (snoc ss c)
  then have c: "c \<noteq> []" "CHR ''/'' \<notin> set c"
    using assms by (auto simp: proper_component_def)
  show ?thesis
    using snoc c by (simp add: pop_component_def render_abs_snoc strip_last_word butlast_append Let_def)
qed

text \<open>
  The buffer limit: every component that is appended must leave the path within
  FACET_PATH_MAX, also one that a later ".." removes again.
\<close>

fun path_fits :: "string list \<Rightarrow> string list \<Rightarrow> bool" where
  "path_fits st [] \<longleftrightarrow> True"
| "path_fits st (c # cs) \<longleftrightarrow>
     (proper_component c \<longrightarrow> length (render_abs (st @ [c])) \<le> FACET_PATH_MAX) \<and>
     path_fits (path_step st c) cs"

lemma append_component_render_abs:
  assumes "proper_stack st"
  shows "(if (if length (render_abs st) = 1 then 0 else (1::nat)) \<noteq> 0
          then render_abs st @ ''/'' else render_abs st) @ c = render_abs (st @ [c])"
  using length_render_abs_eq_1 [OF assms] by (auto simp: render_abs_snoc)

lemma component_fits_iff:
  assumes "proper_stack st" and "c \<noteq> []"
  shows "(length (render_abs st) + (if length (render_abs st) = 1 then 0 else 1) > FACET_PATH_MAX \<or>
          length c > FACET_PATH_MAX -
            (length (render_abs st) + (if length (render_abs st) = 1 then 0 else 1)))
         \<longleftrightarrow> \<not> length (render_abs (st @ [c])) \<le> FACET_PATH_MAX"
proof (cases "st = []")
  case False
  then have "length (render_abs st) \<noteq> 1"
    using length_render_abs_eq_1 [OF assms(1)] by simp
  moreover have "length c > 0" using assms(2) by simp
  ultimately show ?thesis
    using False by (simp add: render_abs_snoc) arith
next
  case True
  then show ?thesis by (auto simp: render_abs_Cons)
qed

lemma resolve_loop_normalize:
  assumes "proper_stack st"
  shows "resolve_loop rest (render_abs st) =
    (if path_fits st (components rest)
     then Inr (render_abs (normalize st (components rest)))
     else Inl FACET_INVALID_ARGUMENT)"
  using assms
proof (induction "length rest" arbitrary: rest st rule: less_induct)
  case less
  let ?c = "head_component rest" and ?r = "after_component rest"
  consider (nil) "rest = []" | (empty) "rest \<noteq> []" "?c = []" | (dot) "rest \<noteq> []" "?c = ''.''"
    | (up) "rest \<noteq> []" "?c = ''..''" | (proper) "rest \<noteq> []" "proper_component ?c"
    by (auto simp: proper_component_def)
  then show ?case
  proof cases
    case nil
    then show ?thesis by (simp add: resolve_loop.simps)
  next
    case empty
    then show ?thesis
      using less by (simp add: resolve_loop.simps [of rest] components.simps [of rest])
  next
    case dot
    then show ?thesis
      using less by (simp add: resolve_loop.simps [of rest] components.simps [of rest]
          path_step_def proper_component_def)
  next
    case up
    then show ?thesis
      using less by (simp add: resolve_loop.simps [of rest] components.simps [of rest]
          path_step_def proper_component_def pop_component_render_abs Let_def)
  next
    case proper
    then have ne: "?c \<noteq> []" "?c \<noteq> ''.''" "?c \<noteq> ''..''" by (auto simp: proper_component_def)
    have st': "proper_stack (st @ [?c])" using less.prems proper by simp
    have IH: "resolve_loop ?r (render_abs (st @ [?c])) =
        (if path_fits (st @ [?c]) (components ?r)
         then Inr (render_abs (normalize (st @ [?c]) (components ?r)))
         else Inl FACET_INVALID_ARGUMENT)"
      using less.hyps [OF _ st'] proper by simp
    have step: "resolve_loop rest (render_abs st) =
        (if length (render_abs (st @ [?c])) \<le> FACET_PATH_MAX
         then resolve_loop ?r (render_abs (st @ [?c])) else Inl FACET_INVALID_ARGUMENT)"
      unfolding resolve_loop.simps [of rest] Let_def
      using proper(1) ne component_fits_iff [OF less.prems ne(1)]
        append_component_render_abs [OF less.prems, of ?c] by simp
    show ?thesis
      using step IH proper ne by (simp add: components.simps [of rest] path_step_def)
  qed
qed

lemma path_fits_length:
  assumes "proper_stack st" and "length (render_abs st) \<le> FACET_PATH_MAX"
    and "\<And>c. c \<in> set cs \<Longrightarrow> c \<noteq> [] \<and> CHR ''/'' \<notin> set c" and "path_fits st cs"
  shows "length (render_abs (normalize st cs)) \<le> FACET_PATH_MAX"
  using assms
proof (induction cs arbitrary: st)
  case (Cons c cs)
  have len: "length (render_abs (butlast st)) \<le> length (render_abs st)"
    by (cases st rule: rev_cases) (auto simp: render_abs_snoc)
  have "proper_component c \<or> c = ''.'' \<or> c = ''..''"
    using Cons.prems(3) by (auto simp: proper_component_def)
  then have "length (render_abs (path_step st c)) \<le> FACET_PATH_MAX"
    using Cons.prems(2,4) len by (auto simp: path_step_def proper_component_def)
  moreover have "proper_stack (path_step st c)"
    using Cons.prems(1,3) by (simp add: path_step_proper)
  ultimately show ?case
    using Cons.IH Cons.prems(3,4) by simp
qed simp

definition resolve_base :: "string list \<Rightarrow> string \<Rightarrow> string list" where
  "resolve_base bs path = (if hd path = CHR ''/'' then [] else bs)"

lemma resolve_path_unfold:
  assumes "proper_stack bs" and "length (render_abs bs) \<le> FACET_PATH_MAX"
    and "path \<noteq> []" and "length path \<le> FACET_PATH_MAX" and "NUL \<notin> set path"
  shows "resolve_path True (render_abs bs) path =
    (if path_fits (resolve_base bs path) (components path)
     then Inr (render_abs (normalize (resolve_base bs path) (components path)),
               path_requires_directory path)
     else Inl FACET_INVALID_ARGUMENT)"
proof -
  have "resolve_loop path (if hd path = CHR ''/'' then ''/'' else render_abs bs) =
      resolve_loop path (render_abs (resolve_base bs path))"
    by (simp add: resolve_base_def)
  moreover have "proper_stack (resolve_base bs path)"
    using assms(1) by (simp add: resolve_base_def)
  ultimately show ?thesis
    using assms by (simp add: resolve_path_def resolve_loop_normalize)
qed

lemma resolve_path_SomeD:
  assumes "resolve_path mem base path = Inr (p, r)" and "canonical_path_str base"
  obtains bs where "base = render_abs bs" "proper_stack bs"
    "p = render_abs (normalize (resolve_base bs path) (components path))"
    "proper_stack (normalize (resolve_base bs path) (components path))"
    "length p \<le> FACET_PATH_MAX" "path \<noteq> []" "r = path_requires_directory path"
proof -
  from assms(2) obtain bs where bs: "base = render_abs bs" "proper_stack bs"
    by (auto simp: canonical_path_str_def)
  have mem: "mem" "path \<noteq> []" "length path \<le> FACET_PATH_MAX" "NUL \<notin> set path"
    using assms(1) by (auto simp: resolve_path_def split: if_splits)
  let ?b = "resolve_base bs path"
  have b: "proper_stack ?b" using bs by (simp add: resolve_base_def)
  have out: "resolve_loop path (render_abs ?b) = Inr p" and r: "r = path_requires_directory path"
    using assms(1) bs(1) by (auto simp: resolve_path_def resolve_base_def error_monad split: if_splits)
  then have fits: "path_fits ?b (components path)"
    and p: "p = render_abs (normalize ?b (components path))"
    using resolve_loop_normalize [OF b] by (auto split: if_splits)
  have "length (render_abs ?b) \<le> FACET_PATH_MAX"
    using assms(1) bs(1) by (auto simp: resolve_path_def resolve_base_def split: if_splits)
  then have "length p \<le> FACET_PATH_MAX"
    using path_fits_length [OF b _ components_nonempty fits] p by simp
  with that bs b mem(2) p r show thesis
    by (simp add: normalize_components_proper)
qed

section \<open>Well-formed file systems\<close>

definition entry_wf :: "string \<Rightarrow> InitrdEntry \<Rightarrow> bool" where
  "entry_wf img e \<longleftrightarrow>
     ie_data e + ie_size e \<le> length img \<and>
     ie_path e \<noteq> [] \<and> hd (ie_path e) = CHR ''/'' \<and> NUL \<notin> set (ie_path e) \<and>
     ''..'' \<notin> set (components (ie_path e)) \<and>
     (ie_directory e \<longleftrightarrow> ie_mode e AND 0xF000 = 0x4000) \<and>
     (\<not> ie_directory e \<longrightarrow> ie_mode e AND 0xF000 = 0x8000)"

definition initrd_wf :: "FacetInitrd \<Rightarrow> bool" where
  "initrd_wf ini \<longleftrightarrow>
     in_entries ini \<noteq> [] \<and>
     ie_path (hd (in_entries ini)) = ''/'' \<and> ie_directory (hd (in_entries ini)) \<and>
     distinct (map ie_path (in_entries ini)) \<and>
     length (in_entries ini) \<le> CPIO_MAX_ENTRIES \<and>
     (\<forall>e \<in> set (in_entries ini). entry_wf (in_data ini) e)"

lemma dotdot_component_split:
  "''..'' \<in> set (components s) \<Longrightarrow>
   \<exists>xs ys. s = xs @ ''..'' @ ys \<and> (xs = [] \<or> last xs = CHR ''/'') \<and>
           (ys = [] \<or> hd ys = CHR ''/'')"
proof (induction "length s" arbitrary: s rule: less_induct)
  case less
  then have ne: "s \<noteq> []" by auto
  let ?sl = "takeWhile ((=) CHR ''/'') s" and ?c = "head_component s" and ?r = "after_component s"
  have split: "s = ?sl @ ?c @ ?r"
    by (simp add: head_component_def after_component_def skip_slashes_def)
  have sl: "?sl = [] \<or> last ?sl = CHR ''/''"
    using set_takeWhileD [OF last_in_set] by fastforce
  have r: "?r = [] \<or> hd ?r = CHR ''/''"
    using hd_dropWhile [of "(\<noteq>) CHR ''/''" "skip_slashes s"] by (auto simp: after_component_def)
  show ?case
  proof (cases "?c = ''..''")
    case True
    have "s = ?sl @ ''..'' @ ?r" using split by (simp only: True)
    with sl r show ?thesis by blast
  next
    case False
    then have "''..'' \<in> set (components ?r)"
      using less.prems ne by (auto simp: components.simps [of s] split: if_splits)
    then obtain xs ys where xy: "?r = xs @ ''..'' @ ys"
      "xs = [] \<or> last xs = CHR ''/''" "ys = [] \<or> hd ys = CHR ''/''"
      using less.hyps [OF length_after_component [OF ne]] by blast
    have "xs \<noteq> []" using xy(1) r by auto
    then have "last (?sl @ ?c @ xs) = CHR ''/''" using xy(2) by auto
    moreover have "s = (?sl @ ?c @ xs) @ ''..'' @ ys" using split xy(1) by simp
    ultimately show ?thesis using xy(3) by blast
  qed
qed

lemma dotdot_bad_name_byte:
  assumes "''..'' \<in> set (components name)"
  shows "list_ex (bad_name_byte name) [0..<length name]"
proof -
  obtain xs ys where xy: "name = xs @ ''..'' @ ys" "xs = [] \<or> last xs = CHR ''/''"
    "ys = [] \<or> hd ys = CHR ''/''"
    using dotdot_component_split [OF assms] by blast
  have "xs \<noteq> [] \<Longrightarrow> name ! (length xs - 1) = CHR ''/''"
    using xy by (cases xs rule: rev_cases) (auto simp: nth_append)
  moreover have "ys \<noteq> [] \<Longrightarrow> name ! (length xs + 2) = CHR ''/''"
    using xy by (cases ys) (auto simp: nth_append)
  ultimately have "bad_name_byte name (length xs)"
    using xy(1) by (cases "xs = []"; cases "ys = []") (simp_all add: bad_name_byte_def nth_append)
  moreover have "length xs < length name" using xy by simp
  ultimately show ?thesis by (auto simp: list_ex_iff)
qed

lemma canonical_path_SomeD:
  assumes "canonical_path h raw = Some (p, h')"
  shows "p \<noteq> [] \<and> hd p = CHR ''/'' \<and> p \<noteq> ''/'' \<and> NUL \<notin> set p \<and> ''..'' \<notin> set (components p) \<and> h = Suc h'"
proof -
  let ?name = "skip_slashes (strip_dot_slash raw)"
  have p: "p = CHR ''/'' # ?name" "?name \<noteq> []" "h = Suc h'"
    and ok: "\<not> list_ex (bad_name_byte ?name) [0..<length ?name]"
    using assms by (auto simp: canonical_path_def Let_def split: if_splits)
  have "NUL \<notin> set ?name"
    using ok by (auto simp: list_ex_iff bad_name_byte_def in_set_conv_nth)
  moreover have "''..'' \<notin> set (components ?name)"
    using ok dotdot_bad_name_byte by blast
  ultimately show ?thesis using p by simp
qed

lemma cpio_step_EntryD:
  assumes "cpio_step h img es off = CpioEntry e n h'"
  shows "entry_wf img e \<and> ie_path e \<notin> ie_path ` set es \<and> length es \<noteq> CPIO_MAX_ENTRIES"
proof -
  obtain mode uid gid fs ns where mem: "cpio_member h img es off mode uid gid fs ns = CpioEntry e n h'"
    using assms by (auto simp: cpio_step_def Let_def split: if_splits option.splits)
  then obtain path h1 where path: "canonical_path h (take (ns - 1) (drop (off + CPIO_HEADER_SIZE) img)) = Some (path, h1)"
    and e: "e = new_entry path (align4 (off + CPIO_HEADER_SIZE + ns)) fs
                  ((of_nat mode :: u32) AND 0xF000 = 0x4000) mode uid gid"
    and kind: "(of_nat mode :: u32) AND 0xF000 = 0x8000 \<or> (of_nat mode :: u32) AND 0xF000 = 0x4000"
    and fits: "align4 (off + CPIO_HEADER_SIZE + ns) \<le> length img"
      "fs \<le> length img - align4 (off + CPIO_HEADER_SIZE + ns)"
    and fresh: "\<not> list_ex (\<lambda>e. ie_path e = path) es"
    and room: "length es \<noteq> CPIO_MAX_ENTRIES"
    by (auto simp: cpio_member_def Let_def split: if_splits option.splits)
  have "entry_wf img e"
    using canonical_path_SomeD [OF path] kind fits e by (auto simp: entry_wf_def new_entry_def)
  moreover have "ie_path e \<notin> ie_path ` set es"
    using fresh e by (auto simp: list_ex_iff new_entry_def)
  ultimately show ?thesis using room by simp
qed

lemma initrd_wf_snoc:
  assumes "initrd_wf \<lparr>in_data = img, in_entries = es, in_store_handle = hdl\<rparr>"
    and "entry_wf img e" and "ie_path e \<notin> ie_path ` set es" and "length es \<noteq> CPIO_MAX_ENTRIES"
  shows "initrd_wf \<lparr>in_data = img, in_entries = es @ [e], in_store_handle = hdl\<rparr>"
  using assms by (auto simp: initrd_wf_def)

lemma cpio_loop_wf:
  assumes "cpio_loop h img off es = Some es'"
    and "initrd_wf \<lparr>in_data = img, in_entries = es, in_store_handle = hdl\<rparr>"
  shows "initrd_wf \<lparr>in_data = img, in_entries = es', in_store_handle = hdl\<rparr>"
  using assms
proof (induction h img off es rule: cpio_loop.induct)
  case (1 h img off es)
  note eq = "1.prems"(1) [unfolded cpio_loop.simps [of h img off es]]
  show ?case
  proof (cases "off + CPIO_HEADER_SIZE \<le> length img")
    case True
    show ?thesis
    proof (cases "cpio_step h img es off")
      case (CpioSkip n)
      then show ?thesis using eq True "1.IH"(1) "1.prems"(2) by simp
    next
      case (CpioEntry e n h')
      then have "initrd_wf \<lparr>in_data = img, in_entries = es @ [e], in_store_handle = hdl\<rparr>"
        using cpio_step_EntryD [OF CpioEntry] "1.prems"(2) by (simp add: initrd_wf_snoc)
      then show ?thesis using eq True CpioEntry "1.IH"(2) by simp
    qed (use eq True "1.prems"(2) in simp_all)
  next
    case False
    then show ?thesis using eq "1.prems"(2) by simp
  qed
qed

lemma components_root [simp]: "components ''/'' = []"
  by simp

lemma facet_initrd_create_SomeD:
  assumes "facet_initrd_create h img = Some ini"
  shows "initrd_wf ini \<and> in_data ini = img"
proof -
  have "initrd_wf \<lparr>in_data = img, in_entries = [root_entry], in_store_handle = None\<rparr>"
    by (simp add: initrd_wf_def entry_wf_def root_entry_def new_entry_def)
  then show ?thesis
    using assms cpio_loop_wf by (auto simp: facet_initrd_create_def split: if_splits)
qed

section \<open>Lookup\<close>

lemma find_entry_SomeD:
  "find_entry ini p d = Some i \<Longrightarrow>
     i < length (in_entries ini) \<and> ie_path (in_entries ini ! i) = p \<and>
     ie_directory (in_entries ini ! i) = d"
  by (auto simp: find_entry_def dest: first_index_SomeD split: if_splits)

lemma find_entry_Some_iff:
  assumes "initrd_wf ini"
  shows "find_entry ini p d = Some i \<longleftrightarrow>
    i < length (in_entries ini) \<and> ie_path (in_entries ini ! i) = p \<and>
    ie_directory (in_entries ini ! i) = d"
proof
  assume rhs: "i < length (in_entries ini) \<and> ie_path (in_entries ini ! i) = p \<and>
    ie_directory (in_entries ini ! i) = d"
  then have "p \<noteq> []" "hd p = CHR ''/''"
    using assms by (auto simp: initrd_wf_def entry_wf_def)
  moreover have "i' = j" if "i' < length (in_entries ini)" "j < length (in_entries ini)"
    "ie_path (in_entries ini ! i') = p" "ie_path (in_entries ini ! j) = p" for i' j
    using that assms by (auto simp: initrd_wf_def distinct_conv_nth)
  then have "first_index (\<lambda>e. ie_directory e = d \<and> ie_path e = p) (in_entries ini) = Some i"
    using rhs by (subst first_index_Some_iff) auto
  ultimately show "find_entry ini p d = Some i"
    by (simp add: find_entry_def)
qed (rule find_entry_SomeD)

lemma find_entry_None_iff:
  assumes "initrd_wf ini"
  shows "find_entry ini p d = None \<longleftrightarrow>
    (\<forall>e \<in> set (in_entries ini). \<not> (ie_path e = p \<and> ie_directory e = d))"
proof (cases "find_entry ini p d")
  case None
  then show ?thesis
    using find_entry_Some_iff [OF assms, of p d] by (auto simp: in_set_conv_nth)
next
  case (Some i)
  then show ?thesis by (auto dest!: find_entry_SomeD)
qed

lemma find_entry_root:
  assumes "initrd_wf ini"
  shows "find_entry ini ''/'' True = Some 0"
  using assms find_entry_Some_iff [OF assms, of "''/''" True 0]
  by (cases "in_entries ini") (simp_all add: initrd_wf_def)

section \<open>Listing\<close>

definition entry_type :: "InitrdEntry \<Rightarrow> EntryType" where
  "entry_type e = (if ie_directory e then EntryType_Directory else EntryType_File)"

text \<open>The contents of a directory, in archive order: the abstract view a listing refines.\<close>

fun children_of :: "string \<Rightarrow> InitrdEntry list \<Rightarrow> (string \<times> EntryType) list" where
  "children_of dir [] = []"
| "children_of dir (e # es) =
     (case immediate_child dir (ie_path e) of
        None \<Rightarrow> children_of dir es
      | Some name \<Rightarrow> (name, entry_type e) # children_of dir es)"

lemma length_children_of: "length (children_of dir es) \<le> length es"
  by (induction es) (auto split: option.splits)

lemma list_loop_children:
  "length acc \<le> maximum \<Longrightarrow>
   list_loop dir cursor maximum es seen acc =
     (acc @ take (maximum - length acc) (drop (cursor - seen) (children_of dir es)),
      length acc + length (drop (cursor - seen) (children_of dir es)) \<le> maximum)"
proof (induction es arbitrary: seen acc)
  case Nil
  then show ?case by simp
next
  case (Cons e es)
  show ?case
  proof (cases "immediate_child dir (ie_path e)")
    case None
    then show ?thesis using Cons by simp
  next
    case (Some name)
    consider (skip) "seen < cursor" | (full) "\<not> seen < cursor" "length acc = maximum"
      | (add) "\<not> seen < cursor" "length acc < maximum"
      using Cons.prems by linarith
    then show ?thesis
    proof cases
      case skip
      then have "cursor - seen = Suc (cursor - (seen + 1))" by simp
      then show ?thesis using Cons Some skip by simp
    next
      case full
      then show ?thesis using Some by simp
    next
      case add
      then have "maximum - length acc = Suc (maximum - (length acc + 1))" by simp
      then show ?thesis using Cons Some add by (auto simp: entry_type_def)
    qed
  qed
qed

lemma directory_list_children:
  assumes "cursor \<le> length (children_of (ie_path d) (in_entries ini))"
  shows "directory_list True ini d cursor maximum =
    Inr (take maximum (drop cursor (children_of (ie_path d) (in_entries ini))),
         cursor + min maximum (length (children_of (ie_path d) (in_entries ini)) - cursor),
         length (children_of (ie_path d) (in_entries ini)) \<le> cursor + maximum)"
proof -
  have "cursor \<le> length (in_entries ini)"
    using assms length_children_of [of "ie_path d" "in_entries ini"] by linarith
  then show ?thesis
    using assms by (auto simp: directory_list_def list_loop_children min.commute)
qed

text \<open>
  The client of a listing: the page loop of ls
  (src/apps/native/facet_ls.c, list_one), which asks for eight entries at a time
  until the server reports the end or stops advancing.  \<open>lst\<close> is the list
  method of the directory it was given.
\<close>

fun list_one_pages ::
  "nat \<Rightarrow> (nat \<Rightarrow> nat \<Rightarrow> ('e list \<times> nat \<times> bool) facet) \<Rightarrow> nat \<Rightarrow> 'e list facet option" where
  "list_one_pages 0 lst cursor = None"
| "list_one_pages (Suc fuel) lst cursor =
     (case lst cursor 8 of
        Inl r \<Rightarrow> Some (Inl r)
      | Inr (entries, next, end) \<Rightarrow>
          if next = cursor \<and> \<not> end then Some (Inr entries)
          else if end then Some (Inr entries)
          else map_option (\<lambda>r. bindE r (\<lambda>rest. Inr (entries @ rest)))
                 (list_one_pages fuel lst next))"

text \<open>The contract of IDirectory.list that the page loop relies on.\<close>

locale paged_listing =
  fixes lst :: "nat \<Rightarrow> nat \<Rightarrow> ('e list \<times> nat \<times> bool) facet"
    and contents :: "'e list"
  assumes lst_page: "cursor \<le> length contents \<Longrightarrow>
    lst cursor maximum =
      Inr (take maximum (drop cursor contents),
           cursor + min maximum (length contents - cursor),
           length contents \<le> cursor + maximum)"
begin

lemma pages_from:
  "cursor \<le> length contents \<Longrightarrow> length contents - cursor < fuel \<Longrightarrow>
   list_one_pages fuel lst cursor = Some (Inr (drop cursor contents))"
proof (induction fuel arbitrary: cursor)
  case (Suc fuel)
  show ?case
  proof (cases "length contents \<le> cursor + 8")
    case True
    then show ?thesis using Suc.prems by (simp add: lst_page)
  next
    case False
    then have "list_one_pages fuel lst (cursor + 8) = Some (Inr (drop (cursor + 8) contents))"
      using Suc by simp
    moreover have "take 8 (drop cursor contents) @ drop (cursor + 8) contents = drop cursor contents"
      by (metis add.commute append_take_drop_id drop_drop)
    ultimately show ?thesis
      using False Suc.prems by (simp add: lst_page)
  qed
qed simp

lemma pages_complete:
  "length contents < fuel \<Longrightarrow> list_one_pages fuel lst 0 = Some (Inr contents)"
  using pages_from [of 0 fuel] by simp

end

interpretation initrd_listing: paged_listing
  "directory_list True ini d" "children_of (ie_path d) (in_entries ini)" for ini d
  by unfold_locales (rule directory_list_children)

section \<open>The execute check\<close>

definition dir_searchable :: "FacetInitrd \<Rightarrow> string \<Rightarrow> u32 \<Rightarrow> u32 \<Rightarrow> bool \<Rightarrow> bool" where
  "dir_searchable ini p uid gid admin \<longleftrightarrow>
     (\<exists>e \<in> set (in_entries ini). ie_path e = p \<and> ie_directory e \<and> entry_allows e uid gid admin 1)"

lemma find_dir_allows:
  assumes "initrd_wf ini"
  shows "(case find_entry ini p d of None \<Rightarrow> False
          | Some i \<Rightarrow> entry_allows (in_entries ini ! i) uid gid admin r) \<longleftrightarrow>
         (\<exists>e \<in> set (in_entries ini). ie_path e = p \<and> ie_directory e = d \<and> entry_allows e uid gid admin r)"
proof (cases "find_entry ini p d")
  case None
  then show ?thesis using find_entry_None_iff [OF assms, of p d] by fastforce
next
  case (Some i)
  then have i: "i < length (in_entries ini)" "ie_path (in_entries ini ! i) = p"
    "ie_directory (in_entries ini ! i) = d"
    by (auto dest: find_entry_SomeD)
  have "e = in_entries ini ! i" if "e \<in> set (in_entries ini)" "ie_path e = p" for e
    using that i assms by (auto simp: initrd_wf_def in_set_conv_nth distinct_conv_nth)
  then show ?thesis using Some i by (auto intro: nth_mem)
qed

lemma component_end_render:
  assumes "proper_stack (pre @ c # post)"
    and "i = (if pre = [] then 1 else length (render_abs pre))"
  shows "component_end (render_abs (pre @ c # post)) i = length (render_abs (pre @ [c]))"
proof -
  have c: "c \<noteq> []" "CHR ''/'' \<notin> set c" using assms(1) by (auto simp: proper_component_def)
  have tw: "takeWhile ((\<noteq>) CHR ''/'') (c @ (if post = [] then [] else render_abs post)) = c"
    using c by (cases post) (auto simp: takeWhile_neq_id takeWhile_neq_append render_abs_Cons)
  have nt: "takeWhile ((=) CHR ''/'') (c @ s) = []" for s
    using c by (cases c) auto
  have split: "render_abs (pre @ c # post) =
      (if pre = [] then [] else render_abs pre) @ CHR ''/'' # c @ (if post = [] then [] else render_abs post)"
    by (simp add: render_abs_def)
  show ?thesis
  proof (cases "pre = []")
    case True
    then show ?thesis
      using assms(2) tw nt by (simp add: component_end_def split render_abs_Cons)
  next
    case False
    then show ?thesis
      using assms(2) tw nt by (simp add: component_end_def split render_abs_snoc)
  qed
qed

lemma take_render_prefix:
  "take (length (render_abs (pre @ [c]))) (render_abs (pre @ c # post)) = render_abs (pre @ [c])"
  by (simp add: render_abs_def)

lemma length_render_prefix_less:
  "post \<noteq> [] \<Longrightarrow> length (render_abs (pre @ [c])) < length (render_abs (pre @ c # post))"
  by (cases post) (simp_all add: render_abs_def)

lemma search_prefixes_ok_iff:
  assumes "initrd_wf ini" and "proper_stack (pre @ post)" and "post \<noteq> []"
    and "i = (if pre = [] then 1 else length (render_abs pre))"
  shows "search_prefixes ini (render_abs (pre @ post)) uid gid admin i = Inr () \<longleftrightarrow>
    (\<forall>k. 0 < k \<and> k < length post \<longrightarrow>
       dir_searchable ini (render_abs (pre @ take k post)) uid gid admin)"
  using assms(2-)
proof (induction post arbitrary: pre i)
  case (Cons c post)
  let ?path = "render_abs (pre @ c # post)" and ?e = "length (render_abs (pre @ [c]))"
  have ce: "component_end ?path i = ?e"
    using component_end_render Cons.prems(1,3) by blast
  have il: "i < length ?path"
  proof -
    have "length (render_abs pre) < length ?path" if "pre \<noteq> []"
      using that Cons.prems(1) by (simp add: render_abs_def)
    moreover have "1 < length ?path"
      using Cons.prems(1) by (auto simp: render_abs_def proper_component_def)
    ultimately show ?thesis using Cons.prems(3) by (cases "pre = []") auto
  qed
  show ?case
  proof (cases "post = []")
    case True
    then show ?thesis
      using il ce by (subst search_prefixes.simps) simp
  next
    case False
    then have ne: "?e \<noteq> length ?path" using length_render_prefix_less [of post pre c] by simp
    have IH: "search_prefixes ini (render_abs ((pre @ [c]) @ post)) uid gid admin ?e = Inr () \<longleftrightarrow>
        (\<forall>k. 0 < k \<and> k < length post \<longrightarrow>
           dir_searchable ini (render_abs ((pre @ [c]) @ take k post)) uid gid admin)"
      using Cons.IH [of "pre @ [c]" ?e] Cons.prems(1) False by simp
    have unf: "search_prefixes ini ?path uid gid admin i = Inr () \<longleftrightarrow>
        (case find_entry ini (render_abs (pre @ [c])) True of None \<Rightarrow> False
         | Some k \<Rightarrow> entry_allows (in_entries ini ! k) uid gid admin 1) \<and>
        search_prefixes ini ?path uid gid admin ?e = Inr ()"
      using il ce ne by (subst search_prefixes.simps)
        (simp add: take_render_prefix split: option.splits)
    have head: "(case find_entry ini (render_abs (pre @ [c])) True of None \<Rightarrow> False
         | Some k \<Rightarrow> entry_allows (in_entries ini ! k) uid gid admin 1) \<longleftrightarrow>
        dir_searchable ini (render_abs (pre @ [c])) uid gid admin"
      using find_dir_allows [OF assms(1)] by (simp add: dir_searchable_def)
    have "(\<forall>k. 0 < k \<and> k < length (c # post) \<longrightarrow>
             dir_searchable ini (render_abs (pre @ take k (c # post))) uid gid admin) \<longleftrightarrow>
          dir_searchable ini (render_abs (pre @ [c])) uid gid admin \<and>
          (\<forall>k. 0 < k \<and> k < length post \<longrightarrow>
             dir_searchable ini (render_abs (pre @ c # take k post)) uid gid admin)"
      (is "?L = ?R")
    proof
      assume L: ?L
      show ?R
        using L [rule_format, of 1] L [rule_format, of "Suc _"] False by simp
    next
      assume R: ?R
      show ?L
      proof (intro allI impI)
        fix k assume k: "0 < k \<and> k < length (c # post)"
        then obtain j where "k = Suc j" by (cases k) auto
        with R k show "dir_searchable ini (render_abs (pre @ take k (c # post))) uid gid admin"
          by (cases j) auto
      qed
    qed
    with unf head IH show ?thesis by simp
  qed
qed simp

lemma check_execute_ok_iff:
  assumes "initrd_wf ini" and "proper_stack st" and "st \<noteq> []"
    and "length (render_abs st) \<le> FACET_PATH_MAX"
  shows "facet_initrd_check_execute True ini (render_abs st) uid gid admin = Inr () \<longleftrightarrow>
    (\<forall>k < length st. dir_searchable ini (render_abs (take k st)) uid gid admin) \<and>
    (\<exists>e \<in> set (in_entries ini). ie_path e = render_abs st \<and> \<not> ie_directory e \<and>
       entry_allows e uid gid admin 1)"
proof -
  let ?p = "render_abs st"
  have root: "(case find_entry ini ''/'' True of None \<Rightarrow> False
        | Some i \<Rightarrow> entry_allows (in_entries ini ! i) uid gid admin 1) \<longleftrightarrow>
      dir_searchable ini ''/'' uid gid admin"
    using find_dir_allows [OF assms(1)] by (simp add: dir_searchable_def)
  have fil: "(case find_entry ini ?p False of None \<Rightarrow> False
        | Some i \<Rightarrow> entry_allows (in_entries ini ! i) uid gid admin 1) \<longleftrightarrow>
      (\<exists>e \<in> set (in_entries ini). ie_path e = ?p \<and> \<not> ie_directory e \<and> entry_allows e uid gid admin 1)"
    using find_dir_allows [OF assms(1), where p = ?p and d = False] by simp
  have loop: "search_prefixes ini ?p uid gid admin 1 = Inr () \<longleftrightarrow>
      (\<forall>k. 0 < k \<and> k < length st \<longrightarrow> dir_searchable ini (render_abs (take k st)) uid gid admin)"
    using search_prefixes_ok_iff [OF assms(1), of "[]" st 1] assms(2,3) by simp
  have all: "(\<forall>k < length st. dir_searchable ini (render_abs (take k st)) uid gid admin) \<longleftrightarrow>
      dir_searchable ini ''/'' uid gid admin \<and>
      (\<forall>k. 0 < k \<and> k < length st \<longrightarrow> dir_searchable ini (render_abs (take k st)) uid gid admin)"
    using assms(3) by (metis length_greater_0_conv neq0_conv render_abs_Nil take_0)
  have "facet_initrd_check_execute True ini ?p uid gid admin = Inr () \<longleftrightarrow>
      (case find_entry ini ''/'' True of None \<Rightarrow> False
        | Some i \<Rightarrow> entry_allows (in_entries ini ! i) uid gid admin 1) \<and>
      search_prefixes ini ?p uid gid admin 1 = Inr () \<and>
      (case find_entry ini ?p False of None \<Rightarrow> False
        | Some i \<Rightarrow> entry_allows (in_entries ini ! i) uid gid admin 1)"
    using assms(4) by (auto simp: facet_initrd_check_execute_def error_monad split: option.splits)
  then show ?thesis using root fil loop all by simp
qed

section \<open>Handles never disturb the tree\<close>

text \<open>
  The operations a client can invoke on the exported store, its directories
  and its files; each is one transition of the server.
\<close>

inductive initrd_step :: "FacetInitrd \<Rightarrow> FacetInitrd \<Rightarrow> bool" where
  is_export: "initrd_step ini (snd (facet_initrd_export expo ini))"
| is_open_file: "initrd_step ini (snd (store_open_file mem expo ini path))"
| is_open_directory: "initrd_step ini (snd (store_open_directory mem expo ini path))"
| is_dir_open_file: "initrd_step ini (snd (directory_open_file mem mem' expo ini d path))"
| is_dir_open_directory: "initrd_step ini (snd (directory_open_directory mem mem' expo ini d path))"
| is_metadata: "initrd_step ini (snd (facet_initrd_node_metadata_handle expo ini i))"
| is_file_interface: "initrd_step ini (snd (file_get_interface I expo ini i iid))"
| is_directory_interface: "initrd_step ini (snd (directory_get_interface I expo ini i iid))"
| is_write: "initrd_step ini (snd (file_write_at ini e offset bytes))"

inductive_cases initrd_stepE: "initrd_step ini ini'"

definition entry_core :: "InitrdEntry \<Rightarrow> string \<times> nat \<times> nat \<times> bool \<times> u32 \<times> u32 \<times> u32" where
  "entry_core e = (ie_path e, ie_data e, ie_size e, ie_directory e, ie_mode e, ie_uid e, ie_gid e)"

definition tree_of :: "FacetInitrd \<Rightarrow> string \<times> (string \<times> nat \<times> nat \<times> bool \<times> u32 \<times> u32 \<times> u32) list" where
  "tree_of ini = (in_data ini, map entry_core (in_entries ini))"

lemma entry_wf_core: "entry_core e = entry_core e' \<Longrightarrow> entry_wf img e = entry_wf img e'"
  by (simp add: entry_core_def entry_wf_def)

lemma initrd_wf_tree_of:
  assumes "tree_of ini = tree_of ini'"
  shows "initrd_wf ini = initrd_wf ini'"
proof -
  let ?xs = "in_entries ini" and ?ys = "in_entries ini'"
  have core: "map entry_core ?xs = map entry_core ?ys" and data: "in_data ini = in_data ini'"
    using assms by (auto simp: tree_of_def)
  then have all2: "list_all2 (\<lambda>x y. entry_core x = entry_core y) ?xs ?ys"
    by (simp add: list_all2_conv_all_nth list_eq_iff_nth_eq)
  have len: "length ?xs = length ?ys" using all2 by (rule list_all2_lengthD)
  have "map ie_path ?xs = map ie_path ?ys"
    using all2 by (induction rule: list_all2_induct) (auto simp: entry_core_def)
  moreover have "(\<forall>e \<in> set ?xs. entry_wf (in_data ini) e) = (\<forall>e \<in> set ?ys. entry_wf (in_data ini) e)"
    using all2 by (induction rule: list_all2_induct) (auto dest: entry_wf_core)
  moreover have "(?xs \<noteq> [] \<and> ie_path (hd ?xs) = ''/'' \<and> ie_directory (hd ?xs)) =
      (?ys \<noteq> [] \<and> ie_path (hd ?ys) = ''/'' \<and> ie_directory (hd ?ys))"
    using all2 by (cases ?xs; cases ?ys) (auto simp: entry_core_def)
  ultimately show ?thesis using len data unfolding initrd_wf_def by (simp, blast)
qed

lemma tree_of_update_entry:
  assumes "\<And>e. entry_core (f e) = entry_core e"
  shows "tree_of (update_entry ini i f) = tree_of ini"
proof (cases "i < length (in_entries ini)")
  case True
  then show ?thesis
    using assms by (simp add: tree_of_def update_entry_def map_update list_update_same_conv)
next
  case False
  then show ?thesis by (simp add: update_entry_def list_update_beyond)
qed

lemma tree_of_open:
  "tree_of (snd (store_open_file mem expo ini path)) = tree_of ini"
  "tree_of (snd (store_open_directory mem expo ini path)) = tree_of ini"
  "tree_of (snd (ensure_metadata_exported expo ini i)) = tree_of ini"
  by (auto simp: store_open_file_def store_open_directory_def ensure_metadata_exported_def
      tree_of_update_entry entry_core_def split: sum.splits option.splits)

lemma tree_of_metadata_handle:
  "tree_of (snd (facet_initrd_node_metadata_handle expo ini i)) = tree_of ini"
  using tree_of_open(3) [of expo ini i]
  by (auto simp: facet_initrd_node_metadata_handle_def split: prod.splits sum.splits)

lemma tree_of_interface:
  "tree_of (snd (file_get_interface I expo ini i iid)) = tree_of ini"
  "tree_of (snd (directory_get_interface I expo ini i iid)) = tree_of ini"
  using tree_of_open(3) [of expo ini i]
  by (auto simp: file_get_interface_def directory_get_interface_def split: prod.splits sum.splits)

lemma tree_of_export: "tree_of (snd (facet_initrd_export expo ini)) = tree_of ini"
  by (auto simp: facet_initrd_export_def tree_of_def split: sum.splits)

lemma initrd_step_tree: "initrd_step ini ini' \<Longrightarrow> tree_of ini' = tree_of ini"
  by (induction rule: initrd_step.induct)
    (auto simp: tree_of_open tree_of_metadata_handle tree_of_interface tree_of_export directory_open_file_def
      directory_open_directory_def file_write_at_def split: sum.splits)

section \<open>Properties\<close>

definition sample_fs :: FacetInitrd where
  "sample_fs =
     \<lparr>in_data = ''ELF#!/bin/sh'',
      in_entries =
        [root_entry,
         new_entry ''/bin'' 0 0 True 0x41ED 0 0,
         new_entry ''/bin/sh'' 0 3 False 0x81ED 0 0,
         new_entry ''/bin/secret'' 3 9 False 0x81C0 1000 1000],
      in_store_handle = None\<rparr>"

lemma sample_fs_sel:
  "in_data sample_fs = ''ELF#!/bin/sh''"
  "in_entries sample_fs =
     [root_entry,
      new_entry ''/bin'' 0 0 True 0x41ED 0 0,
      new_entry ''/bin/sh'' 0 3 False 0x81ED 0 0,
      new_entry ''/bin/secret'' 3 9 False 0x81C0 1000 1000]"
  by (simp_all add: sample_fs_def)

lemma sample_components:
  "components ''bin'' = [''bin'']"
  "components ''bin/sh'' = [''bin'', ''sh'']"
  "components ''bin/secret'' = [''bin'', ''secret'']"
  by code_simp+

lemmas sample_simps =
  sample_fs_sel sample_components root_entry_def new_entry_def find_entry_def Let_def

lemma sample_fs_wf: "initrd_wf sample_fs"
  by (simp add: initrd_wf_def entry_wf_def sample_simps)

definition sample_image :: string where
  "sample_image =
     ''07070100000001000041ED0000000000000000000000010000000000000000000000000000000000000000000000000000000400000000bin'' @
     [NUL, NUL, NUL] @
     ''07070100000001000081ED0000000000000000000000010000000000000002000000000000000000000000000000000000000200000000a'' @
     [NUL] @
     ''hi'' @
     [NUL, NUL] @
     ''07070100000001000000000000000000000000000000010000000000000000000000000000000000000000000000000000000B00000000TRAILER!!!'' @
     [NUL, NUL, NUL, NUL]"

lemma sample_image_create:
  "facet_initrd_create 10 sample_image = Some
     \<lparr>in_data = sample_image,
      in_entries = [root_entry, new_entry ''/bin'' 116 0 True 0x41ED 0 0,
        new_entry ''/a'' 228 2 False 0x81ED 0 0],
      in_store_handle = None\<rparr>"
  by (simp add: facet_initrd_create_def sample_image_def cpio_loop.simps cpio_step_def magic_ok_def
      hex_field_def hex_digit_def Let_def cpio_member_def cstr_def canonical_path_def align4_def
      bad_name_byte_def root_entry_def new_entry_def)

text \<open>
  C1. The boot file system is sound and read-only.  Whatever bytes
  facet_initrd_create accepts, the entry table starts with the root directory,
  has pairwise distinct absolute paths without ".." components and without NUL
  bytes, has at most CPIO_MAX_ENTRIES entries, and every file extent lies inside
  the archive; and no sequence of client operations on the exported objects
  (opens, handle exports, writes) changes the archive or any entry but its handles.
\<close>

theorem initrd_invariant:
  assumes "facet_initrd_create h img = Some ini" and "initrd_step\<^sup>*\<^sup>* ini ini'"
  shows "initrd_wf ini' \<and> tree_of ini' = tree_of ini \<and> in_data ini' = img"
proof -
  have tree: "tree_of ini' = tree_of ini"
    using assms(2) by (induction rule: rtranclp_induct) (auto dest: initrd_step_tree)
  then have "initrd_wf ini' = initrd_wf ini" by (rule initrd_wf_tree_of)
  with tree facet_initrd_create_SomeD [OF assms(1)] show ?thesis by (simp add: tree_of_def)
qed

theorem initrd_invariant_witness:
  "\<exists>ini ini'. facet_initrd_create 10 sample_image = Some ini \<and>
     facet_initrd_export (Inr (Some 7)) ini = (Inr (Some 7), ini') \<and> ini' \<noteq> ini \<and>
     initrd_wf ini' \<and> tree_of ini' = tree_of ini \<and> length (in_entries ini') = 3"
proof -
  obtain ini where ini: "facet_initrd_create 10 sample_image = Some ini"
    "length (in_entries ini) = 3" "in_store_handle ini = None"
    using sample_image_create by simp
  let ?ini' = "snd (facet_initrd_export (Inr (Some 7)) ini)"
  have ex: "facet_initrd_export (Inr (Some 7)) ini = (Inr (Some 7), ini\<lparr>in_store_handle := Some 7\<rparr>)"
    using ini(3) by (simp add: facet_initrd_export_def return_handle_def)
  have "initrd_step\<^sup>*\<^sup>* ini ?ini'" by (rule r_into_rtranclp) (rule is_export)
  from initrd_invariant [OF ini(1) this]
  have "initrd_wf ?ini' \<and> tree_of ?ini' = tree_of ini" by simp
  moreover have "ini\<lparr>in_store_handle := Some 7\<rparr> \<noteq> ini"
    using ini(3) by (metis FacetInitrd.select_convs(3) FacetInitrd.surjective FacetInitrd.update_convs(3) option.distinct(1))
  ultimately show ?thesis using ini ex by simp
qed

text \<open>
  C3. Path resolution (resolve_path of initrd.c).  Resolving a caller path
  against a canonical base yields exactly the component normalisation: start
  from the root for an absolute path and from the base otherwise, drop empty and
  "." components, let ".." drop the last component and stop at the root.  The
  result is again canonical (no empty, "." or ".." component, no trailing slash)
  and fits in FACET_PATH_MAX bytes.
\<close>

theorem resolve_path_canonical:
  assumes "proper_stack bs" and "resolve_path mem (render_abs bs) path = Inr (p, r)"
  shows "p = render_abs (normalize (if hd path = CHR ''/'' then [] else bs) (components path)) \<and>
    canonical_path_str p \<and> length p \<le> FACET_PATH_MAX \<and> r = path_requires_directory path"
proof -
  have can: "canonical_path_str (render_abs bs)" using assms(1) by simp
  obtain bs' where eq: "render_abs bs = render_abs bs'" and bs': "proper_stack bs'"
    "p = render_abs (normalize (resolve_base bs' path) (components path))"
    "proper_stack (normalize (resolve_base bs' path) (components path))"
    "length p \<le> FACET_PATH_MAX" "r = path_requires_directory path"
    by (rule resolve_path_SomeD [OF assms(2) can])
  have "bs' = bs" using eq render_abs_inject [OF assms(1) bs'(1)] by simp
  with bs' show ?thesis by (auto simp: resolve_base_def)
qed

theorem resolve_path_canonical_witness:
  "proper_stack [''bin''] \<and>
   resolve_path True (render_abs [''bin'']) ''../etc//./passwd'' = Inr (''/etc/passwd'', False) \<and>
   canonical_path_str ''/etc/passwd''"
proof -
  have 1: "proper_stack [''bin'']" by (simp add: proper_component_def)
  have 2: "resolve_path True (render_abs [''bin'']) ''../etc//./passwd'' = Inr (''/etc/passwd'', False)"
    by code_simp
  show ?thesis using 1 2 resolve_path_canonical [OF 1 2] by blast
qed

text \<open>
  C5. Directory listing.  The page loop of ls (eight entries at a time, stop at
  the end flag) over the list method of an initrd directory terminates and
  returns every immediate child of the directory exactly once, in archive order,
  with its kind; and a single call with any cursor and page size returns the
  corresponding slice.
\<close>

theorem directory_list_complete:
  "length (in_entries ini) < fuel \<Longrightarrow>
   list_one_pages fuel (directory_list True ini d) 0 =
     Some (Inr (children_of (ie_path d) (in_entries ini)))"
  using initrd_listing.pages_complete length_children_of le_less_trans by blast

theorem directory_list_complete_witness:
  "length (in_entries sample_fs) < 5 \<and>
   list_one_pages 5 (directory_list True sample_fs (in_entries sample_fs ! 1)) 0 =
     Some (Inr [(''sh'', EntryType_File), (''secret'', EntryType_File)])"
proof -
  have 1: "length (in_entries sample_fs) < 5" by (simp add: sample_simps)
  have 2: "children_of (ie_path (in_entries sample_fs ! 1)) (in_entries sample_fs) =
      [(''sh'', EntryType_File), (''secret'', EntryType_File)]"
    by (simp add: sample_simps immediate_child_def entry_type_def)
  show ?thesis using 1 directory_list_complete [OF 1] 2 by simp
qed

text \<open>
  C4. The loader's execute check.  For a canonical path,
  facet_initrd_check_execute succeeds exactly when every directory above the
  file (the root included) exists and grants search permission to the caller and
  the path names a regular file that grants the caller execute permission.
\<close>

theorem check_execute_spec:
  assumes "initrd_wf ini" and "proper_stack st" and "st \<noteq> []"
    and "length (render_abs st) \<le> FACET_PATH_MAX"
  shows "facet_initrd_check_execute True ini (render_abs st) uid gid admin = Inr () \<longleftrightarrow>
    (\<forall>k < length st. \<exists>e \<in> set (in_entries ini).
       ie_path e = render_abs (take k st) \<and> ie_directory e \<and> entry_allows e uid gid admin 1) \<and>
    (\<exists>e \<in> set (in_entries ini). ie_path e = render_abs st \<and> \<not> ie_directory e \<and>
       entry_allows e uid gid admin 1)"
  using check_execute_ok_iff [OF assms] by (simp add: dir_searchable_def)

theorem check_execute_spec_witness:
  "facet_initrd_check_execute True sample_fs ''/bin/sh'' 1000 1000 False = Inr () \<and>
   facet_initrd_check_execute True sample_fs ''/bin/secret'' 1001 1001 False = Inl FACET_ACCESS_DENIED \<and>
   (\<exists>e \<in> set (in_entries sample_fs). ie_path e = ''/bin/sh'' \<and> \<not> ie_directory e \<and>
      entry_allows e 1000 1000 False 1)"
proof -
  have st: "proper_stack [''bin'', ''sh'']" by (simp add: proper_component_def)
  have r: "render_abs [''bin'', ''sh''] = ''/bin/sh''" by (simp add: render_abs_Cons)
  have ok: "facet_initrd_check_execute True sample_fs ''/bin/sh'' 1000 1000 False = Inr ()"
    and no: "facet_initrd_check_execute True sample_fs ''/bin/secret'' 1001 1001 False = Inl FACET_ACCESS_DENIED"
    by (simp_all add: facet_initrd_check_execute_def search_prefixes.simps component_end_def
        entry_allows_def error_monad sample_simps)
  show ?thesis
    using check_execute_spec [OF sample_fs_wf st, of 1000 1000 False] ok no r by simp
qed

lemma file_read_at_slice:
  assumes "ie_data e + ie_size e \<le> length (in_data ini)" and "offset \<le> ie_size e"
  shows "file_read_at ini e offset maximum =
    Inr (take maximum (drop offset (take (ie_size e) (drop (ie_data e) (in_data ini)))))"
proof -
  have "take (min (ie_size e - offset) maximum) (drop (ie_data e + offset) (in_data ini)) =
      take maximum (drop offset (take (ie_size e) (drop (ie_data e) (in_data ini))))"
    by (simp add: drop_take take_take add.commute min.commute)
  then show ?thesis using assms(2) by (auto simp: file_read_at_def Let_def min_def split: if_splits)
qed

lemma node_read_bytes:
  assumes "entry_wf (in_data ini) (in_entries ini ! i)" and "\<not> ie_directory (in_entries ini ! i)"
  shows "facet_initrd_node_read ini i offset maximum =
    (if offset \<le> ie_size (in_entries ini ! i)
     then Inr (take maximum (drop offset (take (ie_size (in_entries ini ! i)) (drop (ie_data (in_entries ini ! i)) (in_data ini)))))
     else Inl FACET_INVALID_ARGUMENT)"
  using assms file_read_at_slice [of "in_entries ini ! i" ini offset maximum]
  by (auto simp: facet_initrd_node_read_def entry_wf_def file_read_at_def)

text \<open>
  C6. Reads.  A read of a regular file at an offset inside it returns the next
  \<open>maximum\<close> bytes of the file as the loader sees it
  (facet_initrd_find_file), so the number of bytes is the smaller of the
  request and what is left, and the access never leaves the archive; an offset
  behind the end is refused.
\<close>

theorem node_read_spec:
  assumes "initrd_wf ini" and "find_entry ini path False = Some i" and "length path \<le> FACET_PATH_MAX"
  shows "\<exists>bytes. facet_initrd_find_file ini path = Inr bytes \<and>
    length bytes = ie_size (in_entries ini ! i) \<and>
    facet_initrd_node_read ini i offset maximum =
      (if offset \<le> length bytes then Inr (take maximum (drop offset bytes))
       else Inl FACET_INVALID_ARGUMENT)"
proof -
  let ?e = "in_entries ini ! i"
  let ?b = "take (ie_size ?e) (drop (ie_data ?e) (in_data ini))"
  have i: "i < length (in_entries ini)" "\<not> ie_directory ?e" "ie_path ?e = path"
    using find_entry_SomeD [OF assms(2)] by auto
  then have wf: "entry_wf (in_data ini) ?e" using assms(1) by (simp add: initrd_wf_def)
  then have len: "length ?b = ie_size ?e" by (auto simp: entry_wf_def)
  have "path \<noteq> []" "hd path = CHR ''/''" using wf i by (auto simp: entry_wf_def)
  then have "facet_initrd_find_file ini path = Inr ?b"
    using assms(2,3) by (simp add: facet_initrd_find_file_def Let_def)
  moreover have "facet_initrd_node_read ini i offset maximum =
      (if offset \<le> length ?b then Inr (take maximum (drop offset ?b)) else Inl FACET_INVALID_ARGUMENT)"
    unfolding len using wf i by (intro node_read_bytes)
  ultimately show ?thesis using len by blast
qed

theorem node_read_spec_witness:
  "find_entry sample_fs ''/bin/secret'' False = Some 3 \<and>
   facet_initrd_find_file sample_fs ''/bin/secret'' = Inr ''#!/bin/sh'' \<and>
   facet_initrd_node_read sample_fs 3 2 4 = Inr ''/bin''"
proof -
  have 1: "find_entry sample_fs ''/bin/secret'' False = Some 3"
    and 2: "facet_initrd_find_file sample_fs ''/bin/secret'' = Inr ''#!/bin/sh''"
    by (simp_all add: facet_initrd_find_file_def sample_simps)
  have "length ''/bin/secret'' \<le> FACET_PATH_MAX" by simp
  from node_read_spec [OF sample_fs_wf 1 this, of 2 4] 1 2 show ?thesis by simp
qed

end
