(* ===== verification/Archive.thy ===== *)
theory Archive
  imports Initrd
begin

text \<open>
  The archive writer of tools/facet-initrd (newc_header, archive_bytes) and the
  round trip through the boot-time reader: an archive the tool writes from entries
  within the reader's limits (archive_ok) is accepted by facet_initrd_create, and
  every file is read back byte for byte.
\<close>

section \<open>The writer\<close>

record ArchiveEntry =
  ae_name :: string
  ae_mode :: nat
  ae_uid :: nat
  ae_gid :: nat
  ae_bytes :: string

definition hex_char :: "nat \<Rightarrow> char" where
  "hex_char d = (if d < 10 then char_of (48 + d) else char_of (87 + d))"

fun hex_text :: "nat \<Rightarrow> string" where
  "hex_text v = (if v < 16 then [hex_char v] else hex_text (v div 16) @ [hex_char (v mod 16)])"

declare hex_text.simps [simp del]

definition hex08 :: "nat \<Rightarrow> string" where
  "hex08 v = replicate (8 - length (hex_text v)) CHR ''0'' @ hex_text v"

definition newc_header :: "nat \<Rightarrow> ArchiveEntry \<Rightarrow> string" where
  "newc_header ino e =
     ''070701'' @ concat (map hex08
       [ino, ae_mode e, ae_uid e, ae_gid e, 1, 0, length (ae_bytes e),
        0, 0, 0, 0, length (ae_name e) + 1, 0])"

definition pad4 :: "string \<Rightarrow> string" where
  "pad4 out = out @ replicate (align4 (length out) - length out) NUL"

definition append_record :: "nat \<Rightarrow> string \<Rightarrow> ArchiveEntry \<Rightarrow> string" where
  "append_record ino out e =
     pad4 (pad4 (out @ newc_header ino e @ ae_name e @ [NUL]) @ ae_bytes e)"

fun append_records :: "nat \<Rightarrow> string \<Rightarrow> ArchiveEntry list \<Rightarrow> string" where
  "append_records ino out [] = out"
| "append_records ino out (e # es) = append_records (ino + 1) (append_record ino out e) es"

definition trailer :: ArchiveEntry where
  "trailer = \<lparr>ae_name = ''TRAILER!!!'', ae_mode = 0, ae_uid = 0, ae_gid = 0, ae_bytes = []\<rparr>"

text \<open>\<open>ordered\<close> is the list of the entries, already sorted by name.\<close>

definition archive_bytes :: "ArchiveEntry list \<Rightarrow> string" where
  "archive_bytes ordered = append_records 1 [] (ordered @ [trailer])"

section \<open>Hexadecimal fields\<close>

lemma hex_digit_hex_char: "d < 16 \<Longrightarrow> hex_digit (hex_char d) = Some d"
  by (auto simp: hex_digit_def hex_char_def)

lemma hex_field_loop_append:
  "hex_field_loop (xs @ ys) v = Option.bind (hex_field_loop xs v) (hex_field_loop ys)"
  by (induction xs arbitrary: v) (auto split: option.splits)

lemma hex_field_loop_zeros: "hex_field_loop (replicate n CHR ''0'') 0 = Some 0"
proof (induction n)
  case (Suc n)
  have "hex_digit CHR ''0'' = Some 0" by (simp add: hex_digit_def)
  with Suc show ?case by simp
qed simp

lemma hex_field_loop_hex_text:
  "v < 2 ^ 32 \<Longrightarrow> hex_field_loop (hex_text v) 0 = Some v"
proof (induction v rule: hex_text.induct)
  case (1 v)
  show ?case
  proof (cases "v < 16")
    case True
    then show ?thesis by (simp add: hex_text.simps hex_digit_hex_char)
  next
    case False
    then have IH: "hex_field_loop (hex_text (v div 16)) 0 = Some (v div 16)"
      using 1 by (simp add: less_mult_imp_div_less)
    have "v div 16 \<le> (SIZE_MAX - v mod 16) div 16"
      using "1.prems" by (intro div_le_mono) auto
    then show ?thesis
      using False IH by (simp add: hex_text.simps [of v] hex_field_loop_append hex_digit_hex_char)
  qed
qed

lemma length_hex_text: "v < 16 ^ Suc n \<Longrightarrow> length (hex_text v) \<le> Suc n"
proof (induction n arbitrary: v)
  case 0
  then show ?case by (simp add: hex_text.simps)
next
  case (Suc n)
  then have "length (hex_text (v div 16)) \<le> Suc n"
    by (intro Suc.IH) (simp add: less_mult_imp_div_less)
  then show ?case by (subst hex_text.simps) simp
qed

lemma length_hex08: "v < 2 ^ 32 \<Longrightarrow> length (hex08 v) = 8"
  using length_hex_text [of v 7] by (simp add: hex08_def)

lemma hex_field_loop_hex08: "v < 2 ^ 32 \<Longrightarrow> hex_field_loop (hex08 v) 0 = Some v"
  by (simp add: hex08_def hex_field_loop_append hex_field_loop_zeros hex_field_loop_hex_text)

section \<open>Names\<close>

definition is_clean_name :: "string \<Rightarrow> bool" where
  "is_clean_name s \<longleftrightarrow> NUL \<notin> set s \<and> (\<exists>st. st \<noteq> [] \<and> proper_stack st \<and> s = render_rel st)"

lemma dotdot_at_component:
  assumes "xs = [] \<or> last xs = CHR ''/''" and "ys = [] \<or> hd ys = CHR ''/''"
  shows "''..'' \<in> set (components (xs @ ''..'' @ ys))"
proof -
  have tail: "''..'' \<in> set (components (''..'' @ ys))"
    using components_word [of "''..''" ys] assms(2) by simp
  show ?thesis
  proof (cases xs rule: rev_cases)
    case Nil
    then show ?thesis using tail by simp
  next
    case (snoc zs z)
    then have "xs @ ''..'' @ ys = zs @ CHR ''/'' # (''..'' @ ys)" using assms(1) by simp
    then show ?thesis using tail by (simp only: components_append_slash) simp
  qed
qed

lemma bad_name_byte_not_clean:
  assumes "is_clean_name s" and "i < length s"
  shows "\<not> bad_name_byte s i"
proof
  assume bad: "bad_name_byte s i"
  obtain st where st: "proper_stack st" "s = render_rel st"
    using assms(1) by (auto simp: is_clean_name_def)
  have "NUL \<notin> set s" using assms(1) by (simp add: is_clean_name_def)
  then have "s ! i \<noteq> NUL" using assms(2) nth_mem by metis
  moreover have "\<not> (s ! i = CHR ''/'' \<and> i + 1 < length s \<and> s ! (i + 1) = CHR ''/'')"
    using single_slashes_nth single_slashes_render_rel st by blast
  ultimately have dd: "s ! i = CHR ''.''" "i + 1 < length s" "s ! (i + 1) = CHR ''.''"
    "i = 0 \<or> s ! (i - 1) = CHR ''/''" "i + 2 = length s \<or> s ! (i + 2) = CHR ''/''"
    using bad unfolding bad_name_byte_def by blast+
  have split: "s = take i s @ ''..'' @ drop (i + 2) s"
    using dd(1-3) by (metis Cons_nth_drop_Suc Suc_1 Suc_eq_plus1 add.commute add_Suc_right
        append_Cons append_Nil append_take_drop_id assms(2))
  have pre: "take i s = [] \<or> last (take i s) = CHR ''/''"
    using dd(4) assms(2) by (cases i) (auto simp: take_Suc_conv_app_nth)
  have post: "drop (i + 2) s = [] \<or> hd (drop (i + 2) s) = CHR ''/''"
    using dd(2,5) by (cases "i + 2 < length s") (auto simp: hd_drop_conv_nth)
  have "''..'' \<in> set (components (take i s @ ''..'' @ drop (i + 2) s))"
    using dotdot_at_component [OF pre post] .
  then have "''..'' \<in> set (components s)" using split by simp
  then show False
    using st by (auto simp: components_render_rel proper_stack_def proper_component_def)
qed

lemma is_clean_name_head:
  assumes "is_clean_name s"
  shows "s \<noteq> []" and "hd s \<noteq> CHR ''/''" and "take 2 s \<noteq> ''./''" and "s \<noteq> ''.''"
proof -
  obtain c cs where st: "proper_stack (c # cs)" "s = render_rel (c # cs)"
    using assms by (metis is_clean_name_def neq_Nil_conv)
  then obtain r where r: "s = c @ r" "r = [] \<or> hd r = CHR ''/''"
    by (cases cs) auto
  have c: "c \<noteq> []" "CHR ''/'' \<notin> set c" "c \<noteq> ''.''"
    using st by (auto simp: proper_component_def)
  show "s \<noteq> []" "hd s \<noteq> CHR ''/''" using r c by (cases c; auto)+
  have "components s = c # components r" using r c by (simp add: components_word)
  moreover have "components ''.'' = [''.'']" using components_word [of "''.''" "[]"] by simp
  ultimately show "s \<noteq> ''.''" using c by auto
  show "take 2 s \<noteq> ''./''"
  proof
    assume "take 2 s = ''./''"
    then have "s = ''.'' @ CHR ''/'' # drop 2 s"
      by (metis append_take_drop_id append_Cons append_Nil)
    then have "components s = ''.'' # components (drop 2 s)"
      using components_word [of "''.''" "CHR ''/'' # drop 2 s"] by simp
    with \<open>components s = c # components r\<close> c show False by simp
  qed
qed

lemma canonical_path_clean:
  assumes "is_clean_name s" and "0 < h"
  shows "canonical_path h s = Some (CHR ''/'' # s, h - 1)"
proof -
  note head = is_clean_name_head [OF assms(1)]
  have "strip_dot_slash s = s"
    using head(3) by (cases s rule: strip_dot_slash.cases) (auto simp: numeral_2_eq_2)
  moreover have "skip_slashes s = s"
    using head(1,2) by (cases s) auto
  ultimately show ?thesis
    using head assms bad_name_byte_not_clean [OF assms(1)]
    by (auto simp: canonical_path_def list_ex_iff)
qed

section \<open>One record\<close>

definition archive_entry_ok :: "ArchiveEntry \<Rightarrow> bool" where
  "archive_entry_ok e \<longleftrightarrow>
     ae_mode e < 2 ^ 32 \<and> ae_uid e < 2 ^ 32 \<and> ae_gid e < 2 ^ 32 \<and>
     length (ae_bytes e) < 2 ^ 32 \<and> length (ae_name e) + 1 < 2 ^ 32 \<and> NUL \<notin> set (ae_name e)"

lemma length_newc_header:
  "archive_entry_ok e \<Longrightarrow> ino < 2 ^ 32 \<Longrightarrow> length (newc_header ino e) = 110"
  by (simp add: newc_header_def archive_entry_ok_def length_hex08)

lemma hex_field_newc_header:
  assumes "archive_entry_ok e" and "ino < 2 ^ 32"
  shows "hex_field (newc_header ino e @ rest) 14 8 = Some (ae_mode e)"
    and "hex_field (newc_header ino e @ rest) 22 8 = Some (ae_uid e)"
    and "hex_field (newc_header ino e @ rest) 30 8 = Some (ae_gid e)"
    and "hex_field (newc_header ino e @ rest) 54 8 = Some (length (ae_bytes e))"
    and "hex_field (newc_header ino e @ rest) 94 8 = Some (length (ae_name e) + 1)"
proof -
  have len: "length (hex08 ino) = 8" "length (hex08 (ae_mode e)) = 8" "length (hex08 (ae_uid e)) = 8"
    "length (hex08 (ae_gid e)) = 8" "length (hex08 (length (ae_bytes e))) = 8"
    "length (hex08 (Suc (length (ae_name e)))) = 8" "length (hex08 0) = 8" "length (hex08 (Suc 0)) = 8"
    using assms by (simp_all add: archive_entry_ok_def length_hex08)
  have val: "hex_field_loop (hex08 (ae_mode e)) 0 = Some (ae_mode e)"
    "hex_field_loop (hex08 (ae_uid e)) 0 = Some (ae_uid e)"
    "hex_field_loop (hex08 (ae_gid e)) 0 = Some (ae_gid e)"
    "hex_field_loop (hex08 (length (ae_bytes e))) 0 = Some (length (ae_bytes e))"
    "hex_field_loop (hex08 (Suc (length (ae_name e)))) 0 = Some (Suc (length (ae_name e)))"
    using assms by (simp_all add: archive_entry_ok_def hex_field_loop_hex08)
  show "hex_field (newc_header ino e @ rest) 14 8 = Some (ae_mode e)"
    "hex_field (newc_header ino e @ rest) 22 8 = Some (ae_uid e)"
    "hex_field (newc_header ino e @ rest) 30 8 = Some (ae_gid e)"
    "hex_field (newc_header ino e @ rest) 54 8 = Some (length (ae_bytes e))"
    "hex_field (newc_header ino e @ rest) 94 8 = Some (length (ae_name e) + 1)"
    by (simp_all add: hex_field_def newc_header_def len val drop_Cons')
qed

lemma length_pad4 [simp]: "length (pad4 out) = align4 (length out)"
  by (simp add: pad4_def)

lemma pad4_prefix: "\<exists>pad. pad4 out = out @ pad"
  by (auto simp: pad4_def)

lemma append_record_layout:
  "\<exists>p1 p2. append_record ino out e =
      out @ newc_header ino e @ ae_name e @ NUL # p1 @ ae_bytes e @ p2 \<and>
      length (out @ newc_header ino e @ ae_name e @ NUL # p1) =
        align4 (length out + length (newc_header ino e) + (length (ae_name e) + 1))"
proof -
  obtain p1 where p1: "pad4 (out @ newc_header ino e @ ae_name e @ [NUL]) =
      (out @ newc_header ino e @ ae_name e @ [NUL]) @ p1"
    using pad4_prefix by blast
  obtain p2 where p2: "append_record ino out e =
      pad4 (out @ newc_header ino e @ ae_name e @ [NUL]) @ ae_bytes e @ p2"
    using pad4_prefix [of "pad4 (out @ newc_header ino e @ ae_name e @ [NUL]) @ ae_bytes e"]
    by (auto simp: append_record_def)
  have "length (out @ newc_header ino e @ ae_name e @ NUL # p1) =
      length (pad4 (out @ newc_header ino e @ ae_name e @ [NUL]))"
    by (simp add: p1 del: length_pad4)
  also have "\<dots> = align4 (length out + length (newc_header ino e) + (length (ae_name e) + 1))"
    by (simp add: add.assoc)
  finally have "length (out @ newc_header ino e @ ae_name e @ NUL # p1) = \<dots>" .
  moreover have "append_record ino out e =
      out @ newc_header ino e @ ae_name e @ NUL # p1 @ ae_bytes e @ p2"
    using p1 p2 by simp
  ultimately show ?thesis by blast
qed

definition record_data_offset :: "nat \<Rightarrow> ArchiveEntry \<Rightarrow> nat" where
  "record_data_offset off e = align4 (off + 110 + (length (ae_name e) + 1))"

definition record_end :: "nat \<Rightarrow> ArchiveEntry \<Rightarrow> nat" where
  "record_end off e = align4 (record_data_offset off e + length (ae_bytes e))"

lemma length_append_record:
  assumes "archive_entry_ok e" and "ino < 2 ^ 32"
  shows "length (append_record ino out e) = record_end (length out) e"
  using length_newc_header [OF assms]
  by (simp add: append_record_def record_end_def record_data_offset_def add_ac)

definition is_directory_mode :: "nat \<Rightarrow> bool" where
  "is_directory_mode m \<longleftrightarrow> (of_nat m :: u32) AND 0xF000 = 0x4000"

definition is_regular_mode :: "nat \<Rightarrow> bool" where
  "is_regular_mode m \<longleftrightarrow> (of_nat m :: u32) AND 0xF000 = 0x8000"

text \<open>What the reader makes of a record that starts at \<open>off\<close>.\<close>

definition read_entry :: "nat \<Rightarrow> ArchiveEntry \<Rightarrow> InitrdEntry" where
  "read_entry off e =
     new_entry (CHR ''/'' # ae_name e) (record_data_offset off e) (length (ae_bytes e))
       (is_directory_mode (ae_mode e)) (ae_mode e) (ae_uid e) (ae_gid e)"

lemma record_layout:
  assumes "archive_entry_ok e" and "ino < 2 ^ 32" and "img = append_record ino out e @ rest"
  obtains p1 p2 where
    "img = out @ newc_header ino e @ ae_name e @ NUL # p1 @ ae_bytes e @ p2"
    "length (out @ newc_header ino e @ ae_name e @ NUL # p1) = record_data_offset (length out) e"
proof -
  obtain p1 p2 where "append_record ino out e =
      out @ newc_header ino e @ ae_name e @ NUL # p1 @ ae_bytes e @ p2"
    "length (out @ newc_header ino e @ ae_name e @ NUL # p1) =
        align4 (length out + length (newc_header ino e) + (length (ae_name e) + 1))"
    using append_record_layout [of ino out e] by blast
  with assms(3) length_newc_header [OF assms(1,2)] that [of p1 "p2 @ rest"] show thesis
    by (simp add: record_data_offset_def)
qed

lemma record_data:
  assumes "archive_entry_ok e" and "ino < 2 ^ 32" and "img = append_record ino out e @ rest"
  shows "take (length (ae_bytes e)) (drop (record_data_offset (length out) e) img) = ae_bytes e"
proof -
  obtain p1 p2 where p: "img = out @ newc_header ino e @ ae_name e @ NUL # p1 @ ae_bytes e @ p2"
    "length (out @ newc_header ino e @ ae_name e @ NUL # p1) = record_data_offset (length out) e"
    using record_layout [OF assms] .
  then have "img = (out @ newc_header ino e @ ae_name e @ NUL # p1) @ ae_bytes e @ p2" by simp
  then have "drop (record_data_offset (length out) e) img = ae_bytes e @ p2"
    using p(2) by (metis append_eq_conv_conj)
  then show ?thesis by simp
qed

lemma cstr_name: "NUL \<notin> set s \<Longrightarrow> cstr (s @ NUL # r) = s"
  by (simp add: cstr_def takeWhile_neq_append)

lemma record_member:
  assumes ok: "archive_entry_ok e" and ino: "ino < 2 ^ 32"
    and img: "img = append_record ino out e @ rest"
  shows "cpio_step h img entries (length out) =
    (if ae_name e = ''TRAILER!!!'' then CpioTrailer
     else if ae_name e = ''.'' then CpioSkip (record_end (length out) e)
     else if \<not> is_regular_mode (ae_mode e) \<and> \<not> is_directory_mode (ae_mode e) then CpioFail
     else if length entries = CPIO_MAX_ENTRIES then CpioFail
     else case canonical_path h (ae_name e) of None \<Rightarrow> CpioFail
          | Some (path, h1) \<Rightarrow>
              if list_ex (\<lambda>x. ie_path x = path) entries then CpioFail
              else if h1 = 0 then CpioFail
              else CpioEntry (new_entry path (record_data_offset (length out) e) (length (ae_bytes e))
                     (is_directory_mode (ae_mode e)) (ae_mode e) (ae_uid e) (ae_gid e))
                     (record_end (length out) e) (h1 - 1))"
proof -
  obtain p1 p2 where p: "img = out @ newc_header ino e @ ae_name e @ NUL # p1 @ ae_bytes e @ p2"
    and dl: "length (out @ newc_header ino e @ ae_name e @ NUL # p1) = record_data_offset (length out) e"
    using record_layout [OF ok ino img] .
  note hl = length_newc_header [OF ok ino]
  have hdr: "drop (length out) img = newc_header ino e @ ae_name e @ NUL # p1 @ ae_bytes e @ p2"
    using p by simp
  have nm: "drop (length out + CPIO_HEADER_SIZE) img = ae_name e @ NUL # p1 @ ae_bytes e @ p2"
    using p hl by simp
  have len: "length img = record_data_offset (length out) e + length (ae_bytes e) + length p2"
    using p dl by simp
  have magic: "magic_ok (drop (length out) img)"
    unfolding hdr by (simp add: magic_ok_def newc_header_def)
  have step: "cpio_step h img entries (length out) =
      cpio_member h img entries (length out) (ae_mode e) (ae_uid e) (ae_gid e)
        (length (ae_bytes e)) (length (ae_name e) + 1)"
    using magic unfolding cpio_step_def Let_def hdr hex_field_newc_header [OF ok ino] by simp
  have fit1: "length out + CPIO_HEADER_SIZE + (length (ae_name e) + 1) \<le> length img"
    using p hl by simp
  have "NUL \<notin> set (ae_name e)" using ok by (simp add: archive_entry_ok_def)
  then have cs: "cstr (ae_name e @ NUL # p1 @ ae_bytes e @ p2) = ae_name e" by (rule cstr_name)
  have g1: "(length out + CPIO_HEADER_SIZE > length img \<or>
      length (ae_name e) + 1 > length img - (length out + CPIO_HEADER_SIZE)) = False"
    using fit1 by auto
  have g2: "((ae_name e @ NUL # p1 @ ae_bytes e @ p2) ! (length (ae_name e) + 1 - 1) \<noteq> NUL) = False"
    by simp
  have g3: "(record_data_offset (length out) e > length img \<or>
      length (ae_bytes e) > length img - record_data_offset (length out) e) = False"
    using len by auto
  have tk: "take (length (ae_name e) + 1 - 1) (ae_name e @ NUL # p1 @ ae_bytes e @ p2) = ae_name e"
    by simp
  have do: "align4 (length out + CPIO_HEADER_SIZE + (length (ae_name e) + 1)) =
      record_data_offset (length out) e"
    by (simp only: record_data_offset_def)
  show ?thesis
    unfolding step cpio_member_def Let_def nm cs do g1 g2 g3 tk if_False
      is_directory_mode_def is_regular_mode_def record_end_def by (rule refl)
qed

section \<open>The whole archive\<close>

fun read_entries :: "nat \<Rightarrow> ArchiveEntry list \<Rightarrow> InitrdEntry list" where
  "read_entries off [] = []"
| "read_entries off (e # es) =
     (if ae_name e = ''.'' then [] else [read_entry off e]) @ read_entries (record_end off e) es"

text \<open>
  The conditions of the round trip.  Distinct clean names and the two kinds of
  nodes are what the tool ensures when it collects the entries.  The rest it does
  not test: fewer than 1024 entries, numbers of at most 32 bits and no entry with
  the name of the trailer.
\<close>

definition archive_ok :: "ArchiveEntry list \<Rightarrow> bool" where
  "archive_ok es \<longleftrightarrow>
     length es < CPIO_MAX_ENTRIES \<and> distinct (map ae_name es) \<and>
     (\<forall>e \<in> set es. archive_entry_ok e \<and> ae_name e \<noteq> ''TRAILER!!!'' \<and>
        (ae_name e = ''.'' \<or> is_clean_name (ae_name e)) \<and>
        (is_regular_mode (ae_mode e) \<or> is_directory_mode (ae_mode e)))"

lemma append_records_prefix: "\<exists>rest. append_records ino out es = out @ rest"
proof (induction es arbitrary: ino out)
  case (Cons e es)
  obtain r1 where "append_record ino out e = out @ r1"
    using append_record_layout [of ino out e] by auto
  moreover obtain r2 where "append_records (ino + 1) (append_record ino out e) es =
      append_record ino out e @ r2"
    using Cons.IH by blast
  ultimately show ?case by simp
qed simp

lemma append_records_head:
  obtains rest where "append_records ino out (e # es) = append_record ino out e @ rest"
  using append_records_prefix [of "ino + 1" "append_record ino out e" es] by auto

lemma archive_ok_ConsD:
  assumes "archive_ok (e # es)"
  shows "archive_ok es" "archive_entry_ok e" "ae_name e \<noteq> ''TRAILER!!!''"
    "ae_name e = ''.'' \<or> is_clean_name (ae_name e)"
    "is_regular_mode (ae_mode e) \<or> is_directory_mode (ae_mode e)" "ae_name e \<notin> ae_name ` set es"
  using assms by (auto simp: archive_ok_def)

lemma record_fits:
  assumes "archive_entry_ok e" and "ino < 2 ^ 32" and "img = append_record ino out e @ rest"
  shows "length out + CPIO_HEADER_SIZE \<le> length img"
  using record_layout [OF assms] length_newc_header [OF assms(1,2)] by (metis length_append le_add1 add.assoc)

lemma archive_entry_ok_trailer: "archive_entry_ok trailer"
  by (simp add: archive_entry_ok_def trailer_def)

lemma cpio_loop_records:
  assumes "archive_ok es" and "ino + length es + 1 < 2 ^ 32"
    and "length entries + length es \<le> CPIO_MAX_ENTRIES" and "2 * length es \<le> h"
    and "\<forall>e \<in> set es. \<forall>x \<in> set entries. ie_path x \<noteq> CHR ''/'' # ae_name e"
  shows "cpio_loop h (append_records ino out (es @ [trailer])) (length out) entries =
    Some (entries @ read_entries (length out) es)"
  using assms
proof (induction es arbitrary: ino out entries h)
  case Nil
  let ?img = "append_records ino out ([] @ [trailer])"
  have img: "?img = append_record ino out trailer @ []" by simp
  have ino: "ino < 2 ^ 32" using Nil by simp
  have "cpio_step h ?img entries (length out) = CpioTrailer"
    using record_member [OF archive_entry_ok_trailer ino img] by (simp add: trailer_def)
  then show ?case
    using record_fits [OF archive_entry_ok_trailer ino img] by (subst cpio_loop.simps) simp
next
  case (Cons e es)
  let ?img = "append_records ino out ((e # es) @ [trailer])"
  note e = archive_ok_ConsD [OF Cons.prems(1)]
  have ino: "ino < 2 ^ 32" using Cons.prems(2) by simp
  obtain rest where img: "?img = append_record ino out e @ rest"
    using append_records_head [of ino out e "es @ [trailer]"] by auto
  have img': "?img = append_records (ino + 1) (append_record ino out e) (es @ [trailer])" by simp
  have len: "record_end (length out) e = length (append_record ino out e)"
    using length_append_record [OF e(2) ino] by simp
  have fits: "length out + CPIO_HEADER_SIZE \<le> length ?img"
    using record_fits [OF e(2) ino img] .
  note step = record_member [OF e(2) ino img, of h entries]
  show ?case
  proof (cases "ae_name e = ''.''")
    case True
    then have "cpio_loop h ?img (length out) entries = cpio_loop h ?img (record_end (length out) e) entries"
      using step fits e(3) by (subst cpio_loop.simps) simp
    also have "\<dots> = Some (entries @ read_entries (length (append_record ino out e)) es)"
      unfolding len img' using Cons.prems e(1) by (intro Cons.IH) auto
    finally show ?thesis using True len by simp
  next
    case False
    have can: "canonical_path h (ae_name e) = Some (CHR ''/'' # ae_name e, h - 1)"
      using False e(4) Cons.prems(4) by (intro canonical_path_clean) auto
    have "cpio_step h ?img entries (length out) =
        CpioEntry (read_entry (length out) e) (record_end (length out) e) (h - 2)"
      using step False e(3,5) can Cons.prems(3-5)
      by (auto simp: read_entry_def list_ex_iff)
    then have "cpio_loop h ?img (length out) entries =
        cpio_loop (h - 2) ?img (record_end (length out) e) (entries @ [read_entry (length out) e])"
      using fits by (subst cpio_loop.simps) simp
    also have "\<dots> = Some ((entries @ [read_entry (length out) e]) @
        read_entries (length (append_record ino out e)) es)"
      unfolding len img' using Cons.prems e(1,6)
      by (intro Cons.IH) (auto simp: read_entry_def new_entry_def)
    finally show ?thesis using False len by simp
  qed
qed

lemma read_entries_data:
  assumes "archive_ok es" and "ino + length es + 1 < 2 ^ 32" and "a \<in> set es" and "ae_name a \<noteq> ''.''"
  shows "\<exists>off. read_entry off a \<in> set (read_entries (length out) es) \<and>
    take (length (ae_bytes a)) (drop (record_data_offset off a)
      (append_records ino out (es @ [trailer]))) = ae_bytes a"
  using assms
proof (induction es arbitrary: ino out)
  case (Cons e es)
  note e = archive_ok_ConsD [OF Cons.prems(1)]
  have ino: "ino < 2 ^ 32" using Cons.prems(2) by simp
  show ?case
  proof (cases "a = e")
    case True
    obtain rest where img: "append_records ino out ((e # es) @ [trailer]) = append_record ino out e @ rest"
      using append_records_head [of ino out e "es @ [trailer]"] by auto
    show ?thesis
      using record_data [OF e(2) ino img] True Cons.prems(4) by (intro exI [of _ "length out"]) auto
  next
    case False
    then have "\<exists>off. read_entry off a \<in> set (read_entries (length (append_record ino out e)) es) \<and>
      take (length (ae_bytes a)) (drop (record_data_offset off a)
        (append_records (ino + 1) (append_record ino out e) (es @ [trailer]))) = ae_bytes a"
      using Cons.prems e(1) by (intro Cons.IH) auto
    then show ?thesis
      using length_append_record [OF e(2) ino, of out] by auto
  qed
qed simp

lemma read_entries_summary:
  "map (\<lambda>x. (ie_path x, ie_directory x, ie_mode x, ie_uid x, ie_gid x, ie_size x)) (read_entries off es) =
   map (\<lambda>a. (CHR ''/'' # ae_name a, is_directory_mode (ae_mode a), of_nat (ae_mode a),
             of_nat (ae_uid a), of_nat (ae_gid a), length (ae_bytes a)))
     (filter (\<lambda>a. ae_name a \<noteq> ''.'') es)"
  by (induction es arbitrary: off) (auto simp: read_entry_def new_entry_def)

lemma archive_create:
  assumes "archive_ok es" and "2 * length es + 3 \<le> h"
  obtains ini where "facet_initrd_create h (archive_bytes es) = Some ini"
    "in_data ini = archive_bytes es" "in_entries ini = root_entry # read_entries 0 es"
proof -
  let ?img = "archive_bytes es"
  have small: "1 + length es + 1 < 2 ^ 32" using assms(1) by (simp add: archive_ok_def)
  have "cpio_loop (h - 3) ?img (length ([] :: string)) [root_entry] =
      Some ([root_entry] @ read_entries (length ([] :: string)) es)"
    unfolding archive_bytes_def
  proof (rule cpio_loop_records [OF assms(1) small])
    show "\<forall>e\<in>set es. \<forall>x\<in>set [root_entry]. ie_path x \<noteq> CHR ''/'' # ae_name e"
      using assms(1) is_clean_name_head(1)
      by (fastforce simp: archive_ok_def root_entry_def new_entry_def)
  qed (use assms in \<open>auto simp: archive_ok_def\<close>)
  moreover have "CPIO_HEADER_SIZE \<le> length ?img"
  proof (cases "es @ [trailer]")
    case (Cons x xs)
    have "x \<in> set (es @ [trailer])" using Cons by (metis list.set_intros(1))
    then have x: "archive_entry_ok x"
      using assms(1) archive_entry_ok_trailer by (auto simp: archive_ok_def)
    obtain rest where img: "?img = append_record 1 [] x @ rest"
      using append_records_head [of 1 "[]" x xs] Cons by (auto simp: archive_bytes_def)
    show ?thesis using record_fits [OF x _ img] by simp
  qed simp
  ultimately show thesis
    using assms(2) that by (auto simp: facet_initrd_create_def)
qed

lemma archive_find_file:
  assumes "archive_ok es" and "2 * length es + 3 \<le> h" and "a \<in> set es"
    and "is_regular_mode (ae_mode a)" and "ae_name a \<noteq> ''.''" and "length (ae_name a) < FACET_PATH_MAX"
    and create: "facet_initrd_create h (archive_bytes es) = Some ini"
  shows "facet_initrd_find_file ini (CHR ''/'' # ae_name a) = Inr (ae_bytes a)"
proof -
  have wf: "initrd_wf ini" and data: "in_data ini = archive_bytes es"
    using facet_initrd_create_SomeD [OF create] by auto
  have ents: "in_entries ini = root_entry # read_entries 0 es"
    using archive_create [OF assms(1,2)] create by (metis option.inject)
  have small: "1 + length es + 1 < 2 ^ 32" using assms(1) by (simp add: archive_ok_def)
  obtain off where off: "read_entry off a \<in> set (read_entries 0 es)"
    "take (length (ae_bytes a)) (drop (record_data_offset off a) (archive_bytes es)) = ae_bytes a"
    using read_entries_data [OF assms(1) small assms(3,5), of "[]"] by (auto simp: archive_bytes_def)
  then obtain i where i: "i < length (in_entries ini)" "in_entries ini ! i = read_entry off a"
    using ents by (metis in_set_conv_nth list.set_intros(2))
  have "\<not> is_directory_mode (ae_mode a)"
    using assms(4) by (simp add: is_regular_mode_def is_directory_mode_def)
  then have "find_entry ini (CHR ''/'' # ae_name a) False = Some i"
    using i find_entry_Some_iff [OF wf] by (simp add: read_entry_def new_entry_def)
  then show ?thesis
    using i off(2) data assms(6) by (simp add: facet_initrd_find_file_def read_entry_def new_entry_def)
qed

text \<open>
  An entry with the name of the trailer ends the archive for the reader: it and
  everything behind it are lost without an error.
\<close>

lemma trailer_name_loses_entries:
  assumes "ae_name e = ''TRAILER!!!''" and "archive_entry_ok e" and "3 \<le> h"
  shows "\<exists>ini. facet_initrd_create h (archive_bytes (e # es)) = Some ini \<and> in_entries ini = [root_entry]"
proof -
  let ?img = "archive_bytes (e # es)"
  obtain rest where img: "?img = append_record 1 [] e @ rest"
    using append_records_head [of 1 "[]" e "es @ [trailer]"] by (auto simp: archive_bytes_def)
  have "cpio_step (h - 3) ?img [root_entry] (length ([] :: string)) = CpioTrailer"
    using record_member [OF assms(2) _ img] assms(1) by simp
  then have "cpio_loop (h - 3) ?img 0 [root_entry] = Some [root_entry]"
    using record_fits [OF assms(2) _ img] by (subst cpio_loop.simps) simp
  then show ?thesis
    using record_fits [OF assms(2) _ img] assms(3) by (auto simp: facet_initrd_create_def)
qed

text \<open>
  C2. Archive round trip.  Take fewer than 1024 entries with distinct clean names,
  none named TRAILER!!!, whose modes, owners and sizes fit into 32 bits, each a
  regular file or a directory (archive_ok).  The archive that tools/facet-initrd
  (archive_bytes) writes for them is accepted by the boot-time reader
  facet_initrd_create whenever its two allocations per entry succeed; the entry
  table holds the root directory followed by exactly the written entries (the entry "." apart),
  with their kinds, modes and owners, and every regular file whose name is shorter
  than FACET_PATH_MAX is found under its absolute path with exactly the bytes that
  were archived.
\<close>

theorem archive_roundtrip:
  assumes "archive_ok es" and "2 * length es + 3 \<le> h"
  shows "\<exists>ini. facet_initrd_create h (archive_bytes es) = Some ini \<and>
    map (\<lambda>x. (ie_path x, ie_directory x, ie_mode x, ie_uid x, ie_gid x, ie_size x)) (in_entries ini) =
      (''/'', True, 0x41ED, 0, 0, 0) #
      map (\<lambda>a. (CHR ''/'' # ae_name a, is_directory_mode (ae_mode a), of_nat (ae_mode a),
                of_nat (ae_uid a), of_nat (ae_gid a), length (ae_bytes a)))
        (filter (\<lambda>a. ae_name a \<noteq> ''.'') es) \<and>
    (\<forall>a \<in> set es. is_regular_mode (ae_mode a) \<and> ae_name a \<noteq> ''.'' \<and>
       length (ae_name a) < FACET_PATH_MAX \<longrightarrow>
       facet_initrd_find_file ini (CHR ''/'' # ae_name a) = Inr (ae_bytes a))"
proof -
  obtain ini where ini: "facet_initrd_create h (archive_bytes es) = Some ini"
    "in_entries ini = root_entry # read_entries 0 es"
    using archive_create [OF assms] by metis
  moreover have "map (\<lambda>x. (ie_path x, ie_directory x, ie_mode x, ie_uid x, ie_gid x, ie_size x)) [root_entry] =
      [(''/'', True, 0x41ED, 0, 0, 0)]"
    by (simp add: root_entry_def new_entry_def)
  ultimately show ?thesis
    using archive_find_file [OF assms] by (intro exI [of _ ini]) (simp add: read_entries_summary)
qed

definition sample_archive :: "ArchiveEntry list" where
  "sample_archive =
     [\<lparr>ae_name = ''.'', ae_mode = 0x41ED, ae_uid = 0, ae_gid = 0, ae_bytes = []\<rparr>,
      \<lparr>ae_name = ''bin'', ae_mode = 0x41ED, ae_uid = 0, ae_gid = 0, ae_bytes = []\<rparr>,
      \<lparr>ae_name = ''bin/sh'', ae_mode = 0x81ED, ae_uid = 0, ae_gid = 0, ae_bytes = ''ELF''\<rparr>]"

lemma is_clean_name_samples: "is_clean_name ''bin''" "is_clean_name ''bin/sh''"
  by (auto simp: is_clean_name_def proper_component_def intro: exI [of _ "[''bin'']"])
    (auto simp: is_clean_name_def proper_component_def intro!: exI [of _ "[''bin'', ''sh'']"])

lemma sample_archive_ok: "archive_ok sample_archive"
  by (simp add: archive_ok_def sample_archive_def archive_entry_ok_def is_clean_name_samples
      is_regular_mode_def is_directory_mode_def)

theorem archive_roundtrip_witness:
  "archive_ok sample_archive \<and>
   (\<exists>ini. facet_initrd_create 9 (archive_bytes sample_archive) = Some ini \<and>
      facet_initrd_find_file ini ''/bin/sh'' = Inr ''ELF'')"
  using archive_roundtrip [OF sample_archive_ok, of 9] sample_archive_ok
  by (fastforce simp: sample_archive_def is_regular_mode_def)

end
