(* ===== verification/RpcCodec.thy ===== *)
theory RpcCodec
  imports Prelude
begin

text \<open>
  The value codec of the RPC runtime, libfacet/src/common/runtime.c: the growing
  output buffer, little-endian integers, and the encoder and decoder that walk a
  value along its type metadata.

  The encoder reads its input from memory, a function from addresses to bytes: it
  is given the address of an object and walks it along its type metadata, with the
  sizes and field offsets the metadata states.  Objects do not wrap around the end
  of the address space.  The decoder builds a value: scalars at their width, a
  FacetString or FacetArray as its data (\<open>None\<close> for NULL) and its length, a
  structure as its fields in metadata order.  \<open>readable\<close> says that a value lies at
  an address.  Type metadata is a finite tree.  The C function codec_value has one
  flag for both directions; its halves are encode_value and decode_value.
\<close>

section \<open>Types and values\<close>

datatype FacetType =
    FACET_TYPE_U8
  | FACET_TYPE_U16
  | FACET_TYPE_U32
  | FACET_TYPE_U64
  | FACET_TYPE_I8
  | FACET_TYPE_I16
  | FACET_TYPE_I32
  | FACET_TYPE_I64
  | FACET_TYPE_BOOL
  | FACET_TYPE_UUID
  | FACET_TYPE_HANDLE
  | FACET_TYPE_STRING
  | FACET_TYPE_BYTES
  | FACET_TYPE_LOCAL_PTR
  | FACET_TYPE_ENUM
  | FACET_TYPE_STRUCT
  | FACET_TYPE_ARRAY

datatype FacetTypeMeta = FacetTypeMeta
  (tm_kind: FacetType) (tm_underlying_kind: FacetType) (tm_size: nat)
  (tm_element_type: "FacetTypeMeta option") (tm_element_kind: FacetType)
  (tm_struct_fields: "(FacetType \<times> FacetTypeMeta option \<times> nat) list")

text \<open>A field of a structure: its kind, its type and its offset.\<close>

type_synonym FacetStructFieldMeta = "FacetType \<times> FacetTypeMeta option \<times> nat"

abbreviation sf_kind :: "FacetStructFieldMeta \<Rightarrow> FacetType" where "sf_kind \<equiv> fst"
abbreviation sf_type :: "FacetStructFieldMeta \<Rightarrow> FacetTypeMeta option" where "sf_type f \<equiv> fst (snd f)"
abbreviation sf_offset :: "FacetStructFieldMeta \<Rightarrow> nat" where "sf_offset f \<equiv> snd (snd f)"

datatype FacetValue =
    VU8 "8 word"
  | VU16 "16 word"
  | VU32 u32
  | VU64 u64
  | VI8 "8 word"
  | VI16 "16 word"
  | VI32 u32
  | VI64 u64
  | VBool "8 word"
  | VUuid string
  | VString "string option" nat
  | VArray "FacetValue list option" nat
  | VStruct "FacetValue list"
  | VHandle FacetHandle
  | VLocalPtr u64

record FacetRpcCodec =
  cd_data :: string
  cd_capacity :: nat
  cd_offset :: nat
  cd_heap :: heap

abbreviation cd_size :: "FacetRpcCodec \<Rightarrow> nat" where
  "cd_size c \<equiv> length (cd_data c)"

abbreviation SIZE_MAX :: nat where "SIZE_MAX \<equiv> 18446744073709551615"
abbreviation UINT32_MAX :: nat where "UINT32_MAX \<equiv> 4294967295"

definition effective_type :: "FacetType \<Rightarrow> FacetTypeMeta option \<Rightarrow> FacetType" where
  "effective_type type metadata =
     (if type = FACET_TYPE_ENUM
      then case metadata of None \<Rightarrow> type | Some m \<Rightarrow> tm_underlying_kind m
      else type)"

text \<open>Sizes in bytes on the 64-bit target: uuid_t, FacetString and FacetArray have 16.\<close>

definition codec_type_size :: "FacetType \<Rightarrow> FacetTypeMeta option \<Rightarrow> nat" where
  "codec_type_size type metadata =
     (case effective_type type metadata of
        FACET_TYPE_U8 \<Rightarrow> 1 | FACET_TYPE_I8 \<Rightarrow> 1
      | FACET_TYPE_U16 \<Rightarrow> 2 | FACET_TYPE_I16 \<Rightarrow> 2
      | FACET_TYPE_U32 \<Rightarrow> 4 | FACET_TYPE_I32 \<Rightarrow> 4
      | FACET_TYPE_U64 \<Rightarrow> 8 | FACET_TYPE_I64 \<Rightarrow> 8
      | FACET_TYPE_BOOL \<Rightarrow> 1
      | FACET_TYPE_UUID \<Rightarrow> 16
      | FACET_TYPE_STRING \<Rightarrow> 16
      | FACET_TYPE_ARRAY \<Rightarrow> 16
      | FACET_TYPE_STRUCT \<Rightarrow> (case metadata of None \<Rightarrow> 0 | Some m \<Rightarrow> tm_size m)
      | _ \<Rightarrow> 0)"

section \<open>The buffer\<close>

definition facet_rpc_codec_init :: "heap \<Rightarrow> nat \<Rightarrow> FacetRpcCodec facet" where
  "facet_rpc_codec_init h capacity =
     bindE (alloc FACET_OUT_OF_MEMORY h) (\<lambda>h'.
     Inr \<lparr>cd_data = [], cd_capacity = (if capacity = 0 then 256 else capacity),
          cd_offset = 0, cd_heap = h'\<rparr>)"

text \<open>The doubling loop of codec_write; it is entered with a nonzero capacity.\<close>

function grow_capacity :: "nat \<Rightarrow> nat \<Rightarrow> nat facet" where
  "grow_capacity needed capacity =
     (if 0 < capacity \<and> capacity < needed
      then if capacity > SIZE_MAX div 2 then Inl FACET_BUFFER_TOO_SMALL
           else grow_capacity needed (capacity * 2)
      else Inr capacity)"
  by pat_completeness auto
termination by (relation "measure (\<lambda>(needed, capacity). needed - capacity)") auto

declare grow_capacity.simps [simp del]

definition codec_write :: "FacetRpcCodec \<Rightarrow> string option \<Rightarrow> nat \<Rightarrow> FacetRpcCodec facet" where
  "codec_write c data n =
     (if n \<noteq> 0 \<and> data = None then Inl FACET_INVALID_ARGUMENT
      else if n > SIZE_MAX - cd_size c then Inl FACET_BUFFER_TOO_SMALL
      else
      bindE (if cd_size c + n > cd_capacity c
             then bindE (grow_capacity (cd_size c + n)
                           (if cd_capacity c = 0 then 256 else cd_capacity c)) (\<lambda>capacity.
                  bindE (alloc FACET_OUT_OF_MEMORY (cd_heap c)) (\<lambda>h.
                  Inr (c\<lparr>cd_capacity := capacity, cd_heap := h\<rparr>)))
             else Inr c) (\<lambda>c'.
      Inr (c'\<lparr>cd_data := cd_data c' @ (case data of None \<Rightarrow> [] | Some bytes \<Rightarrow> take n bytes)\<rparr>)))"

definition codec_read :: "FacetRpcCodec \<Rightarrow> nat \<Rightarrow> (string \<times> FacetRpcCodec) facet" where
  "codec_read c n =
     (if cd_offset c > cd_size c \<or> n > cd_size c - cd_offset c then Inl FACET_PROTOCOL_ERROR
      else Inr (take n (drop (cd_offset c) (cd_data c)), c\<lparr>cd_offset := cd_offset c + n\<rparr>))"

definition uint_bytes :: "u64 \<Rightarrow> nat \<Rightarrow> string" where
  "uint_bytes v n = map (\<lambda>i. char_of (unat (drop_bit (8 * i) v))) [0..<n]"

fun bytes_uint :: "nat \<Rightarrow> u64 \<Rightarrow> string \<Rightarrow> u64" where
  "bytes_uint i v [] = v"
| "bytes_uint i v (b # bs) = bytes_uint (Suc i) (v OR push_bit (8 * i) (word_of_nat (byte_val b))) bs"

definition codec_write_uint :: "FacetRpcCodec \<Rightarrow> u64 \<Rightarrow> nat \<Rightarrow> FacetRpcCodec facet" where
  "codec_write_uint c v n =
     (if n > 8 then Inl FACET_INVALID_ARGUMENT else codec_write c (Some (uint_bytes v n)) n)"

definition codec_read_uint :: "FacetRpcCodec \<Rightarrow> nat \<Rightarrow> (u64 \<times> FacetRpcCodec) facet" where
  "codec_read_uint c n =
     (if n > 8 then Inl FACET_INVALID_ARGUMENT
      else bindE (codec_read c n) (\<lambda>(bytes, c'). Inr (bytes_uint 0 0 bytes, c')))"

section \<open>Memory\<close>

type_synonym memory = "nat \<Rightarrow> char"

definition mem_bytes :: "memory \<Rightarrow> nat \<Rightarrow> nat \<Rightarrow> string" where
  "mem_bytes mem a n = map (\<lambda>i. mem (a + i)) [0..<n]"

definition load :: "memory \<Rightarrow> nat \<Rightarrow> nat \<Rightarrow> u64" where
  "load mem a n = bytes_uint 0 0 (mem_bytes mem a n)"

text \<open>A FacetString or FacetArray: the pointer and, behind it, the length.\<close>

definition data_pointer :: "memory \<Rightarrow> nat \<Rightarrow> nat" where
  "data_pointer mem a = unat (load mem a 8)"

definition data_length :: "memory \<Rightarrow> nat \<Rightarrow> nat" where
  "data_length mem a = unat (load mem (a + 8) 8)"

section \<open>Scalars\<close>

text \<open>A bool has one byte but is read as an int: the three bytes behind it count.\<close>

definition scalar_word :: "memory \<Rightarrow> FacetType \<Rightarrow> nat \<Rightarrow> u64 facet" where
  "scalar_word mem type a =
     (case type of
        FACET_TYPE_U8 \<Rightarrow> Inr (load mem a 1)
      | FACET_TYPE_U16 \<Rightarrow> Inr (load mem a 2)
      | FACET_TYPE_U32 \<Rightarrow> Inr (load mem a 4)
      | FACET_TYPE_U64 \<Rightarrow> Inr (load mem a 8)
      | FACET_TYPE_I8 \<Rightarrow> Inr (scast (ucast (load mem a 1) :: 8 word))
      | FACET_TYPE_I16 \<Rightarrow> Inr (scast (ucast (load mem a 2) :: 16 word))
      | FACET_TYPE_I32 \<Rightarrow> Inr (scast (ucast (load mem a 4) :: u32))
      | FACET_TYPE_I64 \<Rightarrow> Inr (load mem a 8)
      | FACET_TYPE_BOOL \<Rightarrow> Inr (if load mem a 4 \<noteq> 0 then 1 else 0)
      | _ \<Rightarrow> Inl FACET_NOT_SUPPORTED)"

definition word_scalar :: "FacetType \<Rightarrow> u64 \<Rightarrow> FacetValue facet" where
  "word_scalar type w =
     (case type of
        FACET_TYPE_U8 \<Rightarrow> Inr (VU8 (ucast w))
      | FACET_TYPE_U16 \<Rightarrow> Inr (VU16 (ucast w))
      | FACET_TYPE_U32 \<Rightarrow> Inr (VU32 (ucast w))
      | FACET_TYPE_U64 \<Rightarrow> Inr (VU64 w)
      | FACET_TYPE_I8 \<Rightarrow> Inr (VI8 (ucast w))
      | FACET_TYPE_I16 \<Rightarrow> Inr (VI16 (ucast w))
      | FACET_TYPE_I32 \<Rightarrow> Inr (VI32 (ucast w))
      | FACET_TYPE_I64 \<Rightarrow> Inr (VI64 w)
      | FACET_TYPE_BOOL \<Rightarrow> Inr (VBool (if w \<noteq> 0 then 1 else 0))
      | _ \<Rightarrow> Inl FACET_NOT_SUPPORTED)"

definition encode_string :: "memory \<Rightarrow> nat \<Rightarrow> FacetRpcCodec \<Rightarrow> FacetRpcCodec facet" where
  "encode_string mem a c =
     (let p = data_pointer mem a; n = data_length mem a in
      if n > UINT32_MAX then Inl FACET_INVALID_ARGUMENT
      else bindE (codec_write_uint c (word_of_nat n) 4)
             (\<lambda>c'. codec_write c' (if p = 0 then None else Some (mem_bytes mem p n)) n))"

definition unsupported_type :: "FacetType \<Rightarrow> FacetTypeMeta option \<Rightarrow> bool" where
  "unsupported_type type metadata \<longleftrightarrow>
     type \<in> {FACET_TYPE_HANDLE, FACET_TYPE_LOCAL_PTR, FACET_TYPE_BYTES} \<or> codec_type_size type metadata = 0"

definition encode_scalar :: "memory \<Rightarrow> FacetType \<Rightarrow> FacetTypeMeta option \<Rightarrow> nat \<Rightarrow> FacetRpcCodec \<Rightarrow> FacetRpcCodec facet" where
  "encode_scalar mem type metadata a c =
     (if unsupported_type type metadata then Inl FACET_NOT_SUPPORTED
      else if type = FACET_TYPE_UUID then codec_write c (Some (mem_bytes mem a 16)) 16
      else bindE (scalar_word mem type a) (\<lambda>w. codec_write_uint c w (codec_type_size type metadata)))"

definition decode_string :: "FacetRpcCodec \<Rightarrow> (FacetValue \<times> FacetRpcCodec) facet" where
  "decode_string c =
     (case codec_read_uint c 4 of
        Inl _ \<Rightarrow> Inl FACET_PROTOCOL_ERROR
      | Inr (w, c1) \<Rightarrow>
          let n = unat (ucast w :: u32) in
          if cd_offset c1 > cd_size c1 \<or> n > cd_size c1 - cd_offset c1 then Inl FACET_PROTOCOL_ERROR
          else bindE (alloc FACET_OUT_OF_MEMORY (cd_heap c1)) (\<lambda>h.
               bindE (codec_read (c1\<lparr>cd_heap := h\<rparr>) n) (\<lambda>(bytes, c2).
               Inr (VString (Some bytes) n, c2))))"

definition decode_scalar :: "FacetType \<Rightarrow> FacetTypeMeta option \<Rightarrow> FacetRpcCodec \<Rightarrow> (FacetValue \<times> FacetRpcCodec) facet" where
  "decode_scalar type metadata c =
     (if unsupported_type type metadata then Inl FACET_NOT_SUPPORTED
      else if type = FACET_TYPE_UUID
      then bindE (codec_read c 16) (\<lambda>(bytes, c'). Inr (VUuid bytes, c'))
      else bindE (codec_read_uint c (codec_type_size type metadata)) (\<lambda>(w, c').
           bindE (word_scalar type w) (\<lambda>v. Inr (v, c'))))"

section \<open>Values\<close>

definition array_element_kind :: "FacetTypeMeta option \<Rightarrow> FacetType" where
  "array_element_kind metadata =
     (case metadata of
        None \<Rightarrow> FACET_TYPE_BYTES
      | Some m \<Rightarrow> (case tm_element_type m of None \<Rightarrow> tm_element_kind m | Some e \<Rightarrow> tm_kind e))"

definition array_element_type :: "FacetTypeMeta option \<Rightarrow> FacetTypeMeta option" where
  "array_element_type metadata = Option.bind metadata tm_element_type"

definition array_element_size :: "FacetTypeMeta option \<Rightarrow> nat" where
  "array_element_size metadata =
     codec_type_size (array_element_kind metadata) (array_element_type metadata)"

text \<open>
  The checks of the array branch: the count has been written (or has failed to
  be), then the element type and the data pointer are tested.
\<close>

definition encode_count :: "FacetTypeMeta option \<Rightarrow> nat \<Rightarrow> nat \<Rightarrow> FacetRpcCodec \<Rightarrow> FacetRpcCodec facet" where
  "encode_count metadata data n c =
     (if n > UINT32_MAX then Inl FACET_INVALID_ARGUMENT
      else let written = codec_write_uint c (word_of_nat n) 4 in
      if array_element_size metadata = 0 \<and> n \<noteq> 0 then Inl FACET_NOT_SUPPORTED
      else if n \<noteq> 0 \<and> data = 0 then Inl FACET_INVALID_ARGUMENT
      else written)"

lemma encode_count_NullD: "encode_count None data n c = Inr c' \<Longrightarrow> n = 0"
  by (auto simp: encode_count_def Let_def array_element_size_def array_element_kind_def
      codec_type_size_def effective_type_def split: if_splits)

abbreviation fields_size :: "FacetStructFieldMeta list \<Rightarrow> nat" where
  "fields_size \<equiv> size_list (size_prod (\<lambda>_. 0) (size_prod (size_option size) (\<lambda>_. 0)))"

lemma struct_fields_size: "fields_size (tm_struct_fields m) < size m"
  by (cases m) simp

lemma element_type_size: "metadata = Some m \<Longrightarrow> size_option size (array_element_type metadata) \<le> size m"
  by (cases m) (simp add: array_element_type_def)

lemma metadata_size_pos: "0 < size_option size (m :: FacetTypeMeta option)"
  by (cases m) simp_all

function encode_value :: "memory \<Rightarrow> FacetType \<Rightarrow> FacetTypeMeta option \<Rightarrow> nat \<Rightarrow> FacetRpcCodec \<Rightarrow> FacetRpcCodec facet"
and encode_elements :: "memory \<Rightarrow> nat \<Rightarrow> nat \<Rightarrow> FacetType \<Rightarrow> FacetTypeMeta option \<Rightarrow> nat \<Rightarrow> FacetRpcCodec \<Rightarrow> FacetRpcCodec facet"
and encode_fields :: "memory \<Rightarrow> FacetStructFieldMeta list \<Rightarrow> nat \<Rightarrow> FacetRpcCodec \<Rightarrow> FacetRpcCodec facet" where
  "encode_value mem type metadata a c =
     (let type' = effective_type type metadata in
      if type' = FACET_TYPE_STRING then encode_string mem a c
      else if type' = FACET_TYPE_ARRAY then
        (let data = data_pointer mem a; n = data_length mem a in
         bindE (encode_count metadata data n c) (\<lambda>c'.
         if n = 0 then Inr c'
         else encode_elements mem n (array_element_size metadata) (array_element_kind metadata)
                (array_element_type metadata) data c'))
      else if type' = FACET_TYPE_STRUCT then
        (case metadata of
           None \<Rightarrow> Inl FACET_INVALID_ARGUMENT
         | Some m \<Rightarrow> encode_fields mem (tm_struct_fields m) a c)
      else encode_scalar mem type' metadata a c)"
| "encode_elements mem 0 element_size type metadata a c = Inr c"
| "encode_elements mem (Suc n) element_size type metadata a c =
     bindE (encode_value mem type metadata a c)
       (encode_elements mem n element_size type metadata (a + element_size))"
| "encode_fields mem [] a c = Inr c"
| "encode_fields mem (f # fs) a c =
     bindE (encode_value mem (sf_kind f) (sf_type f) (a + sf_offset f) c) (encode_fields mem fs a)"
  by pat_completeness auto
termination
proof (relation "inv_image (less_than <*lex*> less_than) (\<lambda>x. case x of
      Inl (mem, type, metadata, a, c) \<Rightarrow> (size_option size metadata, 0)
    | Inr (Inl (mem, n, element_size, type, metadata, a, c)) \<Rightarrow> (size_option size metadata, Suc n)
    | Inr (Inr (mem, fs, a, c)) \<Rightarrow> (fields_size fs, length fs))",
    goal_cases)
  case (2 mem type metadata a c t data n c1)
  then obtain m where "metadata = Some m" by (cases metadata) (auto dest: encode_count_NullD)
  then show ?case using element_type_size [of metadata m] by simp
next
  case (3 mem type metadata a c t m)
  then show ?case using struct_fields_size [of m] by simp
qed auto

text \<open>The count of an array and the checks before its elements are read.\<close>

definition decode_count :: "FacetTypeMeta option \<Rightarrow> FacetRpcCodec \<Rightarrow> (nat \<times> FacetRpcCodec) facet" where
  "decode_count metadata c =
     bindE (codec_read_uint c 4) (\<lambda>(w, c1).
     let n = unat (ucast w :: u32); element_size = array_element_size metadata in
     if element_size = 0 \<and> n \<noteq> 0 then Inl FACET_PROTOCOL_ERROR
     else if n \<noteq> 0 \<and> n > SIZE_MAX div element_size then Inl FACET_PROTOCOL_ERROR
     else if n = 0 then Inr (0, c1)
     else bindE (alloc FACET_OUT_OF_MEMORY (cd_heap c1)) (\<lambda>h. Inr (n, c1\<lparr>cd_heap := h\<rparr>)))"

lemma decode_count_NullD: "decode_count None c = Inr (n, c') \<Longrightarrow> n = 0"
  by (auto simp: decode_count_def error_monad Let_def array_element_size_def array_element_kind_def
      codec_type_size_def effective_type_def split: if_splits)

function decode_value :: "FacetType \<Rightarrow> FacetTypeMeta option \<Rightarrow> FacetRpcCodec \<Rightarrow> (FacetValue \<times> FacetRpcCodec) facet"
and decode_elements :: "nat \<Rightarrow> FacetType \<Rightarrow> FacetTypeMeta option \<Rightarrow> FacetRpcCodec \<Rightarrow> (FacetValue list \<times> FacetRpcCodec) facet"
and decode_fields :: "FacetStructFieldMeta list \<Rightarrow> FacetRpcCodec \<Rightarrow> (FacetValue list \<times> FacetRpcCodec) facet" where
  "decode_value type metadata c =
     (let type' = effective_type type metadata in
      if type' = FACET_TYPE_STRING then decode_string c
      else if type' = FACET_TYPE_ARRAY then
        bindE (decode_count metadata c) (\<lambda>(n, c1).
        if n = 0 then Inr (VArray None 0, c1)
        else bindE (decode_elements n (array_element_kind metadata) (array_element_type metadata) c1)
               (\<lambda>(vs, c2). Inr (VArray (Some vs) n, c2)))
      else if type' = FACET_TYPE_STRUCT then
        (case metadata of
           None \<Rightarrow> Inl FACET_INVALID_ARGUMENT
         | Some m \<Rightarrow>
             bindE (decode_fields (tm_struct_fields m) c) (\<lambda>(vs, c'). Inr (VStruct vs, c')))
      else decode_scalar type' metadata c)"
| "decode_elements 0 type metadata c = Inr ([], c)"
| "decode_elements (Suc n) type metadata c =
     bindE (decode_value type metadata c) (\<lambda>(v, c1).
     bindE (decode_elements n type metadata c1) (\<lambda>(vs, c2). Inr (v # vs, c2)))"
| "decode_fields [] c = Inr ([], c)"
| "decode_fields (f # fs) c =
     bindE (decode_value (sf_kind f) (sf_type f) c) (\<lambda>(v, c1).
     bindE (decode_fields fs c1) (\<lambda>(vs, c2). Inr (v # vs, c2)))"
  by pat_completeness auto
termination
proof (relation "inv_image (less_than <*lex*> less_than) (\<lambda>x. case x of
      Inl (type, metadata, c) \<Rightarrow> (size_option size metadata, 0)
    | Inr (Inl (n, type, metadata, c)) \<Rightarrow> (size_option size metadata, Suc n)
    | Inr (Inr (fs, c)) \<Rightarrow> (fields_size fs, length fs))",
    goal_cases)
  case (2 type metadata c t x n c1)
  then obtain m where "metadata = Some m" by (cases metadata) (auto dest: decode_count_NullD)
  then show ?case using element_type_size [of metadata m] by simp
next
  case (3 type metadata c t m)
  then show ?case using struct_fields_size [of m] by simp
qed auto

declare decode_value.simps [simp del] encode_value.simps [simp del]

definition facet_rpc_encode_value :: "memory \<Rightarrow> FacetType \<Rightarrow> FacetTypeMeta option \<Rightarrow> nat \<Rightarrow> FacetRpcCodec \<Rightarrow> FacetRpcCodec facet" where
  "facet_rpc_encode_value mem type metadata a c = encode_value mem type metadata a c"

definition facet_rpc_decode_value :: "FacetType \<Rightarrow> FacetTypeMeta option \<Rightarrow> FacetRpcCodec \<Rightarrow> (FacetValue \<times> FacetRpcCodec) facet" where
  "facet_rpc_decode_value type metadata c = decode_value type metadata c"

text \<open>What is left of a value once its memory has been released: strings and arrays are empty.\<close>

definition owns_memory :: "FacetType \<Rightarrow> bool" where
  "owns_memory type \<longleftrightarrow> type \<in> {FACET_TYPE_STRING, FACET_TYPE_ARRAY, FACET_TYPE_STRUCT}"

fun codec_release_value :: "FacetType \<Rightarrow> FacetTypeMeta option \<Rightarrow> FacetValue \<Rightarrow> FacetValue"
and release_fields :: "FacetStructFieldMeta list \<Rightarrow> FacetValue list \<Rightarrow> FacetValue list" where
  "codec_release_value type metadata v =
     (if type = FACET_TYPE_STRING then VString None 0
      else if type = FACET_TYPE_ARRAY then VArray None 0
      else if type = FACET_TYPE_STRUCT then
        (case (metadata, v) of
           (Some m, VStruct vs) \<Rightarrow> VStruct (release_fields (tm_struct_fields m) vs)
         | _ \<Rightarrow> v)
      else v)"
| "release_fields (f # fs) (v # vs) =
     (if owns_memory (sf_kind f) then codec_release_value (sf_kind f) (sf_type f) v else v) # release_fields fs vs"
| "release_fields [] vs = vs"
| "release_fields fs [] = []"

declare codec_release_value.simps [simp del]

section \<open>Little-endian integers\<close>

lemma bit_byte_val:
  assumes "bit (byte_val c) k"
  shows "k < 8"
proof (rule ccontr)
  assume "\<not> k < 8"
  then have "(2::nat) ^ 8 \<le> 2 ^ k" by (intro power_increasing) auto
  moreover have "byte_val c < 2 ^ 8" using byte_val_less [of c] by simp
  ultimately have "byte_val c < 2 ^ k" by (rule order.strict_trans2 [rotated])
  with assms show False by (simp add: bit_iff_odd)
qed

lemma byte_index:
  fixes n i :: nat
  shows "8 * i \<le> n \<longleftrightarrow> i \<le> n div 8" and "n < 8 * i \<longleftrightarrow> n div 8 < i" and "n - 8 * (n div 8) = n mod 8"
  by (auto simp: less_eq_div_iff_mult_less_eq div_less_iff_less_mult mult.commute minus_mult_div_eq_mod)

lemma bit_byte_index:
  "bit (push_bit (8 * i) (word_of_nat (byte_val b)) :: u64) n \<longleftrightarrow>
     n < 64 \<and> n div 8 = i \<and> bit (byte_val b) (n mod 8)"
proof (cases "n div 8 = i")
  case True
  then have "8 * i \<le> n" "n - 8 * i = n mod 8" using byte_index by auto
  with True show ?thesis by (auto simp: bit_push_bit_iff bit_of_nat_iff)
next
  case False
  have "\<not> bit (byte_val b) (n - 8 * i)" if "i < n div 8"
    using that byte_index(1) [of "Suc i" n] bit_byte_val [of b "n - 8 * i"] by auto
  with False show ?thesis by (auto simp: bit_push_bit_iff bit_of_nat_iff byte_index(1))
qed

lemma bit_bytes_uint:
  "bit (bytes_uint i v bs) n \<longleftrightarrow>
     bit v n \<or> (n < 64 \<and> i \<le> n div 8 \<and> n div 8 < i + length bs \<and>
       bit (byte_val (bs ! (n div 8 - i))) (n mod 8))"
proof (induction bs arbitrary: i v)
  case (Cons b bs)
  show ?case
    unfolding bytes_uint.simps Cons.IH bit_or_iff bit_byte_index
    by (cases "n div 8 = i") (auto simp: nth_Cons' Suc_le_eq)
qed auto

lemma length_uint_bytes [simp]: "length (uint_bytes v n) = n"
  by (simp add: uint_bytes_def)

lemma byte_uint_bytes:
  assumes "i < n"
  shows "bit (byte_val (uint_bytes v n ! i)) k \<longleftrightarrow> k < 8 \<and> bit v (8 * i + k)"
proof -
  have "byte_val (uint_bytes v n ! i) = take_bit 8 (unat (drop_bit (8 * i) v))"
    using assms by (simp add: uint_bytes_def take_bit_eq_mod)
  then show ?thesis by (simp add: bit_take_bit_iff bit_unsigned_iff bit_drop_bit_eq)
qed

lemma bytes_uint_bytes: "bytes_uint 0 0 (uint_bytes v n) = take_bit (8 * n) v"
proof (rule bit_word_eqI)
  fix k assume "k < LENGTH(64)"
  have "8 * (k div 8) + k mod 8 = k" by simp
  with \<open>k < LENGTH(64)\<close> show "bit (bytes_uint 0 0 (uint_bytes v n)) k = bit (take_bit (8 * n) v) k"
    by (cases "k div 8 < n") (simp_all add: bit_bytes_uint bit_take_bit_iff byte_index(2) byte_uint_bytes)
qed

lemma take_uint_bytes:
  assumes "length bs \<le> 8"
  shows "take (length bs) (uint_bytes (bytes_uint 0 0 bs) 8) = bs"
proof (rule nth_equalityI)
  fix i assume "i < length (take (length bs) (uint_bytes (bytes_uint 0 0 bs) 8))"
  then have i: "i < length bs" "i < 8" using assms by auto
  have "bit (byte_val (uint_bytes (bytes_uint 0 0 bs) 8 ! i)) k = bit (byte_val (bs ! i)) k" for k
  proof (cases "k < 8")
    case True
    with i show ?thesis by (simp add: byte_uint_bytes bit_bytes_uint)
  next
    case False
    with i bit_byte_val [of "bs ! i" k] show ?thesis by (auto simp: byte_uint_bytes)
  qed
  then have "byte_val (uint_bytes (bytes_uint 0 0 bs) 8 ! i) = byte_val (bs ! i)" by (rule bit_eqI)
  with i show "take (length bs) (uint_bytes (bytes_uint 0 0 bs) 8) ! i = bs ! i" by simp
qed (use assms in simp)

section \<open>Reading back what was written\<close>

text \<open>
  \<open>reads f bs k x\<close>: wherever the bytes \<open>bs\<close> start at the read
  offset, and \<open>k\<close> allocations succeed, \<open>f\<close> returns \<open>x\<close> and has consumed
  exactly \<open>bs\<close>.
\<close>

definition reads :: "(FacetRpcCodec \<Rightarrow> ('a \<times> FacetRpcCodec) facet) \<Rightarrow> string \<Rightarrow> nat \<Rightarrow> 'a \<Rightarrow> bool" where
  "reads f bs k x \<longleftrightarrow> (\<forall>pre post cap h.
     f \<lparr>cd_data = pre @ bs @ post, cd_capacity = cap, cd_offset = length pre, cd_heap = k + h\<rparr> =
     Inr (x, \<lparr>cd_data = pre @ bs @ post, cd_capacity = cap, cd_offset = length pre + length bs, cd_heap = h\<rparr>))"

lemma reads_return: "reads (\<lambda>c. Inr (x, c)) [] 0 x"
  by (simp add: reads_def)

lemma reads_bind:
  assumes "reads f as k x" and "reads (g x) bs l y"
  shows "reads (\<lambda>c. bindE (f c) (\<lambda>(x, c1). g x c1)) (as @ bs) (k + l) y"
  unfolding reads_def
proof (intro allI)
  fix pre post cap h
  have "f \<lparr>cd_data = pre @ as @ bs @ post, cd_capacity = cap, cd_offset = length pre, cd_heap = k + (l + h)\<rparr> =
    Inr (x, \<lparr>cd_data = pre @ as @ bs @ post, cd_capacity = cap, cd_offset = length pre + length as, cd_heap = l + h\<rparr>)"
    using assms(1) by (simp add: reads_def)
  moreover have "g x \<lparr>cd_data = (pre @ as) @ bs @ post, cd_capacity = cap, cd_offset = length (pre @ as), cd_heap = l + h\<rparr> =
    Inr (y, \<lparr>cd_data = (pre @ as) @ bs @ post, cd_capacity = cap, cd_offset = length (pre @ as) + length bs, cd_heap = h\<rparr>)"
    using assms(2) unfolding reads_def by blast
  ultimately show "bindE (f \<lparr>cd_data = pre @ (as @ bs) @ post, cd_capacity = cap, cd_offset = length pre, cd_heap = k + l + h\<rparr>)
      (\<lambda>(x, c1). g x c1) =
    Inr (y, \<lparr>cd_data = pre @ (as @ bs) @ post, cd_capacity = cap, cd_offset = length pre + length (as @ bs), cd_heap = h\<rparr>)"
    by (simp add: add.assoc)
qed

lemma reads_map:
  assumes "reads f bs k x"
  shows "reads (\<lambda>c. bindE (f c) (\<lambda>(x, c1). Inr (g x, c1))) bs k (g x)"
  using reads_bind [OF assms, of "\<lambda>x c. Inr (g x, c)" "[]" 0 "g x"] by (simp add: reads_return)

lemma reads_codec_read: "length bs = n \<Longrightarrow> reads (\<lambda>c. codec_read c n) bs 0 bs"
  by (auto simp: reads_def codec_read_def)

lemma reads_codec_read_uint: "n \<le> 8 \<Longrightarrow> reads (\<lambda>c. codec_read_uint c n) (uint_bytes v n) 0 (take_bit (8 * n) v)"
  using reads_map [OF reads_codec_read, of "uint_bytes v n" n "bytes_uint 0 0"]
  by (simp add: codec_read_uint_def bytes_uint_bytes)

lemma codec_write_InrD:
  assumes "codec_write c (Some bs) n = Inr c'" and "n = length bs"
  shows "cd_data c' = cd_data c @ bs"
  using assms by (auto simp: codec_write_def error_monad split: if_splits)

lemma codec_write_uint_InrD: "codec_write_uint c v n = Inr c' \<Longrightarrow> cd_data c' = cd_data c @ uint_bytes v n"
  by (auto simp: codec_write_uint_def split: if_splits dest: codec_write_InrD)

section \<open>Well-typed values\<close>

definition scalar_has_type :: "FacetType \<Rightarrow> FacetValue \<Rightarrow> bool" where
  "scalar_has_type type v =
     (case v of
        VU8 w \<Rightarrow> type = FACET_TYPE_U8
      | VU16 w \<Rightarrow> type = FACET_TYPE_U16
      | VU32 w \<Rightarrow> type = FACET_TYPE_U32
      | VU64 w \<Rightarrow> type = FACET_TYPE_U64
      | VI8 w \<Rightarrow> type = FACET_TYPE_I8
      | VI16 w \<Rightarrow> type = FACET_TYPE_I16
      | VI32 w \<Rightarrow> type = FACET_TYPE_I32
      | VI64 w \<Rightarrow> type = FACET_TYPE_I64
      | VBool b \<Rightarrow> type = FACET_TYPE_BOOL \<and> (b = 0 \<or> b = 1)
      | VUuid bytes \<Rightarrow> type = FACET_TYPE_UUID \<and> length bytes = 16
      | _ \<Rightarrow> False)"

text \<open>
  A value of the type, as the decoder builds it: strings have data, an empty
  array has none, a bool is 0 or 1.
\<close>

fun has_type :: "FacetType \<Rightarrow> FacetTypeMeta option \<Rightarrow> FacetValue \<Rightarrow> bool"
and elements_have_type :: "FacetType \<Rightarrow> FacetTypeMeta option \<Rightarrow> FacetValue list \<Rightarrow> bool"
and fields_have_types :: "FacetStructFieldMeta list \<Rightarrow> FacetValue list \<Rightarrow> bool" where
  "has_type type metadata v =
     (let type' = effective_type type metadata in
      if type' = FACET_TYPE_STRING then
        (case v of VString (Some s) n \<Rightarrow> n = length s \<and> n \<le> UINT32_MAX | _ \<Rightarrow> False)
      else if type' = FACET_TYPE_ARRAY then
        (case v of
           VArray None n \<Rightarrow> n = 0
         | VArray (Some vs) n \<Rightarrow>
             n = length vs \<and> 0 < n \<and> n \<le> UINT32_MAX \<and> array_element_size metadata \<noteq> 0 \<and>
             n \<le> SIZE_MAX div array_element_size metadata \<and>
             elements_have_type (array_element_kind metadata) (array_element_type metadata) vs
         | _ \<Rightarrow> False)
      else if type' = FACET_TYPE_STRUCT then
        (case metadata of
           None \<Rightarrow> False
         | Some m \<Rightarrow> (case v of VStruct vs \<Rightarrow> fields_have_types (tm_struct_fields m) vs | _ \<Rightarrow> False))
      else \<not> unsupported_type type' metadata \<and> scalar_has_type type' v)"
| "elements_have_type type metadata [] = True"
| "elements_have_type type metadata (v # vs) = (has_type type metadata v \<and> elements_have_type type metadata vs)"
| "fields_have_types [] [] = True"
| "fields_have_types (f # fs) (v # vs) = (has_type (sf_kind f) (sf_type f) v \<and> fields_have_types fs vs)"
| "fields_have_types _ _ = False"

declare has_type.simps [simp del]

text \<open>
  \<open>readable mem type metadata a v\<close>: the value lies at the address, in the layout
  the metadata states: scalars little-endian, a string or an array behind its
  pointer, elements one element size apart, fields at their offsets.  Because the
  encoder reads a bool as an int, a false has to have three zero bytes behind it.
\<close>

definition scalar_stored :: "memory \<Rightarrow> nat \<Rightarrow> FacetValue \<Rightarrow> bool" where
  "scalar_stored mem a v =
     (case v of
        VU8 w \<Rightarrow> mem_bytes mem a 1 = uint_bytes (ucast w) 1
      | VU16 w \<Rightarrow> mem_bytes mem a 2 = uint_bytes (ucast w) 2
      | VU32 w \<Rightarrow> mem_bytes mem a 4 = uint_bytes (ucast w) 4
      | VU64 w \<Rightarrow> mem_bytes mem a 8 = uint_bytes w 8
      | VI8 w \<Rightarrow> mem_bytes mem a 1 = uint_bytes (ucast w) 1
      | VI16 w \<Rightarrow> mem_bytes mem a 2 = uint_bytes (ucast w) 2
      | VI32 w \<Rightarrow> mem_bytes mem a 4 = uint_bytes (ucast w) 4
      | VI64 w \<Rightarrow> mem_bytes mem a 8 = uint_bytes w 8
      | VBool b \<Rightarrow> mem a = char_of (unat b) \<and> (b = 0 \<longrightarrow> mem_bytes mem (Suc a) 3 = [CHR 0x00, CHR 0x00, CHR 0x00])
      | VUuid bytes \<Rightarrow> mem_bytes mem a 16 = bytes
      | _ \<Rightarrow> False)"

fun readable :: "memory \<Rightarrow> FacetTypeMeta option \<Rightarrow> nat \<Rightarrow> FacetValue \<Rightarrow> bool"
and elements_readable :: "memory \<Rightarrow> nat \<Rightarrow> FacetTypeMeta option \<Rightarrow> nat \<Rightarrow> FacetValue list \<Rightarrow> bool"
and fields_readable :: "memory \<Rightarrow> FacetStructFieldMeta list \<Rightarrow> nat \<Rightarrow> FacetValue list \<Rightarrow> bool" where
  "readable mem metadata a (VString data n) \<longleftrightarrow>
     data_length mem a = n \<and> data_pointer mem a \<noteq> 0 \<and> data = Some (mem_bytes mem (data_pointer mem a) n)"
| "readable mem metadata a (VArray None n) \<longleftrightarrow> data_length mem a = n"
| "readable mem metadata a (VArray (Some vs) n) \<longleftrightarrow>
     data_length mem a = n \<and> data_pointer mem a \<noteq> 0 \<and>
     elements_readable mem (array_element_size metadata) (array_element_type metadata) (data_pointer mem a) vs"
| "readable mem metadata a (VStruct vs) \<longleftrightarrow>
     (case metadata of None \<Rightarrow> False | Some m \<Rightarrow> fields_readable mem (tm_struct_fields m) a vs)"
| "readable mem metadata a v \<longleftrightarrow> scalar_stored mem a v"
| "elements_readable mem element_size metadata a [] \<longleftrightarrow> True"
| "elements_readable mem element_size metadata a (v # vs) \<longleftrightarrow>
     readable mem metadata a v \<and> elements_readable mem element_size metadata (a + element_size) vs"
| "fields_readable mem [] a [] \<longleftrightarrow> True"
| "fields_readable mem (f # fs) a (v # vs) \<longleftrightarrow>
     readable mem (sf_type f) (a + sf_offset f) v \<and> fields_readable mem fs a vs"
| "fields_readable mem _ a _ \<longleftrightarrow> False"

text \<open>How many allocations the decoder needs for a value.\<close>

fun value_allocs :: "FacetValue \<Rightarrow> nat" where
  "value_allocs (VString data n) = 1"
| "value_allocs (VArray None n) = 0"
| "value_allocs (VArray (Some vs) n) = Suc (sum_list (map value_allocs vs))"
| "value_allocs (VStruct vs) = sum_list (map value_allocs vs)"
| "value_allocs _ = 0"

lemma scalar_size_le: "codec_type_size type md \<le> 8" if "\<not> unsupported_type type md"
  "type \<notin> {FACET_TYPE_UUID, FACET_TYPE_STRING, FACET_TYPE_ARRAY, FACET_TYPE_STRUCT, FACET_TYPE_ENUM}"
  using that by (cases type) (auto simp: codec_type_size_def effective_type_def)

lemma ucast_take_bit_ucast:
  fixes w :: "'a::len word"
  assumes "LENGTH('a) \<le> 64"
  shows "(ucast (take_bit LENGTH('a) (ucast w :: u64)) :: 'a word) = w"
    and "(ucast (take_bit LENGTH('a) (scast w :: u64)) :: 'a word) = w"
  by (rule bit_word_eqI; use assms in \<open>auto simp: bit_simps\<close>)+

lemma take_bit_u64 [simp]: "take_bit 64 (w :: u64) = w"
  by (rule bit_word_eqI) (simp add: bit_simps)

lemma load_uint_bytes: "mem_bytes mem a n = uint_bytes w n \<Longrightarrow> load mem a n = take_bit (8 * n) w"
  by (simp add: load_def bytes_uint_bytes)

lemma length_mem_bytes [simp]: "length (mem_bytes mem a n) = n"
  by (simp add: mem_bytes_def)

lemma mem_bytes_4: "mem_bytes mem a 4 = mem a # mem_bytes mem (Suc a) 3"
  by (simp add: mem_bytes_def upt_rec numeral_eq_Suc)

lemma load_bool:
  assumes "mem a = char_of (unat (b :: 8 word))" and "b = 0 \<or> b = 1"
    and "b = 0 \<longrightarrow> mem_bytes mem (Suc a) 3 = [CHR 0x00, CHR 0x00, CHR 0x00]"
  shows "load mem a 4 \<noteq> 0 \<longleftrightarrow> b = 1"
proof (cases "b = 0")
  case True
  with assms have "mem_bytes mem a 4 = [CHR 0x00, CHR 0x00, CHR 0x00, CHR 0x00]"
    by (simp add: mem_bytes_4 char_of_eq_iff)
  then show ?thesis using True by (simp add: load_def)
next
  case False
  with assms(1,2) have "mem a = CHR 0x01" by (simp add: char_of_eq_iff)
  then have "bit (load mem a 4) 0" by (simp add: load_def mem_bytes_4 bit_bytes_uint bit_Suc_0_iff del: bytes_uint.simps)
  moreover have "b = 1" using False assms(2) by simp
  ultimately show ?thesis by auto
qed

lemma word_scalar_scalar_word:
  assumes "scalar_has_type type v" and "type \<noteq> FACET_TYPE_UUID" and "scalar_stored mem a v"
  obtains w where "scalar_word mem type a = Inr w"
    and "word_scalar type (take_bit (8 * codec_type_size type md) w) = Inr v"
proof (cases "\<exists>b. v = VBool b")
  case True
  then obtain b where v: "v = VBool b" "type = FACET_TYPE_BOOL" "b = 0 \<or> b = 1"
    using assms(1) by (auto simp: scalar_has_type_def)
  with assms(3) load_bool [of mem a b] have "load mem a 4 \<noteq> 0 \<longleftrightarrow> b = 1" by (simp add: scalar_stored_def)
  with v show ?thesis
    by (intro that [of "if b = 1 then 1 else 0"])
      (auto simp: scalar_word_def word_scalar_def codec_type_size_def effective_type_def)
next
  case False
  then show ?thesis
    using assms that ucast_take_bit_ucast [where 'a = 8] ucast_take_bit_ucast [where 'a = 16]
      ucast_take_bit_ucast [where 'a = 32]
    by (cases v) (auto simp: scalar_has_type_def scalar_word_def word_scalar_def codec_type_size_def
      effective_type_def scalar_stored_def dest!: load_uint_bytes)
qed

lemma reads_decode_scalar:
  assumes "\<not> unsupported_type type md" and "scalar_has_type type v"
    and "scalar_stored mem a v" and "encode_scalar mem type md a c = Inr c'"
  shows "\<exists>bs. cd_data c' = cd_data c @ bs \<and> reads (decode_scalar type md) bs (value_allocs v) v"
proof (cases "type = FACET_TYPE_UUID")
  case True
  then obtain bytes where v: "v = VUuid bytes" "length bytes = 16"
    using assms(2) by (cases v) (auto simp: scalar_has_type_def)
  have "cd_data c' = cd_data c @ bytes"
    using assms(1,3,4) v True by (auto simp: encode_scalar_def scalar_stored_def dest: codec_write_InrD)
  moreover have "reads (decode_scalar type md) bytes 0 v"
    using reads_map [OF reads_codec_read [OF v(2)], of VUuid] True assms(1) v(1)
    by (simp add: reads_def decode_scalar_def)
  ultimately show ?thesis using v by auto
next
  case False
  let ?n = "codec_type_size type md"
  obtain w where w: "scalar_word mem type a = Inr w" "word_scalar type (take_bit (8 * ?n) w) = Inr v"
    using word_scalar_scalar_word [OF assms(2) False assms(3)] by blast
  have n: "?n \<le> 8" and allocs: "value_allocs v = 0"
    using assms(2) False scalar_size_le [OF assms(1)] by (cases v; simp add: scalar_has_type_def)+
  have "cd_data c' = cd_data c @ uint_bytes w ?n"
    using assms(1,4) w(1) False by (auto simp: encode_scalar_def dest: codec_write_uint_InrD)
  moreover have "reads (\<lambda>c. bindE (codec_read_uint c ?n) (\<lambda>(w, c').
      bindE (word_scalar type w) (\<lambda>v. Inr (v, c')))) (uint_bytes w ?n @ []) (0 + 0) v"
    by (rule reads_bind [OF reads_codec_read_uint [OF n]]) (simp add: w(2) reads_return)
  ultimately show ?thesis
    using False assms(1) allocs by (auto simp: reads_def decode_scalar_def)
qed

lemma take_bit_word_of_nat: "n \<le> UINT32_MAX \<Longrightarrow> unat (ucast (take_bit 32 (word_of_nat n :: u64)) :: u32) = n"
  by (simp add: unsigned_ucast_eq unsigned_take_bit_eq unsigned_of_nat take_bit_nat_eq_self_iff)

lemma reads_decode_string:
  assumes "n = length s" and "n \<le> UINT32_MAX" and "readable mem md a (VString (Some s) n)"
    and "encode_string mem a c = Inr c'"
  shows "\<exists>bs. cd_data c' = cd_data c @ bs \<and> reads decode_string bs 1 (VString (Some s) n)"
proof -
  obtain c1 where c1: "codec_write_uint c (word_of_nat n) 4 = Inr c1" "codec_write c1 (Some s) n = Inr c'"
    using assms by (auto simp: encode_string_def error_monad Let_def split: if_splits)
  have "cd_data c' = cd_data c @ uint_bytes (word_of_nat n) 4 @ s"
    using codec_write_uint_InrD [OF c1(1)] codec_write_InrD [OF c1(2) assms(1)] by simp
  moreover have "reads decode_string (uint_bytes (word_of_nat n) 4 @ s) 1 (VString (Some s) n)"
    unfolding reads_def
  proof (intro allI)
    fix pre post cap h
    let ?d = "pre @ (uint_bytes (word_of_nat n) 4 @ s) @ post"
    have "codec_read_uint \<lparr>cd_data = ?d, cd_capacity = cap, cd_offset = length pre, cd_heap = 1 + h\<rparr> 4 =
      Inr (take_bit 32 (word_of_nat n), \<lparr>cd_data = ?d, cd_capacity = cap, cd_offset = length pre + 4, cd_heap = 1 + h\<rparr>)"
      using reads_codec_read_uint [of 4 "word_of_nat n"] unfolding reads_def
      by (auto dest: spec [of _ pre] spec [of _ "s @ post"])
    moreover have "codec_read \<lparr>cd_data = ?d, cd_capacity = cap, cd_offset = length pre + 4, cd_heap = h\<rparr> n =
      Inr (s, \<lparr>cd_data = ?d, cd_capacity = cap, cd_offset = length pre + 4 + n, cd_heap = h\<rparr>)"
      using assms(1) by (simp add: codec_read_def)
    ultimately show "decode_string \<lparr>cd_data = ?d, cd_capacity = cap, cd_offset = length pre, cd_heap = 1 + h\<rparr> =
      Inr (VString (Some s) n, \<lparr>cd_data = ?d, cd_capacity = cap,
        cd_offset = length pre + length (uint_bytes (word_of_nat n) 4 @ s), cd_heap = h\<rparr>)"
      using assms(1) take_bit_word_of_nat [OF assms(2)] by (simp add: decode_string_def alloc_def Let_def)
  qed
  ultimately show ?thesis by blast
qed

lemma reads_decode_count:
  assumes "n \<le> UINT32_MAX" and "n \<noteq> 0 \<Longrightarrow> array_element_size md \<noteq> 0 \<and> n \<le> SIZE_MAX div array_element_size md"
  shows "reads (decode_count md) (uint_bytes (word_of_nat n) 4) (if n = 0 then 0 else 1) n"
proof -
  have "reads (\<lambda>c. bindE (codec_read_uint c 4) (\<lambda>(w, c1).
     let n = unat (ucast w :: u32); element_size = array_element_size md in
     if element_size = 0 \<and> n \<noteq> 0 then Inl FACET_PROTOCOL_ERROR
     else if n \<noteq> 0 \<and> n > SIZE_MAX div element_size then Inl FACET_PROTOCOL_ERROR
     else if n = 0 then Inr (0, c1)
     else bindE (alloc FACET_OUT_OF_MEMORY (cd_heap c1)) (\<lambda>h. Inr (n, c1\<lparr>cd_heap := h\<rparr>))))
     (uint_bytes (word_of_nat n) 4 @ []) (0 + (if n = 0 then 0 else 1)) n"
    by (rule reads_bind [OF reads_codec_read_uint])
      (use assms take_bit_word_of_nat [OF assms(1)] in \<open>auto simp: reads_def alloc_def Let_def\<close>)
  then show ?thesis by (simp add: reads_def decode_count_def)
qed

lemma encode_count_InrD:
  "encode_count md data n c = Inr c' \<Longrightarrow> n \<le> UINT32_MAX \<and> cd_data c' = cd_data c @ uint_bytes (word_of_nat n) 4"
  by (auto simp: encode_count_def Let_def split: if_splits dest: codec_write_uint_InrD)

lemma reads_decode_array:
  assumes "effective_type type md = FACET_TYPE_ARRAY" and "n = length vs" and "0 < n" and "n \<le> UINT32_MAX"
    and "array_element_size md \<noteq> 0" and "n \<le> SIZE_MAX div array_element_size md"
    and "reads (decode_elements n (array_element_kind md) (array_element_type md)) bs k vs"
  shows "reads (decode_value type md) (uint_bytes (word_of_nat n) 4 @ bs) (Suc k) (VArray (Some vs) n)"
proof -
  have "reads (\<lambda>c. bindE (decode_count md c) (\<lambda>(n, c1).
        if n = 0 then Inr (VArray None 0, c1)
        else bindE (decode_elements n (array_element_kind md) (array_element_type md) c1)
               (\<lambda>(vs, c2). Inr (VArray (Some vs) n, c2))))
      (uint_bytes (word_of_nat n) 4 @ bs) ((if n = 0 then 0 else 1) + k) (VArray (Some vs) n)"
    by (rule reads_bind [OF reads_decode_count])
      (use assms reads_map [OF assms(7), of "\<lambda>vs. VArray (Some vs) n"] in simp_all)
  with assms(1,3) show ?thesis by (simp add: reads_def decode_value.simps)
qed

lemma reads_decode_empty:
  assumes "effective_type type md = FACET_TYPE_ARRAY"
  shows "reads (decode_value type md) (uint_bytes 0 4) 0 (VArray None 0)"
proof -
  have "reads (\<lambda>c. bindE (decode_count md c) (\<lambda>(n, c1).
        if n = 0 then Inr (VArray None 0, c1)
        else bindE (decode_elements n (array_element_kind md) (array_element_type md) c1)
               (\<lambda>(vs, c2). Inr (VArray (Some vs) n, c2)))) (uint_bytes 0 4 @ []) (0 + 0) (VArray None 0)"
    by (rule reads_bind [where x = 0]) (use reads_decode_count [of 0 md] in \<open>simp_all add: reads_return\<close>)
  with assms show ?thesis by (simp add: reads_def decode_value.simps)
qed

lemma encode_decode:
  "encode_value mem type md a c = Inr c' \<Longrightarrow> has_type type md v \<Longrightarrow> readable mem md a v \<Longrightarrow>
     \<exists>bs. cd_data c' = cd_data c @ bs \<and> reads (decode_value type md) bs (value_allocs v) v"
  "encode_elements mem n es type md a c = Inr c' \<Longrightarrow> n = length vs \<Longrightarrow> elements_have_type type md vs \<Longrightarrow>
     elements_readable mem es md a vs \<Longrightarrow>
     \<exists>bs. cd_data c' = cd_data c @ bs \<and> reads (decode_elements n type md) bs (sum_list (map value_allocs vs)) vs"
  "encode_fields mem fs a c = Inr c' \<Longrightarrow> fields_have_types fs vs \<Longrightarrow> fields_readable mem fs a vs \<Longrightarrow>
     \<exists>bs. cd_data c' = cd_data c @ bs \<and> reads (decode_fields fs) bs (sum_list (map value_allocs vs)) vs"
proof (induction mem type md a c and mem n es type md a c and mem fs a c
    arbitrary: c' v and c' vs and c' vs rule: encode_value_encode_elements_encode_fields.induct)
  case (1 mem type md a c)
  let ?t = "effective_type type md"
  consider "?t = FACET_TYPE_STRING" | "?t = FACET_TYPE_ARRAY" | "?t = FACET_TYPE_STRUCT"
    | "?t \<notin> {FACET_TYPE_STRING, FACET_TYPE_ARRAY, FACET_TYPE_STRUCT}" by blast
  then show ?case
  proof cases
    case string: 1
    with 1(4) obtain s where v: "v = VString (Some s) (length s)" "length s \<le> UINT32_MAX"
      by (auto simp: has_type.simps split: FacetValue.splits option.splits)
    with 1(3) string reads_decode_string [OF refl v(2) 1(5) [unfolded v(1)]] show ?thesis
      by (fastforce simp: encode_value.simps decode_value.simps reads_def)
  next
    case array: 2
    with 1(4) consider "v = VArray None 0"
      | vs where "v = VArray (Some vs) (length vs)" "0 < length vs" "length vs \<le> UINT32_MAX"
        "array_element_size md \<noteq> 0" "length vs \<le> SIZE_MAX div array_element_size md"
        "elements_have_type (array_element_kind md) (array_element_type md) vs"
      by (auto simp: has_type.simps split: FacetValue.splits option.splits)
    then show ?thesis
    proof cases
      case none: 1
      with 1(3,5) array have "cd_data c' = cd_data c @ uint_bytes 0 4"
        by (auto simp: encode_value.simps error_monad Let_def dest!: encode_count_InrD)
      with none reads_decode_empty [OF array] show ?thesis by auto
    next
      case some: (2 vs)
      let ?p = "data_pointer mem a"
      from some(1) 1(5) have located: "data_length mem a = length vs"
        "elements_readable mem (array_element_size md) (array_element_type md) ?p vs" by simp_all
      with 1(3) array some(2) obtain c1 where c1: "encode_count md ?p (data_length mem a) c = Inr c1"
        "encode_elements mem (data_length mem a) (array_element_size md) (array_element_kind md)
          (array_element_type md) ?p c1 = Inr c'"
        by (auto simp: encode_value.simps error_monad Let_def)
      from 1(1) [OF refl _ array refl refl c1(1) _ c1(2) located(1) some(6) located(2)] array located(1) some(2)
      obtain bs where "cd_data c' = cd_data c1 @ bs"
        "reads (decode_elements (length vs) (array_element_kind md) (array_element_type md)) bs
          (sum_list (map value_allocs vs)) vs" by auto
      with reads_decode_array [OF array refl some(2-5)] encode_count_InrD [OF c1(1)] some(1) located(1)
      show ?thesis by auto
    qed
  next
    case struct: 3
    with 1(4) obtain m vs where m: "md = Some m" "v = VStruct vs" "fields_have_types (tm_struct_fields m) vs"
      by (cases v; cases md) (auto simp: has_type.simps)
    with 1(3,5) struct have "encode_fields mem (tm_struct_fields m) a c = Inr c'"
      "fields_readable mem (tm_struct_fields m) a vs" by (simp_all add: encode_value.simps)
    with 1(2) [OF refl _ _ struct m(1) _ m(3)] struct
    obtain bs where bs: "cd_data c' = cd_data c @ bs"
      "reads (decode_fields (tm_struct_fields m)) bs (sum_list (map value_allocs vs)) vs" by auto
    from reads_map [OF bs(2), of VStruct] struct m(1) have "reads (decode_value type md) bs (sum_list (map value_allocs vs)) (VStruct vs)"
      by (simp add: reads_def decode_value.simps)
    with bs(1) m(2) show ?thesis by auto
  next
    case scalar: 4
    with 1(3,4) have s: "encode_scalar mem ?t md a c = Inr c'" "\<not> unsupported_type ?t md" "scalar_has_type ?t v"
      by (auto simp: encode_value.simps has_type.simps Let_def)
    with 1(5) have "scalar_stored mem a v" by (cases v) (auto simp: scalar_has_type_def)
    with s reads_decode_scalar [of ?t md v mem a c c'] scalar show ?thesis
      by (fastforce simp: reads_def decode_value.simps Let_def)
  qed
next
  case (3 mem n es type md a c)
  then obtain v vs' where vs: "vs = v # vs'" "n = length vs'" by (cases vs) auto
  from 3(3) obtain c1 where c1: "encode_value mem type md a c = Inr c1"
    "encode_elements mem n es type md (a + es) c1 = Inr c'" by (auto simp: error_monad)
  from 3(4-6) vs have v: "has_type type md v" "readable mem md a v" "elements_have_type type md vs'"
    "elements_readable mem es md (a + es) vs'" by simp_all
  from 3(1) [OF c1(1) v(1,2)] 3(2) [OF c1 vs(2) v(3,4)]
  obtain as bs where "cd_data c1 = cd_data c @ as" "reads (decode_value type md) as (value_allocs v) v"
    "cd_data c' = cd_data c1 @ bs" "reads (decode_elements n type md) bs (sum_list (map value_allocs vs')) vs'"
    by blast
  with reads_bind [of "decode_value type md" as "value_allocs v" v
      "\<lambda>v c1. bindE (decode_elements n type md c1) (\<lambda>(vs, c2). Inr (v # vs, c2))" bs _ "v # vs'",
      OF _ reads_map] vs
  show ?case by (auto simp: reads_def)
next
  case (5 mem f fs a c)
  then obtain v vs' where vs: "vs = v # vs'" by (cases vs) auto
  from 5(3) obtain c1 where c1: "encode_value mem (sf_kind f) (sf_type f) (a + sf_offset f) c = Inr c1"
    "encode_fields mem fs a c1 = Inr c'" by (auto simp: error_monad)
  from 5(4,5) vs have v: "has_type (sf_kind f) (sf_type f) v" "readable mem (sf_type f) (a + sf_offset f) v"
    "fields_have_types fs vs'" "fields_readable mem fs a vs'" by simp_all
  from 5(1) [OF c1(1) v(1,2)] 5(2) [OF c1 v(3,4)]
  obtain as bs where "cd_data c1 = cd_data c @ as" "reads (decode_value (sf_kind f) (sf_type f)) as (value_allocs v) v"
    "cd_data c' = cd_data c1 @ bs" "reads (decode_fields fs) bs (sum_list (map value_allocs vs')) vs'"
    by blast
  with reads_bind [of "decode_value (sf_kind f) (sf_type f)" as "value_allocs v" v
      "\<lambda>v c1. bindE (decode_fields fs c1) (\<lambda>(vs, c2). Inr (v # vs, c2))" bs _ "v # vs'",
      OF _ reads_map] vs
  show ?case by (auto simp: reads_def)
qed (auto simp: reads_def elim: fields_have_types.elims)

section \<open>The decoder on arbitrary bytes\<close>

text \<open>\<open>within c c'\<close>: the payload is unchanged and the read offset moved forward inside it.\<close>

definition within :: "FacetRpcCodec \<Rightarrow> FacetRpcCodec \<Rightarrow> bool" where
  "within c c' \<longleftrightarrow> cd_data c' = cd_data c \<and> cd_offset c \<le> cd_offset c' \<and> cd_offset c' \<le> cd_size c"

lemma within_trans: "within c c1 \<Longrightarrow> within c1 c2 \<Longrightarrow> within c c2"
  by (auto simp: within_def)

lemma codec_read_within: "codec_read c n = Inr (bs, c') \<Longrightarrow> within c c' \<and> length bs = n"
  by (auto simp: codec_read_def within_def split: if_splits)

lemma codec_read_uint_within: "codec_read_uint c n = Inr (w, c') \<Longrightarrow> within c c'"
  by (auto simp: codec_read_uint_def error_monad split: if_splits dest: codec_read_within)

lemma decode_scalar_safe:
  assumes "decode_scalar type md c = Inr (v, c')"
  shows "within c c'" and "\<not> unsupported_type type md" and "scalar_has_type type v"
  using assms
  by (auto simp: decode_scalar_def error_monad word_scalar_def scalar_has_type_def
      split: if_splits FacetType.splits dest: codec_read_within codec_read_uint_within)

lemma unat_u32_le: "unat (w :: u32) \<le> UINT32_MAX"
proof -
  have "unat w < 2 ^ LENGTH(32)" by (rule unsigned_less)
  then show ?thesis by simp
qed

lemma decode_string_safe:
  assumes "decode_string c = Inr (v, c')"
  obtains s where "v = VString (Some s) (length s)" and "length s \<le> UINT32_MAX" and "within c c'"
proof -
  obtain w c1 h bs where r: "codec_read_uint c 4 = Inr (w, c1)"
    "codec_read (c1\<lparr>cd_heap := h\<rparr>) (unat (ucast w :: u32)) = Inr (bs, c')"
    "v = VString (Some bs) (unat (ucast w :: u32))"
    using assms by (auto simp: decode_string_def Let_def error_monad split: sum.splits prod.splits if_splits)
  have "unat (ucast w :: u32) \<le> UINT32_MAX" using unat_u32_le by simp
  with r codec_read_within [OF r(2)] codec_read_uint_within [OF r(1)] show ?thesis
    by (intro that [of bs]) (auto simp: within_def)
qed

lemma decode_count_safe:
  assumes "decode_count md c = Inr (n, c')"
  shows "within c c'" and "n \<le> UINT32_MAX"
    and "n \<noteq> 0 \<Longrightarrow> array_element_size md \<noteq> 0 \<and> n \<le> SIZE_MAX div array_element_size md"
proof -
  obtain w c1 where r: "codec_read_uint c 4 = Inr (w, c1)" "n = unat (ucast w :: u32) \<or> n = 0"
    "\<exists>h. c' = c1 \<or> c' = c1\<lparr>cd_heap := h\<rparr>"
    using assms by (auto simp: decode_count_def error_monad Let_def split: if_splits)
  have "unat (ucast w :: u32) \<le> UINT32_MAX" using unat_u32_le by simp
  with r show "within c c'" "n \<le> UINT32_MAX" by (auto simp: within_def dest!: codec_read_uint_within)
  show "n \<noteq> 0 \<Longrightarrow> array_element_size md \<noteq> 0 \<and> n \<le> SIZE_MAX div array_element_size md"
    using assms by (auto simp: decode_count_def error_monad Let_def split: if_splits)
qed

lemma decode_safe:
  "decode_value type md c = Inr (v, c') \<Longrightarrow> cd_offset c \<le> cd_size c \<Longrightarrow> has_type type md v \<and> within c c'"
  "decode_elements n type md c = Inr (vs, c') \<Longrightarrow> cd_offset c \<le> cd_size c \<Longrightarrow>
     elements_have_type type md vs \<and> length vs = n \<and> within c c'"
  "decode_fields fs c = Inr (vs, c') \<Longrightarrow> cd_offset c \<le> cd_size c \<Longrightarrow> fields_have_types fs vs \<and> within c c'"
proof (induction type md c and n type md c and fs c arbitrary: v c' and vs c' and vs c'
    rule: decode_value_decode_elements_decode_fields.induct)
  case (1 type md c)
  let ?t = "effective_type type md"
  consider "?t = FACET_TYPE_STRING" | "?t = FACET_TYPE_ARRAY" | "?t = FACET_TYPE_STRUCT"
    | "?t \<notin> {FACET_TYPE_STRING, FACET_TYPE_ARRAY, FACET_TYPE_STRUCT}" by blast
  then show ?case
  proof cases
    case string: 1
    with 1(3) have "decode_string c = Inr (v, c')" by (simp add: decode_value.simps)
    with string show ?thesis by (elim decode_string_safe) (simp add: has_type.simps)
  next
    case array: 2
    with 1(3) obtain n c1 where n: "decode_count md c = Inr (n, c1)" by (auto simp: decode_value.simps error_monad)
    note safe = decode_count_safe [OF n]
    show ?thesis
    proof (cases "n = 0")
      case True
      with 1(3) array n safe(1) show ?thesis by (auto simp: decode_value.simps has_type.simps)
    next
      case False
      with 1(3) array n obtain vs where vs: "v = VArray (Some vs) n"
        "decode_elements n (array_element_kind md) (array_element_type md) c1 = Inr (vs, c')"
        by (auto simp: decode_value.simps error_monad)
      have "cd_offset c1 \<le> cd_size c1" using safe(1) by (simp add: within_def)
      with 1(1) [OF refl _ array n refl False vs(2)] array
      have "elements_have_type (array_element_kind md) (array_element_type md) vs" "length vs = n" "within c1 c'"
        by simp_all
      with array vs(1) safe(2,3) False within_trans [OF safe(1)] show ?thesis by (simp add: has_type.simps)
    qed
  next
    case struct: 3
    with 1(3) obtain m vs where m: "md = Some m" "v = VStruct vs" "decode_fields (tm_struct_fields m) c = Inr (vs, c')"
      by (cases md) (auto simp: decode_value.simps error_monad)
    with 1(2) [OF refl _ _ struct m(1) m(3) 1(4)] struct show ?thesis by (simp add: has_type.simps)
  next
    case scalar: 4
    with 1(3) have "decode_scalar ?t md c = Inr (v, c')" by (simp add: decode_value.simps Let_def)
    with decode_scalar_safe scalar show ?thesis by (simp add: has_type.simps Let_def)
  qed
next
  case (3 n type md c)
  then obtain v c1 vs' where s: "decode_value type md c = Inr (v, c1)" "decode_elements n type md c1 = Inr (vs', c')" "vs = v # vs'"
    by (auto simp: error_monad)
  with 3 have v: "has_type type md v" "within c c1" by blast+
  then have "cd_offset c1 \<le> cd_size c1" by (simp add: within_def)
  then have "elements_have_type type md vs' \<and> length vs' = n \<and> within c1 c'" by (rule 3(2) [OF s(1) refl s(2)])
  with s(3) v show ?case by (auto intro: within_trans)
next
  case (5 f fs c)
  then obtain v c1 vs' where s: "decode_value (sf_kind f) (sf_type f) c = Inr (v, c1)" "decode_fields fs c1 = Inr (vs', c')" "vs = v # vs'"
    by (auto simp: error_monad)
  with 5 have v: "has_type (sf_kind f) (sf_type f) v" "within c c1" by blast+
  then have "cd_offset c1 \<le> cd_size c1" by (simp add: within_def)
  then have "fields_have_types fs vs' \<and> within c1 c'" by (rule 5(2) [OF s(1) refl s(2)])
  with s(3) v show ?case by (auto intro: within_trans)
qed (auto simp: within_def)

section \<open>Properties\<close>

text \<open>
  A structure of the kind interface definitions use: a string, a 16-bit number,
  a bool and an array of 32-bit numbers.
\<close>

definition sample_meta :: FacetTypeMeta where
  "sample_meta = FacetTypeMeta FACET_TYPE_STRUCT FACET_TYPE_STRUCT 40 None FACET_TYPE_BYTES
     [(FACET_TYPE_STRING, None, 0), (FACET_TYPE_I16, None, 16), (FACET_TYPE_BOOL, None, 18),
      (FACET_TYPE_ARRAY, Some (FacetTypeMeta FACET_TYPE_ARRAY FACET_TYPE_ARRAY 16 None FACET_TYPE_U32 []), 24)]"

definition sample_value :: FacetValue where
  "sample_value = VStruct [VString (Some ''ab'') 2, VI16 0xFFFE, VBool 1, VArray (Some [VU32 7, VU32 0x01020304]) 2]"

definition sample_codec :: FacetRpcCodec where
  "sample_codec = \<lparr>cd_data = ''x'', cd_capacity = 256, cd_offset = 0, cd_heap = 3\<rparr>"

definition sample_encoding :: string where
  "sample_encoding = [CHR 0x02, CHR 0x00, CHR 0x00, CHR 0x00, CHR ''a'', CHR ''b'', CHR 0xFE, CHR 0xFF, CHR 0x01,
     CHR 0x02, CHR 0x00, CHR 0x00, CHR 0x00, CHR 0x07, CHR 0x00, CHR 0x00, CHR 0x00, CHR 0x04, CHR 0x03, CHR 0x02, CHR 0x01]"

text \<open>The structure at address 0, its string at 64 and its array at 80.\<close>

definition sample_image :: string where
  "sample_image =
     [CHR 0x40, CHR 0x00, CHR 0x00, CHR 0x00, CHR 0x00, CHR 0x00, CHR 0x00, CHR 0x00,
      CHR 0x02, CHR 0x00, CHR 0x00, CHR 0x00, CHR 0x00, CHR 0x00, CHR 0x00, CHR 0x00,
      CHR 0xFE, CHR 0xFF, CHR 0x01, CHR 0x00, CHR 0x00, CHR 0x00, CHR 0x00, CHR 0x00,
      CHR 0x50, CHR 0x00, CHR 0x00, CHR 0x00, CHR 0x00, CHR 0x00, CHR 0x00, CHR 0x00,
      CHR 0x02, CHR 0x00, CHR 0x00, CHR 0x00, CHR 0x00, CHR 0x00, CHR 0x00, CHR 0x00]"

definition sample_memory :: memory where
  "sample_memory a =
     (if a < 40 then sample_image ! a
      else if 64 \<le> a \<and> a < 66 then ''ab'' ! (a - 64)
      else if 80 \<le> a \<and> a < 88 then
        [CHR 0x07, CHR 0x00, CHR 0x00, CHR 0x00, CHR 0x04, CHR 0x03, CHR 0x02, CHR 0x01] ! (a - 80)
      else CHR 0x00)"

lemmas codec_eval =
  encode_value.simps decode_value.simps has_type.simps encode_string_def encode_scalar_def unsupported_type_def codec_type_size_def effective_type_def
  scalar_word_def encode_count_def array_element_size_def array_element_kind_def array_element_type_def
  scalar_has_type_def Let_def

lemma uint_bytes_eval:
  "uint_bytes v 1 = [char_of (unat v)]"
  "uint_bytes v (Suc 0) = [char_of (unat v)]"
  "uint_bytes v 2 = [char_of (unat v), char_of (unat (drop_bit 8 v))]"
  "uint_bytes v 4 = [char_of (unat v), char_of (unat (drop_bit 8 v)), char_of (unat (drop_bit 16 v)),
     char_of (unat (drop_bit 24 v))]"
  by (simp_all add: uint_bytes_def upt_rec numeral_eq_Suc)

lemma mem_bytes_eval:
  "mem_bytes mem a 1 = [mem a]"
  "mem_bytes mem a (Suc 0) = [mem a]"
  "mem_bytes mem a 2 = [mem a, mem (a + 1)]"
  "mem_bytes mem a 4 = [mem a, mem (a + 1), mem (a + 2), mem (a + 3)]"
  "mem_bytes mem a 8 = [mem a, mem (a + 1), mem (a + 2), mem (a + 3), mem (a + 4), mem (a + 5), mem (a + 6), mem (a + 7)]"
  by (simp_all add: mem_bytes_def upt_rec numeral_eq_Suc)

lemma encode_two:
  "encode_elements mem 2 n type md a c = bindE (encode_value mem type md a c) (encode_value mem type md (a + n))"
  by (simp add: numeral_2_eq_2 bindE_def split: sum.split)

lemma sample_value_typed: "has_type FACET_TYPE_STRUCT (Some sample_meta) sample_value"
  by (simp add: sample_meta_def sample_value_def codec_eval)

lemmas sample_layout = data_pointer_def data_length_def load_def mem_bytes_eval sample_memory_def sample_image_def

lemma sample_fields:
  "data_pointer sample_memory 0 = 64" "data_length sample_memory 0 = 2"
  "data_pointer sample_memory 24 = 80" "data_length sample_memory 24 = 2"
  "mem_bytes sample_memory 64 2 = ''ab''"
  "mem_bytes sample_memory 16 2 = [CHR 0xFE, CHR 0xFF]"
  "sample_memory 18 = CHR 0x01"
  "mem_bytes sample_memory 18 4 = [CHR 0x01, CHR 0x00, CHR 0x00, CHR 0x00]"
  "mem_bytes sample_memory 80 4 = [CHR 0x07, CHR 0x00, CHR 0x00, CHR 0x00]"
  "mem_bytes sample_memory 84 4 = [CHR 0x04, CHR 0x03, CHR 0x02, CHR 0x01]"
  by (simp_all add: sample_layout)

lemma sample_value_readable: "readable sample_memory (Some sample_meta) 0 sample_value"
  by (simp add: sample_meta_def sample_value_def sample_fields scalar_stored_def uint_bytes_eval
      array_element_size_def array_element_kind_def array_element_type_def codec_type_size_def
      effective_type_def char_of_def bit_0)

lemma sample_value_encodes:
  "facet_rpc_encode_value sample_memory FACET_TYPE_STRUCT (Some sample_meta) 0 sample_codec =
     Inr (sample_codec\<lparr>cd_data := ''x'' @ sample_encoding\<rparr>)"
  by (simp add: facet_rpc_encode_value_def sample_meta_def sample_codec_def
      sample_encoding_def codec_eval codec_write_uint_def codec_write_def uint_bytes_eval encode_two
      sample_fields load_def char_of_eq_iff)

text \<open>
  C11. RPC values survive the wire.  Let a value of its type lie in memory at an
  address, every false bool of it with three zero bytes behind it (the encoder
  reads a bool as an int).  If facet_rpc_encode_value accepts it, it appends some
  bytes to the payload and keeps what was there, and facet_rpc_decode_value,
  wherever it meets these bytes in a payload and with the memory for the value's
  strings and arrays, returns the same value and stops right behind them.
\<close>

theorem rpc_value_roundtrip:
  assumes "has_type type metadata v" and "readable mem metadata a v"
    and "facet_rpc_encode_value mem type metadata a c = Inr c'"
  shows "\<exists>bs. cd_data c' = cd_data c @ bs \<and>
     (\<forall>pre post cap h. facet_rpc_decode_value type metadata
        \<lparr>cd_data = pre @ bs @ post, cd_capacity = cap, cd_offset = length pre, cd_heap = value_allocs v + h\<rparr> =
      Inr (v, \<lparr>cd_data = pre @ bs @ post, cd_capacity = cap, cd_offset = length pre + length bs, cd_heap = h\<rparr>))"
  using encode_decode(1) [OF assms(3) [unfolded facet_rpc_encode_value_def] assms(1,2)]
  by (simp add: reads_def facet_rpc_decode_value_def)

theorem rpc_value_roundtrip_witness:
  "has_type FACET_TYPE_STRUCT (Some sample_meta) sample_value \<and>
   readable sample_memory (Some sample_meta) 0 sample_value \<and>
   facet_rpc_encode_value sample_memory FACET_TYPE_STRUCT (Some sample_meta) 0 sample_codec =
     Inr (sample_codec\<lparr>cd_data := ''x'' @ sample_encoding\<rparr>) \<and>
   facet_rpc_decode_value FACET_TYPE_STRUCT (Some sample_meta)
     \<lparr>cd_data = sample_encoding, cd_capacity = 21, cd_offset = 0, cd_heap = 2\<rparr> =
   Inr (sample_value, \<lparr>cd_data = sample_encoding, cd_capacity = 21, cd_offset = 21, cd_heap = 0\<rparr>)"
proof -
  have "value_allocs sample_value = 2" by (simp add: sample_value_def)
  moreover have "length sample_encoding = 21" by (simp add: sample_encoding_def)
  moreover obtain bs where bs: "''x'' @ sample_encoding = cd_data sample_codec @ bs"
    and restored: "\<And>pre post cap h. facet_rpc_decode_value FACET_TYPE_STRUCT (Some sample_meta)
        \<lparr>cd_data = pre @ bs @ post, cd_capacity = cap, cd_offset = length pre, cd_heap = value_allocs sample_value + h\<rparr> =
      Inr (sample_value, \<lparr>cd_data = pre @ bs @ post, cd_capacity = cap, cd_offset = length pre + length bs, cd_heap = h\<rparr>)"
    using rpc_value_roundtrip [OF sample_value_typed sample_value_readable sample_value_encodes] by auto
  moreover have "bs = sample_encoding" using bs by (simp add: sample_codec_def)
  ultimately show ?thesis
    using sample_value_typed sample_value_readable sample_value_encodes restored [of "[]" "[]" 21 0] by simp
qed

text \<open>
  C12. The RPC decoder is safe on every payload.  Whatever bytes a peer sends,
  facet_rpc_decode_value returns; if it accepts, the value has the type that the
  metadata states (bools are 0 or 1, lengths agree with the data), the payload is
  unchanged, and the read offset has moved forward and stays inside the payload.
\<close>

theorem rpc_decode_safe:
  assumes "facet_rpc_decode_value type metadata c = Inr (v, c')" and "cd_offset c \<le> cd_size c"
  shows "has_type type metadata v \<and> cd_data c' = cd_data c \<and>
     cd_offset c \<le> cd_offset c' \<and> cd_offset c' \<le> cd_size c'"
  using decode_safe(1) [OF assms(1) [unfolded facet_rpc_decode_value_def] assms(2)]
  by (auto simp: within_def)

theorem rpc_decode_safe_witness:
  "facet_rpc_decode_value FACET_TYPE_BOOL None
     \<lparr>cd_data = ''abc'', cd_capacity = 3, cd_offset = 1, cd_heap = 0\<rparr> =
   Inr (VBool 1, \<lparr>cd_data = ''abc'', cd_capacity = 3, cd_offset = 2, cd_heap = 0\<rparr>) \<and>
   has_type FACET_TYPE_BOOL None (VBool 1)"
proof -
  have d: "facet_rpc_decode_value FACET_TYPE_BOOL None
     \<lparr>cd_data = ''abc'', cd_capacity = 3, cd_offset = 1, cd_heap = 0\<rparr> =
   Inr (VBool 1, \<lparr>cd_data = ''abc'', cd_capacity = 3, cd_offset = 2, cd_heap = 0\<rparr>)"
    by (simp add: facet_rpc_decode_value_def decode_scalar_def codec_read_uint_def codec_read_def
        word_scalar_def codec_eval)
  with rpc_decode_safe [OF d] show ?thesis by simp
qed

lemma encode_bool:
  "encode_value mem FACET_TYPE_BOOL None a c = codec_write_uint c (if load mem a 4 \<noteq> 0 then 1 else 0) 1"
  by (simp add: encode_value.simps encode_scalar_def unsupported_type_def codec_type_size_def effective_type_def
      scalar_word_def)

text \<open>
  The encoder reads a bool as an int: two adjacent bools, false and true, are sent
  as true and true.
\<close>

lemma adjacent_bools_encoded:
  assumes "mem a = CHR 0x00" and "mem (Suc a) = CHR 0x01"
    and "encode_elements mem 2 1 FACET_TYPE_BOOL None a c = Inr c'"
  shows "cd_data c' = cd_data c @ uint_bytes 1 1 @ uint_bytes 1 1"
proof -
  have "bit (load mem a 4) 8" "bit (load mem (Suc a) 4) 0"
    using assms(1,2) by (simp_all add: load_def bit_bytes_uint mem_bytes_def bit_Suc_0_iff)
  then have "load mem a 4 \<noteq> 0" "load mem (Suc a) 4 \<noteq> 0" by auto
  with assms(3) obtain c1 where "codec_write_uint c 1 1 = Inr c1" "codec_write_uint c1 1 1 = Inr c'"
    by (auto simp: encode_two encode_bool error_monad)
  then show ?thesis by (auto dest!: codec_write_uint_InrD)
qed


end
