(* ===== verification/Rpc.thy ===== *)
theory Rpc
  imports RpcCodec
begin

text \<open>
  The message layer of libfacet/src/common/runtime.c: how a client proxy packs
  the arguments of a call into words, attachments and an encoded payload, how it
  unpacks the reply, the dispatcher on the server side, and the registry of
  interface metadata.

  The platform is a parameter: a call maps the request to a reply or an error,
  and releasing a handle is recorded in a list.  A call's result code is the
  32-bit integer that came over the wire.  Pointer arguments are not NULL: an
  argument is the address of its object and the scalar, handle or uuid found
  there; strings, arrays and structures are read from memory by the encoder.
\<close>

section \<open>Messages\<close>

abbreviation FACET_RPC_PROTOCOL_VERSION :: u32 where "FACET_RPC_PROTOCOL_VERSION \<equiv> 1"
abbreviation FACET_RPC_MAX_WORDS :: nat where "FACET_RPC_MAX_WORDS \<equiv> 64"
abbreviation FACET_RPC_MAX_ATTACHMENTS :: nat where "FACET_RPC_MAX_ATTACHMENTS \<equiv> 8"

datatype FacetParamDirection = FACET_PARAM_IN | FACET_PARAM_OUT | FACET_PARAM_INOUT

datatype FacetRpcAttachmentKind = FACET_RPC_ATTACHMENT_HANDLE | FACET_RPC_ATTACHMENT_BUFFER

record FacetRpcAttachment =
  ra_kind :: FacetRpcAttachmentKind
  ra_handle :: FacetHandle

record FacetParamMeta =
  pm_type :: FacetType
  pm_direction :: FacetParamDirection
  pm_type_metadata :: "FacetTypeMeta option"

record FacetMethodMeta =
  mm_method_id :: u32
  mm_parameters :: "FacetParamMeta list"

text \<open>The payload is NULL or a buffer and its capacity.\<close>

record FacetRpcMessage =
  rm_protocol_version :: u32
  rm_method_id :: u32
  rm_flags :: u32
  rm_words :: "u64 list"
  rm_payload :: "(string \<times> nat) option"
  rm_attachments :: "FacetRpcAttachment list"

section \<open>Packing arguments\<close>

type_synonym FacetArgument = "nat \<times> FacetValue"

definition append_word :: "FacetRpcMessage \<Rightarrow> u64 \<Rightarrow> FacetRpcMessage option" where
  "append_word m w =
     (if length (rm_words m) \<ge> FACET_RPC_MAX_WORDS then None
      else Some (m\<lparr>rm_words := rm_words m @ [w]\<rparr>))"

definition append_words2 :: "FacetRpcMessage \<Rightarrow> u64 \<Rightarrow> u64 \<Rightarrow> FacetRpcMessage option" where
  "append_words2 m w1 w2 = Option.bind (append_word m w1) (\<lambda>m'. append_word m' w2)"

definition append_handle :: "FacetRpcMessage \<Rightarrow> FacetHandle \<Rightarrow> FacetRpcMessage option" where
  "append_handle m h =
     (if length (rm_attachments m) \<ge> FACET_RPC_MAX_ATTACHMENTS then None
      else Some (m\<lparr>rm_attachments :=
             rm_attachments m @ [\<lparr>ra_kind = FACET_RPC_ATTACHMENT_HANDLE, ra_handle = h\<rparr>]\<rparr>))"

definition compound_type :: "FacetType \<Rightarrow> bool" where
  "compound_type type \<longleftrightarrow> type \<in> {FACET_TYPE_STRING, FACET_TYPE_ARRAY, FACET_TYPE_STRUCT}"

definition message_codec :: "heap \<Rightarrow> FacetRpcMessage \<Rightarrow> FacetRpcCodec facet" where
  "message_codec h m =
     (case rm_payload m of
        None \<Rightarrow> facet_rpc_codec_init h 256
      | Some (data, capacity) \<Rightarrow>
          Inr \<lparr>cd_data = data, cd_capacity = capacity, cd_offset = 0, cd_heap = h\<rparr>)"

text \<open>Strings, arrays and structures are encoded behind what the payload already holds.\<close>

definition append_compound :: "memory \<Rightarrow> FacetParamMeta \<Rightarrow> nat \<Rightarrow> FacetRpcMessage \<times> heap \<Rightarrow> (FacetRpcMessage \<times> heap) option" where
  "append_compound mem parameter a s =
     (case bindE (message_codec (snd s) (fst s))
             (facet_rpc_encode_value mem (pm_type parameter) (pm_type_metadata parameter) a) of
        Inl _ \<Rightarrow> None
      | Inr codec \<Rightarrow>
          Some ((fst s)\<lparr>rm_payload := Some (cd_data codec, cd_capacity codec)\<rparr>, cd_heap codec))"

text \<open>The two halves of a 16-byte uuid, read as little-endian words.\<close>

definition uuid_words :: "string \<Rightarrow> u64 \<times> u64" where
  "uuid_words bytes = (bytes_uint 0 0 (take 8 bytes), bytes_uint 0 0 (take 8 (drop 8 bytes)))"

text \<open>
  An argument behind a pointer (inout) and an argument passed by value differ:
  by value, the small unsigned types and enumerations arrive as an int and are
  widened without sign, while an inout enumeration is widened with its sign.
\<close>

definition append_input_value :: "memory \<Rightarrow> FacetParamMeta \<Rightarrow> FacetArgument \<Rightarrow> FacetRpcMessage \<times> heap \<Rightarrow> (FacetRpcMessage \<times> heap) option" where
  "append_input_value mem parameter arg s =
     (if compound_type (pm_type parameter) then append_compound mem parameter (fst arg) s
      else map_option (\<lambda>m. (m, snd s))
        (case (pm_type parameter, snd arg) of
           (FACET_TYPE_HANDLE, VHandle h) \<Rightarrow> append_handle (fst s) h
         | (FACET_TYPE_U8, VU8 w) \<Rightarrow> append_word (fst s) (ucast w)
         | (FACET_TYPE_U16, VU16 w) \<Rightarrow> append_word (fst s) (ucast w)
         | (FACET_TYPE_U32, VU32 w) \<Rightarrow> append_word (fst s) (ucast w)
         | (FACET_TYPE_BOOL, VBool b) \<Rightarrow> append_word (fst s) (if b \<noteq> 0 then 1 else 0)
         | (FACET_TYPE_ENUM, VI32 w) \<Rightarrow> append_word (fst s) (scast w)
         | (FACET_TYPE_U64, VU64 w) \<Rightarrow> append_word (fst s) w
         | (FACET_TYPE_I8, VI8 w) \<Rightarrow> append_word (fst s) (scast w)
         | (FACET_TYPE_I16, VI16 w) \<Rightarrow> append_word (fst s) (scast w)
         | (FACET_TYPE_I32, VI32 w) \<Rightarrow> append_word (fst s) (scast w)
         | (FACET_TYPE_I64, VI64 w) \<Rightarrow> append_word (fst s) w
         | (FACET_TYPE_UUID, VUuid bytes) \<Rightarrow>
             append_words2 (fst s) (fst (uuid_words bytes)) (snd (uuid_words bytes))
         | (FACET_TYPE_LOCAL_PTR, VLocalPtr w) \<Rightarrow> append_word (fst s) w
         | _ \<Rightarrow> None))"

definition append_input :: "memory \<Rightarrow> FacetParamMeta \<Rightarrow> FacetArgument \<Rightarrow> FacetRpcMessage \<times> heap \<Rightarrow> (FacetRpcMessage \<times> heap) option" where
  "append_input mem parameter arg s =
     (if compound_type (pm_type parameter) then append_compound mem parameter (fst arg) s
      else map_option (\<lambda>m. (m, snd s))
        (case (pm_type parameter, snd arg) of
           (FACET_TYPE_HANDLE, VHandle h) \<Rightarrow> append_handle (fst s) h
         | (FACET_TYPE_U8, VU8 w) \<Rightarrow> append_word (fst s) (ucast (ucast w :: u32))
         | (FACET_TYPE_U16, VU16 w) \<Rightarrow> append_word (fst s) (ucast (ucast w :: u32))
         | (FACET_TYPE_U32, VU32 w) \<Rightarrow> append_word (fst s) (ucast w)
         | (FACET_TYPE_BOOL, VBool b) \<Rightarrow> append_word (fst s) (ucast (ucast b :: u32))
         | (FACET_TYPE_U64, VU64 w) \<Rightarrow> append_word (fst s) w
         | (FACET_TYPE_I8, VI8 w) \<Rightarrow> append_word (fst s) (scast (scast w :: u32))
         | (FACET_TYPE_I16, VI16 w) \<Rightarrow> append_word (fst s) (scast (scast w :: u32))
         | (FACET_TYPE_I32, VI32 w) \<Rightarrow> append_word (fst s) (scast w)
         | (FACET_TYPE_I64, VI64 w) \<Rightarrow> append_word (fst s) w
         | (FACET_TYPE_ENUM, VI32 w) \<Rightarrow> append_word (fst s) (ucast w)
         | (FACET_TYPE_UUID, VUuid bytes) \<Rightarrow>
             append_words2 (fst s) (fst (uuid_words bytes)) (snd (uuid_words bytes))
         | _ \<Rightarrow> None))"

section \<open>Unpacking a reply\<close>

record ReplyCursor =
  rc_index :: nat
  rc_handle_index :: nat
  rc_codec :: FacetRpcCodec

definition word_output :: "FacetType \<Rightarrow> u64 \<Rightarrow> FacetValue option" where
  "word_output type w =
     (case type of
        FACET_TYPE_U8 \<Rightarrow> Some (VU8 (ucast w))
      | FACET_TYPE_U16 \<Rightarrow> Some (VU16 (ucast w))
      | FACET_TYPE_U32 \<Rightarrow> Some (VU32 (ucast w))
      | FACET_TYPE_U64 \<Rightarrow> Some (VU64 w)
      | FACET_TYPE_I8 \<Rightarrow> Some (VI8 (ucast w))
      | FACET_TYPE_I16 \<Rightarrow> Some (VI16 (ucast w))
      | FACET_TYPE_I32 \<Rightarrow> Some (VI32 (ucast w))
      | FACET_TYPE_I64 \<Rightarrow> Some (VI64 w)
      | FACET_TYPE_ENUM \<Rightarrow> Some (VI32 (ucast w))
      | FACET_TYPE_BOOL \<Rightarrow> Some (VBool (if w \<noteq> 0 then 1 else 0))
      | FACET_TYPE_LOCAL_PTR \<Rightarrow> Some (VLocalPtr w)
      | _ \<Rightarrow> None)"

definition assign_output :: "FacetParamMeta \<Rightarrow> FacetRpcMessage \<Rightarrow> ReplyCursor \<Rightarrow> (FacetValue \<times> ReplyCursor) option" where
  "assign_output parameter reply s =
     (let type = pm_type parameter; words = rm_words reply; i = rc_index s in
      if type = FACET_TYPE_HANDLE then
        (let k = rc_handle_index s in
         if k \<ge> length (rm_attachments reply) then None
         else if ra_kind (rm_attachments reply ! k) \<noteq> FACET_RPC_ATTACHMENT_HANDLE then None
         else Some (VHandle (ra_handle (rm_attachments reply ! k)), s\<lparr>rc_handle_index := k + 1\<rparr>))
      else if compound_type type then
        (case facet_rpc_decode_value type (pm_type_metadata parameter) (rc_codec s) of
           Inl _ \<Rightarrow> None
         | Inr (v, codec) \<Rightarrow> Some (v, s\<lparr>rc_codec := codec\<rparr>))
      else if type = FACET_TYPE_UUID then
        (if i > length words \<or> length words - i < 2 then None
         else Some (VUuid (uint_bytes (words ! i) 8 @ uint_bytes (words ! (i + 1)) 8),
                    s\<lparr>rc_index := i + 2\<rparr>))
      else if i \<ge> length words then None
      else map_option (\<lambda>v. (v, s\<lparr>rc_index := i + 1\<rparr>)) (word_output type (words ! i)))"

fun assign_outputs :: "FacetParamMeta list \<Rightarrow> FacetRpcMessage \<Rightarrow> ReplyCursor \<Rightarrow> FacetValue list option" where
  "assign_outputs [] reply s = Some []"
| "assign_outputs (parameter # ps) reply s =
     (if pm_direction parameter = FACET_PARAM_IN then assign_outputs ps reply s
      else case assign_output parameter reply s of
        None \<Rightarrow> None
      | Some (v, s') \<Rightarrow> map_option ((#) v) (assign_outputs ps reply s'))"

text \<open>
  The handles that a failed call gives back: every handle attachment of the
  reply.
\<close>

definition release_reply_attachments :: "FacetRpcMessage \<Rightarrow> FacetHandle list" where
  "release_reply_attachments reply =
     map ra_handle (filter (\<lambda>a. ra_kind a = FACET_RPC_ATTACHMENT_HANDLE \<and> ra_handle a \<noteq> None)
       (rm_attachments reply))"

section \<open>Calls\<close>

fun pack_arguments :: "memory \<Rightarrow> FacetParamMeta list \<Rightarrow> FacetArgument list \<Rightarrow> nat \<Rightarrow> FacetRpcMessage \<times> heap \<Rightarrow> (FacetRpcMessage \<times> heap) facet" where
  "pack_arguments mem [] args output_count s = Inr s"
| "pack_arguments mem (parameter # ps) [] output_count s = Inl FACET_ERROR"
| "pack_arguments mem (parameter # ps) (arg # args) output_count s =
     (if pm_direction parameter \<noteq> FACET_PARAM_IN
      then if output_count \<ge> FACET_RPC_MAX_WORDS then Inl FACET_INVALID_ARGUMENT
           else if pm_direction parameter = FACET_PARAM_INOUT
           then case append_input_value mem parameter arg s of
                  None \<Rightarrow> Inl FACET_NOT_SUPPORTED
                | Some s' \<Rightarrow> pack_arguments mem ps args (output_count + 1) s'
           else pack_arguments mem ps args (output_count + 1) s
      else case append_input mem parameter arg s of
             None \<Rightarrow> Inl FACET_NOT_SUPPORTED
           | Some s' \<Rightarrow> pack_arguments mem ps args output_count s')"

definition initial_request :: "FacetMethodMeta \<Rightarrow> FacetRpcMessage" where
  "initial_request meth =
     \<lparr>rm_protocol_version = FACET_RPC_PROTOCOL_VERSION, rm_method_id = mm_method_id meth, rm_flags = 0,
      rm_words = [], rm_payload = None, rm_attachments = []\<rparr>"

definition reply_cursor :: "FacetRpcMessage \<Rightarrow> heap \<Rightarrow> ReplyCursor" where
  "reply_cursor reply h =
     (let data = (case rm_payload reply of None \<Rightarrow> [] | Some (d, capacity) \<Rightarrow> d) in
      \<lparr>rc_index = 1, rc_handle_index = 0,
       rc_codec = \<lparr>cd_data = data, cd_capacity = length data, cd_offset = 0, cd_heap = h\<rparr>\<rparr>)"

text \<open>
  A call ends with a result code or with the values of its out and inout
  parameters, and with the handles it released.
\<close>

type_synonym call_result = "(int + FacetValue list) \<times> FacetHandle list"

definition finish_call :: "FacetMethodMeta \<Rightarrow> FacetRpcMessage \<Rightarrow> heap \<Rightarrow> call_result" where
  "finish_call meth reply h =
     (case rm_words reply of
        [] \<Rightarrow> (Inl (facet_result_code FACET_PROTOCOL_ERROR), release_reply_attachments reply)
      | w # ws \<Rightarrow>
          let result = sint (ucast w :: u32) in
          if result \<noteq> facet_result_code FACET_OK then (Inl result, release_reply_attachments reply)
          else case assign_outputs (mm_parameters meth) reply (reply_cursor reply h) of
                 None \<Rightarrow> (Inl (facet_result_code FACET_PROTOCOL_ERROR), release_reply_attachments reply)
               | Some outputs \<Rightarrow> (Inr outputs, []))"

definition libfacet_proxy_client_call ::
  "(FacetHandle \<Rightarrow> FacetRpcMessage \<Rightarrow> FacetRpcMessage facet) \<Rightarrow> memory \<Rightarrow> heap \<Rightarrow> FacetHandle \<Rightarrow>
   FacetMethodMeta \<Rightarrow> FacetArgument list \<Rightarrow> call_result" where
  "libfacet_proxy_client_call platform_call mem h target meth arguments =
     (case pack_arguments mem (mm_parameters meth) arguments 0 (initial_request meth, h) of
        Inl e \<Rightarrow> (Inl (facet_result_code e), [])
      | Inr (request, h') \<Rightarrow>
          (case platform_call target request of
             Inl e \<Rightarrow> (Inl (facet_result_code e), [])
           | Inr reply \<Rightarrow> finish_call meth reply h'))"

section \<open>Dispatch\<close>

definition find_method :: "FacetMethodMeta list \<Rightarrow> u32 \<Rightarrow> FacetMethodMeta option" where
  "find_method methods method_id = find (\<lambda>m. mm_method_id m = method_id) methods"

text \<open>The server methods are generated code: a parameter that is NULL or handles the request.\<close>

definition common_dispatch ::
  "(FacetMethodMeta \<Rightarrow> (FacetRpcMessage \<Rightarrow> FacetRpcMessage facet) option) \<Rightarrow> FacetMethodMeta list \<Rightarrow>
   FacetRpcMessage \<Rightarrow> FacetRpcMessage facet" where
  "common_dispatch server_method methods request =
     (case find_method methods (rm_method_id request) of
        None \<Rightarrow> Inl FACET_NO_SUCH_METHOD
      | Some m \<Rightarrow>
          (case server_method m of
             None \<Rightarrow> Inl FACET_NO_SUCH_METHOD
           | Some f \<Rightarrow> f request))"

section \<open>Interface metadata and proxies\<close>

record FacetInterfaceMeta =
  im_iid :: string
  im_interface_size :: nat
  im_methods :: "FacetMethodMeta list"
  im_initialize_proxy :: bool

record RpcRegistry =
  rg_generic_metadata :: "FacetInterfaceMeta option"
  rg_registered_interfaces :: "FacetInterfaceMeta list"

abbreviation FACET_MAX_REGISTERED_INTERFACES :: nat where "FACET_MAX_REGISTERED_INTERFACES \<equiv> 64"

definition libfacet_register_interface_metadata :: "FacetInterfaceMeta \<Rightarrow> RpcRegistry \<Rightarrow> RpcRegistry facet" where
  "libfacet_register_interface_metadata metadata r =
     (case first_index (\<lambda>m. im_iid m = im_iid metadata) (rg_registered_interfaces r) of
        Some i \<Rightarrow> Inr (r\<lparr>rg_registered_interfaces := (rg_registered_interfaces r)[i := metadata]\<rparr>)
      | None \<Rightarrow>
          if length (rg_registered_interfaces r) \<ge> FACET_MAX_REGISTERED_INTERFACES
          then Inl FACET_BUFFER_TOO_SMALL
          else Inr (r\<lparr>rg_registered_interfaces := rg_registered_interfaces r @ [metadata]\<rparr>))"

text \<open>The generic metadata is stored before the registration, which may still fail.\<close>

definition libfacet_register_generic_metadata :: "FacetInterfaceMeta \<Rightarrow> RpcRegistry \<Rightarrow> FacetResult \<times> RpcRegistry" where
  "libfacet_register_generic_metadata metadata r =
     (let r' = r\<lparr>rg_generic_metadata := Some metadata\<rparr> in
      case libfacet_register_interface_metadata metadata r' of
        Inl e \<Rightarrow> (e, r')
      | Inr r'' \<Rightarrow> (FACET_OK, r''))"

definition find_interface :: "string \<Rightarrow> RpcRegistry \<Rightarrow> FacetInterfaceMeta option" where
  "find_interface iid r = find (\<lambda>m. im_iid m = iid) (rg_registered_interfaces r)"

record FacetProxyState =
  px_magic :: u32
  px_handle :: FacetHandle
  px_metadata :: FacetInterfaceMeta

abbreviation FACET_PROXY_MAGIC :: u32 where "FACET_PROXY_MAGIC \<equiv> 0x46505258"

text \<open>A proxy needs two blocks; both are requested before either is tested.\<close>

definition libfacet_new_proxy_client :: "heap \<Rightarrow> FacetInterfaceMeta \<Rightarrow> FacetHandle \<Rightarrow> FacetProxyState option" where
  "libfacet_new_proxy_client h metadata handle =
     (if im_interface_size metadata = 0 \<or> \<not> im_initialize_proxy metadata then None
      else if h < 2 then None
      else Some \<lparr>px_magic = FACET_PROXY_MAGIC, px_handle = handle, px_metadata = metadata\<rparr>)"

definition proxy_state :: "FacetProxyState option \<Rightarrow> FacetProxyState option" where
  "proxy_state object =
     (case object of
        None \<Rightarrow> None
      | Some s \<Rightarrow> if px_magic s \<noteq> FACET_PROXY_MAGIC then None else Some s)"

text \<open>The handles released when a proxy is freed.\<close>

definition libfacet_free_proxy_client :: "FacetProxyState option \<Rightarrow> FacetHandle list" where
  "libfacet_free_proxy_client object =
     (case proxy_state object of None \<Rightarrow> [] | Some s \<Rightarrow> [px_handle s])"

definition libfacet_proxy_from_handle :: "heap \<Rightarrow> FacetInterfaceMeta \<Rightarrow> FacetHandle \<Rightarrow> FacetProxyState option \<times> FacetHandle list" where
  "libfacet_proxy_from_handle h metadata handle =
     (if handle = None then (None, [])
      else case libfacet_new_proxy_client h metadata handle of
             None \<Rightarrow> (None, [handle])
           | Some p \<Rightarrow> (Some p, []))"

text \<open>
  The generic getInterface call of a proxy: method 0 of the generic metadata,
  with the interface id as argument and one handle as output, which lie at the
  addresses \<open>iid_at\<close> and \<open>handle_at\<close>.
\<close>

definition libfacet_proxy_client_get_interface ::
  "(FacetHandle \<Rightarrow> FacetRpcMessage \<Rightarrow> FacetRpcMessage facet) \<Rightarrow> memory \<Rightarrow> heap \<Rightarrow> RpcRegistry \<Rightarrow>
   FacetProxyState \<Rightarrow> nat \<Rightarrow> nat \<Rightarrow> string \<Rightarrow> FacetProxyState option \<times> FacetHandle list" where
  "libfacet_proxy_client_get_interface platform_call mem h r self iid_at handle_at iid =
     (case rg_generic_metadata r of
        None \<Rightarrow> (None, [])
      | Some generic \<Rightarrow>
          (case find_method (im_methods generic) 0 of
             None \<Rightarrow> (None, [])
           | Some get_interface \<Rightarrow>
               (case proxy_state (Some self) of
                  None \<Rightarrow> (None, [])
                | Some s \<Rightarrow>
                    (case libfacet_proxy_client_call platform_call mem h (px_handle s) get_interface
                            [(iid_at, VUuid iid), (handle_at, VHandle None)] of
                       (Inr [VHandle handle], released) \<Rightarrow>
                         (case find_interface iid r of
                            None \<Rightarrow> (None, released @ [handle])
                          | Some metadata \<Rightarrow>
                              (case libfacet_new_proxy_client h metadata handle of
                                 None \<Rightarrow> (None, released @ [handle])
                               | Some p \<Rightarrow> (Some p, released)))
                     | (_, released) \<Rightarrow> (None, released)))))"

section \<open>What was packed can be unpacked\<close>

definition argument_has_type :: "FacetParamMeta \<Rightarrow> FacetValue \<Rightarrow> bool" where
  "argument_has_type parameter v =
     (let type = pm_type parameter in
      if compound_type type then has_type type (pm_type_metadata parameter) v
      else case v of
             VHandle h \<Rightarrow> type = FACET_TYPE_HANDLE
           | VLocalPtr w \<Rightarrow> type = FACET_TYPE_LOCAL_PTR
           | VI32 w \<Rightarrow> type = FACET_TYPE_I32 \<or> type = FACET_TYPE_ENUM
           | _ \<Rightarrow> scalar_has_type type v)"

text \<open>A string, array or structure also has to lie in memory at the argument's address.\<close>

definition argument_ok :: "memory \<Rightarrow> FacetParamMeta \<Rightarrow> FacetArgument \<Rightarrow> bool" where
  "argument_ok mem parameter arg \<longleftrightarrow>
     argument_has_type parameter (snd arg) \<and>
     (compound_type (pm_type parameter) \<longrightarrow> readable mem (pm_type_metadata parameter) (fst arg) (snd arg))"

definition payload_bytes :: "FacetRpcMessage \<Rightarrow> string" where
  "payload_bytes m = (case rm_payload m of None \<Rightarrow> [] | Some (data, capacity) \<Rightarrow> data)"

text \<open>
  \<open>unpacks p ws as bs v\<close>: where the words \<open>ws\<close>, the attachments \<open>as\<close> and the payload
  bytes \<open>bs\<close> are next in a reply, assign_output returns \<open>v\<close> and moves behind them.
\<close>

definition unpacks :: "FacetParamMeta \<Rightarrow> u64 list \<Rightarrow> FacetRpcAttachment list \<Rightarrow> string \<Rightarrow> FacetValue \<Rightarrow> bool" where
  "unpacks p ws as bs v \<longleftrightarrow> (\<forall>reply w0 w1 a0 a1 b0 b1 cap k.
     rm_words reply = w0 @ ws @ w1 \<longrightarrow> rm_attachments reply = a0 @ as @ a1 \<longrightarrow>
     assign_output p reply \<lparr>rc_index = length w0, rc_handle_index = length a0,
       rc_codec = \<lparr>cd_data = b0 @ bs @ b1, cd_capacity = cap, cd_offset = length b0, cd_heap = value_allocs v + k\<rparr>\<rparr> =
     Some (v, \<lparr>rc_index = length w0 + length ws, rc_handle_index = length a0 + length as,
       rc_codec = \<lparr>cd_data = b0 @ bs @ b1, cd_capacity = cap, cd_offset = length b0 + length bs, cd_heap = k\<rparr>\<rparr>))"

definition extends :: "FacetRpcMessage \<Rightarrow> u64 list \<Rightarrow> FacetRpcAttachment list \<Rightarrow> string \<Rightarrow> FacetRpcMessage \<Rightarrow> bool" where
  "extends m ws as bs m' \<longleftrightarrow>
     rm_words m' = rm_words m @ ws \<and> rm_attachments m' = rm_attachments m @ as \<and>
     payload_bytes m' = payload_bytes m @ bs"

lemma extends_trans:
  "extends m ws as bs m' \<Longrightarrow> extends m' ws' as' bs' m'' \<Longrightarrow> extends m (ws @ ws') (as @ as') (bs @ bs') m''"
  by (simp add: extends_def)

lemma append_word_extends: "append_word m w = Some m' \<Longrightarrow> extends m [w] [] [] m'"
  by (auto simp: append_word_def extends_def payload_bytes_def split: if_splits)

lemma append_words2_extends: "append_words2 m w w' = Some m' \<Longrightarrow> extends m [w, w'] [] [] m'"
  by (auto simp: append_words2_def bind_eq_Some_conv dest!: append_word_extends dest: extends_trans)

lemma append_handle_extends:
  "append_handle m h = Some m' \<Longrightarrow> extends m [] [\<lparr>ra_kind = FACET_RPC_ATTACHMENT_HANDLE, ra_handle = h\<rparr>] [] m'"
  by (auto simp: append_handle_def extends_def payload_bytes_def split: if_splits)

lemma unpacks_word:
  assumes "word_output (pm_type p) w = Some v" and "value_allocs v = 0"
  shows "unpacks p [w] [] [] v"
proof -
  have "pm_type p \<notin> {FACET_TYPE_HANDLE, FACET_TYPE_UUID}" "\<not> compound_type (pm_type p)"
    using assms(1) by (auto simp: word_output_def compound_type_def)
  with assms show ?thesis by (auto simp: unpacks_def assign_output_def Let_def)
qed

lemma unpacks_handle:
  "pm_type p = FACET_TYPE_HANDLE \<Longrightarrow> unpacks p [] [\<lparr>ra_kind = FACET_RPC_ATTACHMENT_HANDLE, ra_handle = h\<rparr>] [] (VHandle h)"
  by (auto simp: unpacks_def assign_output_def Let_def nth_append)

lemma uuid_words_bytes:
  assumes "length bytes = 16"
  shows "uint_bytes (fst (uuid_words bytes)) 8 @ uint_bytes (snd (uuid_words bytes)) 8 = bytes"
proof -
  have whole: "uint_bytes (bytes_uint 0 0 bs) 8 = bs" if "length bs = 8" for bs
    using take_uint_bytes [of bs] that by simp
  have "take 8 (drop 8 bytes) = drop 8 bytes" using assms by simp
  with assms show ?thesis by (simp add: uuid_words_def whole)
qed

lemma unpacks_uuid:
  assumes "pm_type p = FACET_TYPE_UUID" and "length bytes = 16"
  shows "unpacks p [fst (uuid_words bytes), snd (uuid_words bytes)] [] [] (VUuid bytes)"
  using assms uuid_words_bytes [OF assms(2)]
  by (auto simp: unpacks_def assign_output_def Let_def compound_type_def nth_append)

lemma unpacks_compound:
  assumes "compound_type (pm_type p)" and "reads (decode_value (pm_type p) (pm_type_metadata p)) bs (value_allocs v) v"
  shows "unpacks p [] [] bs v"
  using assms by (auto simp: unpacks_def assign_output_def Let_def compound_type_def facet_rpc_decode_value_def reads_def)

lemma append_compound_unpacks:
  assumes "append_compound mem p a (m, h) = Some (m', h')" and "compound_type (pm_type p)"
    and "has_type (pm_type p) (pm_type_metadata p) v" and "readable mem (pm_type_metadata p) a v"
  shows "\<exists>bs. extends m [] [] bs m' \<and> unpacks p [] [] bs v"
proof -
  obtain c c' where c: "message_codec h m = Inr c" "encode_value mem (pm_type p) (pm_type_metadata p) a c = Inr c'"
    "m' = m\<lparr>rm_payload := Some (cd_data c', cd_capacity c')\<rparr>"
    using assms(1) by (auto simp: append_compound_def facet_rpc_encode_value_def error_monad split: sum.splits)
  obtain bs where bs: "cd_data c' = cd_data c @ bs"
    "reads (decode_value (pm_type p) (pm_type_metadata p)) bs (value_allocs v) v"
    using encode_decode(1) [OF c(2) assms(3,4)] by blast
  have "cd_data c = payload_bytes m"
    using c(1) by (auto simp: message_codec_def facet_rpc_codec_init_def payload_bytes_def error_monad split: option.splits)
  with bs(1) c(3) have "extends m [] [] bs m'" by (simp add: extends_def payload_bytes_def)
  with unpacks_compound [OF assms(2) bs(2)] show ?thesis by blast
qed

lemma narrow_widen:
  fixes w :: "'a::len word"
  assumes "LENGTH('a) \<le> LENGTH('b::len)"
  shows "(ucast (ucast w :: 'b word) :: 'a word) = w" and "(ucast (scast w :: 'b word) :: 'a word) = w"
  by (rule bit_word_eqI; use assms in \<open>auto simp: bit_simps\<close>)+

lemma widen_twice:
  fixes w :: "'a::len word"
  assumes "LENGTH('a) \<le> 32"
  shows "(ucast (ucast (ucast w :: u32) :: u64) :: 'a word) = w"
    and "(ucast (scast (scast w :: u32) :: u64) :: 'a word) = w"
  by (rule bit_word_eqI; use assms in \<open>auto simp: bit_simps\<close>)+

lemma ucast_nonzero:
  fixes w :: "'a::len word"
  assumes "LENGTH('a) \<le> LENGTH('b::len)"
  shows "(ucast w :: 'b word) = 0 \<longleftrightarrow> w = 0"
  using narrow_widen(1) [OF assms, of w] by (metis unsigned_0)

text \<open>The word that stands for a scalar argument, and that it is read back.\<close>

lemma append_input_value_unpacks:
  assumes "append_input_value mem p (a, v) (m, h) = Some (m', h')" and "argument_ok mem p (a, v)"
  shows "\<exists>ws as bs. extends m ws as bs m' \<and> unpacks p ws as bs v"
proof (cases "compound_type (pm_type p)")
  case True
  with assms append_compound_unpacks [of mem p a m h m' h' v] show ?thesis
    by (auto simp: append_input_value_def argument_ok_def argument_has_type_def Let_def)
next
  case False
  show ?thesis
  proof (cases v)
    case (VHandle x)
    with assms False show ?thesis
      by (auto simp: append_input_value_def argument_ok_def argument_has_type_def Let_def
          dest!: append_handle_extends intro: unpacks_handle)
  next
    case (VUuid x)
    with assms False show ?thesis
      by (auto simp: append_input_value_def argument_ok_def argument_has_type_def scalar_has_type_def Let_def
          dest!: append_words2_extends intro: unpacks_uuid)
  next
    case (VBool b)
    with assms False obtain "pm_type p = FACET_TYPE_BOOL" "b = 0 \<or> b = 1"
      "append_word m (if b \<noteq> 0 then 1 else 0) = Some m'"
      by (auto simp: append_input_value_def argument_ok_def argument_has_type_def scalar_has_type_def Let_def)
    moreover from this have "word_output (pm_type p) (if b \<noteq> 0 then 1 else 0) = Some v"
      by (auto simp: word_output_def VBool)
    ultimately show ?thesis using append_word_extends unpacks_word [of p _ v] VBool by force
  qed (use assms False narrow_widen [where 'b = 64] in \<open>force simp: append_input_value_def
      argument_ok_def argument_has_type_def scalar_has_type_def Let_def word_output_def
      intro!: unpacks_word dest!: append_word_extends\<close>)+
qed

lemma append_input_unpacks:
  assumes "append_input mem p (a, v) (m, h) = Some (m', h')" and "argument_ok mem p (a, v)"
  shows "\<exists>ws as bs. extends m ws as bs m' \<and> unpacks p ws as bs v"
proof (cases "compound_type (pm_type p)")
  case True
  with assms append_compound_unpacks [of mem p a m h m' h' v] show ?thesis
    by (auto simp: append_input_def argument_ok_def argument_has_type_def Let_def)
next
  case False
  show ?thesis
  proof (cases v)
    case (VHandle x)
    with assms False show ?thesis
      by (auto simp: append_input_def argument_ok_def argument_has_type_def Let_def
          dest!: append_handle_extends intro: unpacks_handle)
  next
    case (VUuid x)
    with assms False show ?thesis
      by (auto simp: append_input_def argument_ok_def argument_has_type_def scalar_has_type_def Let_def
          dest!: append_words2_extends intro: unpacks_uuid)
  next
    case (VBool b)
    with assms False obtain "pm_type p = FACET_TYPE_BOOL" "b = 0 \<or> b = 1"
      "append_word m (ucast (ucast b :: u32)) = Some m'"
      by (auto simp: append_input_def argument_ok_def argument_has_type_def scalar_has_type_def Let_def)
    moreover from this have "word_output (pm_type p) (ucast (ucast b :: u32)) = Some v"
      by (auto simp: word_output_def VBool)
    ultimately show ?thesis using append_word_extends unpacks_word [of p _ v] VBool by force
  qed (use assms False in \<open>force simp: append_input_def narrow_widen widen_twice
      argument_ok_def argument_has_type_def scalar_has_type_def Let_def word_output_def
      intro!: unpacks_word dest!: append_word_extends\<close>)+
qed

section \<open>Bounds of a request\<close>

definition request_ok :: "FacetRpcMessage \<Rightarrow> bool" where
  "request_ok m \<longleftrightarrow> length (rm_words m) \<le> FACET_RPC_MAX_WORDS \<and>
     length (rm_attachments m) \<le> FACET_RPC_MAX_ATTACHMENTS"

definition same_call :: "FacetRpcMessage \<Rightarrow> FacetRpcMessage \<Rightarrow> bool" where
  "same_call m m' \<longleftrightarrow> rm_protocol_version m' = rm_protocol_version m \<and> rm_method_id m' = rm_method_id m"

lemma append_word_ok: "append_word m w = Some m' \<Longrightarrow> request_ok m \<Longrightarrow> request_ok m' \<and> same_call m m'"
  by (auto simp: append_word_def request_ok_def same_call_def split: if_splits)

lemma append_words2_ok: "append_words2 m w w' = Some m' \<Longrightarrow> request_ok m \<Longrightarrow> request_ok m' \<and> same_call m m'"
  by (auto simp: append_words2_def bind_eq_Some_conv same_call_def dest!: append_word_ok)

lemma append_handle_ok: "append_handle m h = Some m' \<Longrightarrow> request_ok m \<Longrightarrow> request_ok m' \<and> same_call m m'"
  by (auto simp: append_handle_def request_ok_def same_call_def split: if_splits)

lemma append_compound_ok: "append_compound mem p a s = Some s' \<Longrightarrow> request_ok (fst s) \<Longrightarrow> request_ok (fst s') \<and> same_call (fst s) (fst s')"
  by (auto simp: append_compound_def request_ok_def same_call_def split: sum.splits)

lemmas append_ok = append_word_ok append_words2_ok append_handle_ok append_compound_ok

lemma append_input_value_ok:
  "append_input_value mem p v s = Some s' \<Longrightarrow> request_ok (fst s) \<Longrightarrow> request_ok (fst s') \<and> same_call (fst s) (fst s')"
  by (cases "pm_type p") (auto simp: append_input_value_def compound_type_def split: FacetValue.splits dest: append_ok)

lemma append_input_ok:
  "append_input mem p v s = Some s' \<Longrightarrow> request_ok (fst s) \<Longrightarrow> request_ok (fst s') \<and> same_call (fst s) (fst s')"
  by (cases "pm_type p") (auto simp: append_input_def compound_type_def split: FacetValue.splits dest: append_ok)

lemma pack_arguments_ok:
  "pack_arguments mem ps vs n s = Inr s' \<Longrightarrow> request_ok (fst s) \<Longrightarrow> request_ok (fst s') \<and> same_call (fst s) (fst s')"
proof (induction mem ps vs n s rule: pack_arguments.induct)
  case (3 mem p ps v vs n s)
  then show ?case
    by (auto split: if_splits option.splits simp: same_call_def dest: append_input_value_ok append_input_ok)
qed (auto simp: same_call_def)

section \<open>The registry\<close>

definition registry_ok :: "RpcRegistry \<Rightarrow> bool" where
  "registry_ok r \<longleftrightarrow> distinct (map im_iid (rg_registered_interfaces r)) \<and>
     length (rg_registered_interfaces r) \<le> FACET_MAX_REGISTERED_INTERFACES"

lemma register_inv:
  assumes "registry_ok r" and "libfacet_register_interface_metadata m r = Inr r'"
  shows "registry_ok r'"
proof (cases "first_index (\<lambda>x. im_iid x = im_iid m) (rg_registered_interfaces r)")
  case None
  with assms show ?thesis
    by (fastforce simp: registry_ok_def libfacet_register_interface_metadata_def first_index_None_iff split: if_splits)
next
  case (Some i)
  then have "map im_iid ((rg_registered_interfaces r)[i := m]) = map im_iid (rg_registered_interfaces r)"
    using first_index_SomeD [OF Some] by (simp add: map_update)
      (metis list_update_id nth_map)
  with assms Some show ?thesis
    by (auto simp: registry_ok_def libfacet_register_interface_metadata_def simp del: map_update)
qed

lemma find_interface_register:
  assumes "libfacet_register_interface_metadata m r = Inr r'"
  shows "find_interface iid r' = (if iid = im_iid m then Some m else find_interface iid r)"
proof (cases "first_index (\<lambda>x. im_iid x = im_iid m) (rg_registered_interfaces r)")
  case None
  then have "find_interface (im_iid m) r = None" by (simp add: find_interface_def find_first_index)
  with None assms show ?thesis
    by (auto simp: libfacet_register_interface_metadata_def find_interface_def find_append
        split: if_splits option.split)
next
  case (Some i)
  with assms show ?thesis
    by (auto simp: libfacet_register_interface_metadata_def find_interface_def find_list_update)
qed

interpretation registry: keyed_table registry_ok im_iid find_interface libfacet_register_interface_metadata
  by unfold_locales (auto intro: register_inv simp: find_interface_register)

text \<open>
  C15. The interface registry is a map.  After any sequence of successful
  registrations into an empty registry, an interface id is found exactly when it
  was registered, with the metadata registered last; no id is stored twice and
  the table never exceeds its 64 slots.
\<close>

theorem registry_map:
  assumes "foldE libfacet_register_interface_metadata ms
     \<lparr>rg_generic_metadata = g, rg_registered_interfaces = []\<rparr> = Inr r"
  shows "find_interface iid r = find (\<lambda>m. im_iid m = iid) (rev ms) \<and>
     distinct (map im_iid (rg_registered_interfaces r)) \<and>
     length (rg_registered_interfaces r) \<le> FACET_MAX_REGISTERED_INTERFACES"
  using registry.store_all [OF assms, of iid]
  by (auto simp: registry_ok_def find_interface_def split: option.splits)

definition sample_interface :: "string \<Rightarrow> nat \<Rightarrow> FacetInterfaceMeta" where
  "sample_interface iid n = \<lparr>im_iid = iid, im_interface_size = n, im_methods = [], im_initialize_proxy = True\<rparr>"

theorem registry_map_witness:
  "foldE libfacet_register_interface_metadata
     [sample_interface ''a'' 1, sample_interface ''b'' 2, sample_interface ''a'' 3]
     \<lparr>rg_generic_metadata = None, rg_registered_interfaces = []\<rparr> =
   Inr \<lparr>rg_generic_metadata = None, rg_registered_interfaces = [sample_interface ''a'' 3, sample_interface ''b'' 2]\<rparr> \<and>
   find_interface ''a'' \<lparr>rg_generic_metadata = None,
     rg_registered_interfaces = [sample_interface ''a'' 3, sample_interface ''b'' 2]\<rparr> = Some (sample_interface ''a'' 3)"
proof -
  have r: "foldE libfacet_register_interface_metadata
     [sample_interface ''a'' 1, sample_interface ''b'' 2, sample_interface ''a'' 3]
     \<lparr>rg_generic_metadata = None, rg_registered_interfaces = []\<rparr> =
   Inr \<lparr>rg_generic_metadata = None, rg_registered_interfaces = [sample_interface ''a'' 3, sample_interface ''b'' 2]\<rparr>"
    by (simp add: libfacet_register_interface_metadata_def sample_interface_def)
  with registry_map [OF r, of "''a''"] show ?thesis by (simp add: sample_interface_def)
qed

section \<open>A whole call\<close>

lemma pack_unpack:
  assumes "pack_arguments mem ps args n (m, h) = Inr (M, H)"
    and "list_all (\<lambda>p. pm_direction p = FACET_PARAM_INOUT) ps" and "list_all2 (argument_ok mem) ps args"
  shows "\<exists>ws as bs. extends m ws as bs M \<and> (\<forall>reply w0 w1 a0 a1 b0 b1 cap k.
     rm_words reply = w0 @ ws @ w1 \<longrightarrow> rm_attachments reply = a0 @ as @ a1 \<longrightarrow>
     assign_outputs ps reply \<lparr>rc_index = length w0, rc_handle_index = length a0,
       rc_codec = \<lparr>cd_data = b0 @ bs @ b1, cd_capacity = cap, cd_offset = length b0,
         cd_heap = sum_list (map (value_allocs \<circ> snd) args) + k\<rparr>\<rparr> = Some (map snd args))"
  using assms
proof (induction ps arbitrary: args n m h)
  case Nil
  then show ?case by (auto simp: extends_def intro!: exI [of _ "[]"])
next
  case (Cons p ps)
  then obtain a v args' where args: "args = (a, v) # args'" "argument_ok mem p (a, v)"
    "list_all2 (argument_ok mem) ps args'"
    by (auto simp: list_all2_Cons1)
  with Cons.prems obtain m1 h1 where m1: "append_input_value mem p (a, v) (m, h) = Some (m1, h1)"
    "pack_arguments mem ps args' (n + 1) (m1, h1) = Inr (M, H)"
    by (auto split: if_splits option.splits)
  obtain ws1 as1 bs1 where s1: "extends m ws1 as1 bs1 m1" "unpacks p ws1 as1 bs1 v"
    using append_input_value_unpacks [OF m1(1) args(2)] by blast
  have inout: "list_all (\<lambda>p. pm_direction p = FACET_PARAM_INOUT) ps" using Cons.prems(2) by simp
  obtain ws2 as2 bs2 where s2: "extends m1 ws2 as2 bs2 M"
    and rest: "\<And>reply w0 w1 a0 a1 b0 b1 cap k. rm_words reply = w0 @ ws2 @ w1 \<Longrightarrow>
      rm_attachments reply = a0 @ as2 @ a1 \<Longrightarrow>
      assign_outputs ps reply \<lparr>rc_index = length w0, rc_handle_index = length a0,
        rc_codec = \<lparr>cd_data = b0 @ bs2 @ b1, cd_capacity = cap, cd_offset = length b0,
          cd_heap = sum_list (map (value_allocs \<circ> snd) args') + k\<rparr>\<rparr> = Some (map snd args')"
    using Cons.IH [OF m1(2) inout args(3)] by blast
  have "assign_outputs (p # ps) reply \<lparr>rc_index = length w0, rc_handle_index = length a0,
        rc_codec = \<lparr>cd_data = b0 @ (bs1 @ bs2) @ b1, cd_capacity = cap, cd_offset = length b0,
          cd_heap = sum_list (map (value_allocs \<circ> snd) args) + k\<rparr>\<rparr> = Some (map snd args)"
    if "rm_words reply = w0 @ (ws1 @ ws2) @ w1" "rm_attachments reply = a0 @ (as1 @ as2) @ a1"
    for reply w0 w1 a0 a1 b0 b1 cap k
  proof -
    have "assign_output p reply \<lparr>rc_index = length w0, rc_handle_index = length a0,
        rc_codec = \<lparr>cd_data = b0 @ bs1 @ (bs2 @ b1), cd_capacity = cap, cd_offset = length b0,
          cd_heap = value_allocs v + (sum_list (map (value_allocs \<circ> snd) args') + k)\<rparr>\<rparr> =
      Some (v, \<lparr>rc_index = length w0 + length ws1, rc_handle_index = length a0 + length as1,
        rc_codec = \<lparr>cd_data = b0 @ bs1 @ (bs2 @ b1), cd_capacity = cap, cd_offset = length b0 + length bs1,
          cd_heap = sum_list (map (value_allocs \<circ> snd) args') + k\<rparr>\<rparr>)"
      using s1(2) that unfolding unpacks_def by (metis append_assoc)
    with rest [of reply "w0 @ ws1" w1 "a0 @ as1" a1 "b0 @ bs1" b1 cap k] that Cons.prems(2) args(1)
    show ?thesis by (simp add: add.assoc)
  qed
  with extends_trans [OF s1(1) s2] show ?case by blast
qed

text \<open>
  C13. Arguments cross the wire unchanged.  Take a method whose parameters are all
  inout, of any number and any supported types, and arguments of these types, the
  strings, arrays and structures lying in memory with three zero bytes behind
  every false bool.  If they fit into a request, and the peer answers FACET_OK
  followed by what it received in a reply of at most 64 words, the call returns
  exactly the arguments and releases no handle.
\<close>

theorem rpc_call_echo:
  assumes "list_all (\<lambda>p. pm_direction p = FACET_PARAM_INOUT) (mm_parameters meth)"
    and "list_all2 (argument_ok mem) (mm_parameters meth) args"
    and "pack_arguments mem (mm_parameters meth) args 0 (initial_request meth, h) = Inr (request, h')"
    and "platform_call target request = Inr reply"
    and "rm_words reply = 0 # rm_words request" and "length (rm_words reply) \<le> FACET_RPC_MAX_WORDS"
    and "rm_attachments reply = rm_attachments request" and "payload_bytes reply = payload_bytes request"
    and "sum_list (map (value_allocs \<circ> snd) args) \<le> h'"
  shows "libfacet_proxy_client_call platform_call mem h target meth args = (Inr (map snd args), [])"
proof -
  obtain ws as bs where ext: "extends (initial_request meth) ws as bs request"
    and out: "\<And>reply w0 w1 a0 a1 b0 b1 cap k. rm_words reply = w0 @ ws @ w1 \<Longrightarrow>
      rm_attachments reply = a0 @ as @ a1 \<Longrightarrow>
      assign_outputs (mm_parameters meth) reply \<lparr>rc_index = length w0, rc_handle_index = length a0,
        rc_codec = \<lparr>cd_data = b0 @ bs @ b1, cd_capacity = cap, cd_offset = length b0,
          cd_heap = sum_list (map (value_allocs \<circ> snd) args) + k\<rparr>\<rparr> = Some (map snd args)"
    using pack_unpack [OF assms(3,1,2)] by blast
  have "rm_words reply = [0] @ ws @ []" "rm_attachments reply = [] @ as @ []"
    and data: "payload_bytes reply = bs"
    using ext assms(5,7,8) by (simp_all add: extends_def initial_request_def payload_bytes_def)
  from out [OF this(1,2), of "[]" "[]" "length bs" "h' - sum_list (map (value_allocs \<circ> snd) args)"] data assms(9)
  have "assign_outputs (mm_parameters meth) reply (reply_cursor reply h') = Some (map snd args)"
    by (simp add: reply_cursor_def Let_def payload_bytes_def)
  with assms(3-5) show ?thesis
    by (simp add: libfacet_proxy_client_call_def finish_call_def Let_def)
qed

definition sample_method :: FacetMethodMeta where
  "sample_method = \<lparr>mm_method_id = 3, mm_parameters = map (\<lambda>type. \<lparr>pm_type = type,
     pm_direction = FACET_PARAM_INOUT, pm_type_metadata = None\<rparr>)
     [FACET_TYPE_I16, FACET_TYPE_HANDLE, FACET_TYPE_STRING, FACET_TYPE_ENUM, FACET_TYPE_BOOL]\<rparr>"

definition sample_arguments :: "FacetArgument list" where
  "sample_arguments = [(16, VI16 0xFFFE), (100, VHandle (Some 9)), (0, VString (Some ''ab'') 2), (80, VI32 7),
     (18, VBool 1)]"

definition sample_request :: FacetRpcMessage where
  "sample_request = \<lparr>rm_protocol_version = 1, rm_method_id = 3, rm_flags = 0, rm_words = [0xFFFFFFFFFFFFFFFE, 7, 1],
     rm_payload = Some ([CHR 0x02, CHR 0x00, CHR 0x00, CHR 0x00, CHR ''a'', CHR ''b''], 256),
     rm_attachments = [\<lparr>ra_kind = FACET_RPC_ATTACHMENT_HANDLE, ra_handle = Some 9\<rparr>]\<rparr>"

lemma sample_call_packs:
  "pack_arguments sample_memory (mm_parameters sample_method) sample_arguments 0 (initial_request sample_method, 3) =
     Inr (sample_request, 2)"
  by (simp add: sample_method_def sample_arguments_def sample_request_def initial_request_def
      append_input_value_def compound_type_def append_word_def append_handle_def append_compound_def
      message_codec_def facet_rpc_codec_init_def alloc_def facet_rpc_encode_value_def codec_eval sample_fields
      codec_write_uint_def codec_write_def uint_bytes_eval char_of_def bit_0)

lemma sample_arguments_ok: "list_all2 (argument_ok sample_memory) (mm_parameters sample_method) sample_arguments"
  by (simp add: sample_method_def sample_arguments_def argument_ok_def argument_has_type_def compound_type_def
      codec_eval sample_fields)

theorem rpc_call_echo_witness:
  "pack_arguments sample_memory (mm_parameters sample_method) sample_arguments 0 (initial_request sample_method, 3) =
     Inr (sample_request, 2) \<and>
   libfacet_proxy_client_call (\<lambda>target m. Inr (m\<lparr>rm_words := 0 # rm_words m\<rparr>)) sample_memory 3 (Some 1)
     sample_method sample_arguments =
   (Inr [VI16 0xFFFE, VHandle (Some 9), VString (Some ''ab'') 2, VI32 7, VBool 1], [])"
proof -
  have "list_all (\<lambda>p. pm_direction p = FACET_PARAM_INOUT) (mm_parameters sample_method)"
    "sum_list (map (value_allocs \<circ> snd) sample_arguments) \<le> 2"
    by (simp_all add: sample_method_def sample_arguments_def)
  from rpc_call_echo [OF this(1) sample_arguments_ok sample_call_packs,
      of "\<lambda>target m. Inr (m\<lparr>rm_words := 0 # rm_words m\<rparr>)" "Some 1", OF refl _ _ _ _ this(2)] sample_call_packs
  show ?thesis by (simp add: sample_request_def payload_bytes_def sample_arguments_def)
qed

text \<open>
  C14. The platform only sees well-formed requests.  A call depends on the
  platform only at requests of protocol version 1 for the called method with at
  most 64 words and 8 attachments, whatever parameters the method declares and
  whatever arguments it is given.
\<close>

theorem rpc_request_bounds:
  assumes "\<And>m. rm_protocol_version m = FACET_RPC_PROTOCOL_VERSION \<Longrightarrow> rm_method_id m = mm_method_id meth \<Longrightarrow>
     length (rm_words m) \<le> FACET_RPC_MAX_WORDS \<Longrightarrow> length (rm_attachments m) \<le> FACET_RPC_MAX_ATTACHMENTS \<Longrightarrow>
     platform_call target m = platform_call' target m"
  shows "libfacet_proxy_client_call platform_call mem h target meth args =
     libfacet_proxy_client_call platform_call' mem h target meth args"
proof (cases "pack_arguments mem (mm_parameters meth) args 0 (initial_request meth, h)")
  case (Inr s)
  have "request_ok (initial_request meth)" by (simp add: request_ok_def initial_request_def)
  with pack_arguments_ok [OF Inr] have "request_ok (fst s)" "same_call (initial_request meth) (fst s)"
    by simp_all
  then have "platform_call target (fst s) = platform_call' target (fst s)"
    by (intro assms) (simp_all add: request_ok_def same_call_def initial_request_def)
  with Inr show ?thesis by (simp add: libfacet_proxy_client_call_def split_beta)
qed (simp add: libfacet_proxy_client_call_def)

theorem rpc_request_bounds_witness:
  "libfacet_proxy_client_call (\<lambda>t m. if length (rm_words m) \<le> 64 then Inr m else Inl FACET_ERROR)
     sample_memory 3 (Some 1) sample_method sample_arguments =
   libfacet_proxy_client_call (\<lambda>t m. Inr m) sample_memory 3 (Some 1) sample_method sample_arguments"
  by (rule rpc_request_bounds) simp

text \<open>
  A successful reply may carry more attachments than the method has handle
  outputs; they are neither returned nor released.
\<close>

lemma surplus_attachments_leak:
  assumes "mm_parameters meth = []" and "rm_words reply = [0]"
  shows "finish_call meth reply h = (Inr [], [])"
  using assms by (simp add: finish_call_def Let_def)

end
