(* ===== verification/Wire.thy ===== *)
theory Wire
  imports Rpc
begin

text \<open>
  The seL4 transport of libfacet/src/platform/sel4: how a request or a reply is
  laid out in the message registers of an IPC and how the other side reads it.
  There are three programs that speak it: platform.c (the root server, both
  sides), client.c (applications, the calling side) and service.c (services, the
  serving side).  Payloads of up to 512 bytes travel inline; platform.c puts a
  larger one into a shared page frame.

  Message registers are a function from their index, so that a register nobody
  wrote has an arbitrary value.  A capability is a number, 0 the null capability;
  a handle is the capability it stands for, and \<open>pages\<close> gives the contents of
  the page behind a frame capability.  The kernel is not modelled: \<open>delivers\<close>
  states what it guarantees of a message.  Allocating a frame, a capability slot
  or a mapping are outcomes given as parameters.
\<close>

section \<open>Registers and payload words\<close>

type_synonym registers = "nat \<Rightarrow> u64"
type_synonym pages = "nat \<Rightarrow> string"

abbreviation seL4_MsgMaxLength :: nat where "seL4_MsgMaxLength \<equiv> 120"
abbreviation seL4_MsgMaxExtraCaps :: nat where "seL4_MsgMaxExtraCaps \<equiv> 3"
abbreviation FACET_RPC_MAX_INLINE_PAYLOAD :: nat where "FACET_RPC_MAX_INLINE_PAYLOAD \<equiv> 512"
abbreviation FACET_SEL4_MAX_ATTACHMENTS :: nat where "FACET_SEL4_MAX_ATTACHMENTS \<equiv> 1"
abbreviation FACET_SEL4_BUFFER_COUNT_MASK :: u32 where "FACET_SEL4_BUFFER_COUNT_MASK \<equiv> 0x7F"
abbreviation page_size :: nat where "page_size \<equiv> 4096"

record Ipc =
  ipc_mr :: registers
  ipc_length :: nat
  ipc_caps :: "nat list"

text \<open>
  A received message and its payload_size.  It is the length of the payload, or the
  announced size when no payload was stored.
\<close>

type_synonym received_message = "FacetRpcMessage \<times> nat"

text \<open>Writing consecutive registers.\<close>

definition set_mrs :: "registers \<Rightarrow> nat \<Rightarrow> u64 list \<Rightarrow> registers" where
  "set_mrs mr k ws = (\<lambda>j. if k \<le> j \<and> j < k + length ws then ws ! (j - k) else mr j)"

definition shared_payload :: "u32 \<Rightarrow> bool" where
  "shared_payload flags \<longleftrightarrow> bit flags 31"

definition buffer_count :: "u32 \<Rightarrow> nat" where
  "buffer_count flags =
     (if shared_payload flags then unat (drop_bit 24 flags AND FACET_SEL4_BUFFER_COUNT_MASK) else 0)"

definition wire_word_count :: "nat \<Rightarrow> nat" where
  "wire_word_count bytes = (if bytes > SIZE_MAX - 7 then SIZE_MAX else (bytes + 7) div 8)"

text \<open>Eight payload bytes to a word, the last word padded with zeros.\<close>

definition payload_words :: "string \<Rightarrow> u64 list" where
  "payload_words bytes =
     map (\<lambda>i. bytes_uint 0 0 (take 8 (drop (8 * i) bytes))) [0..<wire_word_count (length bytes)]"

definition registers_payload :: "registers \<Rightarrow> nat \<Rightarrow> nat \<Rightarrow> nat \<Rightarrow> string" where
  "registers_payload mr start words bytes =
     take bytes (concat (map (\<lambda>i. uint_bytes (mr (start + i)) 8) [0..<words]))"

definition attachment_cap :: "FacetRpcAttachment \<Rightarrow> nat" where
  "attachment_cap a = (case ra_handle a of None \<Rightarrow> 0 | Some c \<Rightarrow> c)"

section \<open>platform.c: large payloads\<close>

text \<open>
  More than 512 and at most 4096 bytes move into one fresh frame, attached behind
  the handles.  The flags are set before the frame is allocated, and stay set when
  that fails.
\<close>

definition page_count :: "nat \<Rightarrow> nat" where
  "page_count n = (if n > SIZE_MAX - page_size + 1 then SIZE_MAX else (n + page_size - 1) div page_size)"

definition bulk_prepare :: "nat option \<Rightarrow> bool \<Rightarrow> pages \<Rightarrow> FacetRpcMessage \<Rightarrow> FacetResult \<times> FacetRpcMessage \<times> pages" where
  "bulk_prepare frame mappable pages m =
     (let bytes = payload_bytes m; n = length bytes; count = page_count n;
          m' = m\<lparr>rm_flags := ((rm_flags m OR push_bit 31 1) AND NOT (push_bit 24 FACET_SEL4_BUFFER_COUNT_MASK)) OR
                 push_bit 24 (word_of_nat count)\<rparr> in
      if n \<le> FACET_RPC_MAX_INLINE_PAYLOAD then (FACET_OK, m, pages)
      else if count = SIZE_MAX \<or> count > FACET_SEL4_MAX_ATTACHMENTS \<or>
              length (rm_attachments m) > FACET_SEL4_MAX_ATTACHMENTS - count
      then (FACET_BUFFER_TOO_SMALL, m, pages)
      else case frame of
             None \<Rightarrow> (FACET_OUT_OF_MEMORY, m', pages)
           | Some c \<Rightarrow>
               if \<not> mappable then (FACET_ERROR, m', pages)
               else (FACET_OK,
                     m'\<lparr>rm_attachments := rm_attachments m @
                         [\<lparr>ra_kind = FACET_RPC_ATTACHMENT_BUFFER, ra_handle = Some c\<rparr>]\<rparr>,
                     pages(c := bytes @ drop n (pages c))))"

definition bulk_read_received :: "heap \<Rightarrow> bool \<Rightarrow> pages \<Rightarrow> u32 \<Rightarrow> nat \<Rightarrow> nat \<Rightarrow> nat \<Rightarrow> nat list \<Rightarrow> (string \<times> nat) option facet" where
  "bulk_read_received h mappable pages flags bytes first_buffer count caps =
     (if \<not> shared_payload flags then Inr None
      else if count = 0 \<or> bytes = 0 \<or> count > FACET_SEL4_MAX_ATTACHMENTS \<or>
              first_buffer + count > length caps
      then Inl FACET_PROTOCOL_ERROR
      else if bytes > count * page_size then Inl FACET_PROTOCOL_ERROR
      else bindE (alloc FACET_OUT_OF_MEMORY h) (\<lambda>_.
           if \<not> mappable then Inl FACET_ERROR
           else Inr (Some (take bytes (pages (caps ! first_buffer)), bytes))))"

section \<open>platform.c: requests\<close>

definition message_from_request :: "registers \<Rightarrow> FacetRpcMessage \<Rightarrow> Ipc facet" where
  "message_from_request mr m =
     (let bytes = payload_bytes m; words = rm_words m;
          inline = (if shared_payload (rm_flags m) then [] else payload_words bytes) in
      if length words > FACET_RPC_MAX_WORDS \<or>
         (\<not> shared_payload (rm_flags m) \<and> wire_word_count (length bytes) = SIZE_MAX) \<or>
         length words > SIZE_MAX - length inline - 3 \<or>
         length words + length inline + 3 > seL4_MsgMaxLength \<or>
         length (rm_attachments m) > FACET_SEL4_MAX_ATTACHMENTS
      then Inl FACET_INVALID_ARGUMENT
      else Inr \<lparr>ipc_mr = set_mrs (set_mrs (set_mrs mr 0
                  [ucast (rm_method_id m), ucast (rm_protocol_version m), ucast (rm_flags m),
                   word_of_nat (length bytes)]) 4 words) (length words + 4) inline,
                ipc_length = length words + length inline + 4,
                ipc_caps = map attachment_cap (rm_attachments m)\<rparr>)"

text \<open>The request half of remote_call; a method handle overrides the method.\<close>

definition remote_request :: "nat option \<Rightarrow> bool \<Rightarrow> pages \<Rightarrow> u32 \<Rightarrow> registers \<Rightarrow> FacetRpcMessage \<Rightarrow> (Ipc \<times> pages) facet" where
  "remote_request frame mappable pages method_id mr m =
     (let actual = (if method_id \<noteq> 0 then m\<lparr>rm_method_id := method_id\<rparr> else m) in
      case bulk_prepare frame mappable pages actual of
        (result, actual', pages') \<Rightarrow>
          if result \<noteq> FACET_OK then Inl result
          else bindE (message_from_request mr actual') (\<lambda>ipc. Inr (ipc, pages')))"

definition request_from_message :: "heap \<Rightarrow> registers \<Rightarrow> nat \<Rightarrow> (received_message \<times> heap) facet" where
  "request_from_message h mr n =
     (let flags = ucast (mr 2); bytes = unat (mr 3); shared = shared_payload flags;
          words = (if shared then 0 else wire_word_count bytes);
          available = (if n \<ge> 4 then n - 4 else 0);
          word_count = available - words in
      if (ucast (mr 1) :: u32) \<noteq> FACET_RPC_PROTOCOL_VERSION then Inl FACET_PROTOCOL_ERROR
      else if words = SIZE_MAX then Inl FACET_PROTOCOL_ERROR
      else if available < words \<or> words > seL4_MsgMaxLength - 4 then Inl FACET_PROTOCOL_ERROR
      else if \<not> shared \<and> bytes > seL4_MsgMaxLength * 8 then Inl FACET_PROTOCOL_ERROR
      else if word_count > FACET_RPC_MAX_WORDS then Inl FACET_PROTOCOL_ERROR
      else
      bindE (if \<not> shared \<and> bytes \<noteq> 0
             then bindE (alloc FACET_OUT_OF_MEMORY h) (\<lambda>h'.
                  Inr (Some (registers_payload mr (4 + word_count) words bytes, bytes), h'))
             else Inr (None, h)) (\<lambda>(payload, h').
      Inr ((\<lparr>rm_protocol_version = ucast (mr 1), rm_method_id = ucast (mr 0), rm_flags = flags,
            rm_words = map (\<lambda>i. mr (4 + i)) [0..<word_count],
            rm_payload = payload, rm_attachments = []\<rparr>, bytes), h')))"

text \<open>
  Received capabilities become handles, the last \<open>buffers\<close> of them buffers.  A
  capability arrives in a receive slot of the receiver, which is allocated before
  and not null whatever the sender named, so that a handle for it only takes memory.
\<close>

definition handle_attachment :: "heap \<Rightarrow> nat \<Rightarrow> FacetRpcAttachment" where
  "handle_attachment h cap =
     (if h = 0 then \<lparr>ra_kind = FACET_RPC_ATTACHMENT_BUFFER, ra_handle = None\<rparr>
      else \<lparr>ra_kind = FACET_RPC_ATTACHMENT_HANDLE, ra_handle = Some cap\<rparr>)"

definition received_attachments :: "heap \<Rightarrow> nat \<Rightarrow> nat list \<Rightarrow> FacetRpcAttachment list" where
  "received_attachments h buffers caps =
     map (\<lambda>i. if i \<ge> length caps - buffers
              then \<lparr>ra_kind = FACET_RPC_ATTACHMENT_BUFFER, ra_handle = None\<rparr>
              else handle_attachment h (caps ! i)) [0..<length caps]"

text \<open>The receiving half of a round of facet_sel4_server_entry.\<close>

definition server_request :: "heap \<Rightarrow> bool \<Rightarrow> pages \<Rightarrow> Ipc \<Rightarrow> received_message facet" where
  "server_request h mappable pages ipc =
     (let flags = ucast (ipc_mr ipc 2); buffers = buffer_count flags;
          caps = take FACET_SEL4_MAX_ATTACHMENTS (ipc_caps ipc) in
      if buffers > length caps then Inl FACET_PROTOCOL_ERROR
      else bindE (request_from_message h (ipc_mr ipc) (ipc_length ipc)) (\<lambda>((request, bytes), h').
           let request' = request\<lparr>rm_attachments := received_attachments h' buffers caps\<rparr> in
           if buffers = 0 then Inr (request', bytes)
           else bindE (bulk_read_received h' mappable pages flags bytes (length caps - buffers) buffers caps)
                  (\<lambda>payload. Inr (request'\<lparr>rm_payload := payload\<rparr>, bytes))))"

section \<open>platform.c: replies\<close>

text \<open>Every reply is built up from a message of zeros.\<close>

definition zero_reply :: FacetRpcMessage where
  "zero_reply = \<lparr>rm_protocol_version = FACET_RPC_PROTOCOL_VERSION, rm_method_id = 0, rm_flags = 0,
     rm_words = [], rm_payload = None, rm_attachments = []\<rparr>"

definition result_word :: "FacetResult \<Rightarrow> u64" where
  "result_word result = word_of_int (facet_result_code result)"

text \<open>
  The first word of a reply is the result code, in register 0; the others start
  at register 4.  The words of the payload are counted and written also when the
  payload is in a shared frame.  A reply that does not fit is replaced by an
  error, whose code is not sign-extended.
\<close>

definition reply_to_message :: "registers \<Rightarrow> FacetRpcMessage \<Rightarrow> Ipc" where
  "reply_to_message mr m =
     (let bytes = payload_bytes m; words = rm_words m; n = wire_word_count (length bytes);
          total = length words + n + 3 in
      if n = SIZE_MAX \<or> total > seL4_MsgMaxLength \<or> length (rm_attachments m) > FACET_SEL4_MAX_ATTACHMENTS
      then \<lparr>ipc_mr = set_mrs mr 0
              [ucast (word_of_int (facet_result_code FACET_BUFFER_TOO_SMALL) :: u32),
               ucast FACET_RPC_PROTOCOL_VERSION, 0, 0],
            ipc_length = 4, ipc_caps = []\<rparr>
      else \<lparr>ipc_mr = set_mrs (set_mrs (set_mrs mr 0
              [if words = [] then 0 else words ! 0, ucast FACET_RPC_PROTOCOL_VERSION, ucast (rm_flags m),
               word_of_nat (length bytes)]) 4 (tl words)) (length words + 3) (payload_words bytes),
            ipc_length = total, ipc_caps = map attachment_cap (rm_attachments m)\<rparr>)"

text \<open>The replying half of a round of facet_sel4_server_entry, after the dispatch.\<close>

definition server_reply :: "nat option \<Rightarrow> bool \<Rightarrow> pages \<Rightarrow> registers \<Rightarrow> FacetResult \<Rightarrow> FacetRpcMessage \<Rightarrow> Ipc \<times> pages" where
  "server_reply frame mappable pages mr result m =
     (let m1 = (if rm_words m = [] then m\<lparr>rm_words := [result_word result]\<rparr> else m) in
      case bulk_prepare frame mappable pages m1 of
        (bulk_result, m2, pages') \<Rightarrow>
          (reply_to_message mr
             (if bulk_result \<noteq> FACET_OK
              then m2\<lparr>rm_payload := None, rm_attachments := [],
                     rm_words := [result_word FACET_BUFFER_TOO_SMALL]\<rparr>
              else m2), pages'))"

text \<open>
  The reply half of remote_call, on a reply of zeros.  Keeping a received
  capability takes a slot and a copy, either of which can fail.  Payload words that
  the message is too short for are not read; payload_size keeps what was announced.
\<close>

definition remote_reply :: "heap \<Rightarrow> bool \<Rightarrow> bool \<Rightarrow> pages \<Rightarrow> Ipc \<Rightarrow> received_message facet" where
  "remote_reply h slots mappable pages ipc =
     (let mr = ipc_mr ipc; flags = ucast (mr 2); bytes = unat (mr 3); shared = shared_payload flags;
          words = (if shared then 0 else wire_word_count bytes);
          available = (if ipc_length ipc \<ge> 4 then ipc_length ipc - 4 else 0);
          word_count = 1 + (if available \<ge> words then available - words else 0);
          caps = take FACET_SEL4_MAX_ATTACHMENTS (ipc_caps ipc);
          buffers = buffer_count flags in
      if (ucast (mr 1) :: u32) \<noteq> FACET_RPC_PROTOCOL_VERSION then Inl FACET_PROTOCOL_ERROR
      else if words = SIZE_MAX then Inl FACET_PROTOCOL_ERROR
      else if word_count > FACET_RPC_MAX_WORDS then Inl FACET_PROTOCOL_ERROR
      else
      bindE (if \<not> shared \<and> bytes \<noteq> 0 \<and> words \<le> available
             then bindE (alloc FACET_OUT_OF_MEMORY h) (\<lambda>h'.
                  Inr (Some (registers_payload mr (4 + word_count - 1) words bytes, bytes), h'))
             else Inr (None, h)) (\<lambda>(payload, h').
      if buffers > length caps then Inl FACET_PROTOCOL_ERROR
      else if caps \<noteq> [] \<and> buffers = 0 \<and> (\<not> slots \<or> h' = 0) then Inl FACET_OUT_OF_MEMORY
      else let reply' = zero_reply\<lparr>rm_protocol_version := ucast (mr 1), rm_flags := flags,
             rm_words := mr 0 # map (\<lambda>i. mr (i + 3)) [1..<word_count], rm_payload := payload,
             rm_attachments := received_attachments h' buffers caps\<rparr> in
           if buffers = 0 then Inr (reply', bytes)
           else bindE (bulk_read_received h' mappable pages flags bytes (length caps - buffers) buffers caps)
                  (\<lambda>payload'. Inr (reply'\<lparr>rm_payload := payload'\<rparr>, bytes))))"

section \<open>client.c\<close>

text \<open>What libfacet_platform_call puts into the registers before the call.\<close>

definition client_request :: "registers \<Rightarrow> FacetRpcMessage \<Rightarrow> Ipc facet" where
  "client_request mr m =
     (let bytes = payload_bytes m; words = rm_words m; n = wire_word_count (length bytes) in
      if length (rm_attachments m) > FACET_RPC_MAX_ATTACHMENTS \<or>
         length (rm_attachments m) > seL4_MsgMaxExtraCaps \<or> n = SIZE_MAX \<or>
         length bytes > FACET_RPC_MAX_INLINE_PAYLOAD \<or> length words > FACET_RPC_MAX_WORDS \<or>
         length words > seL4_MsgMaxLength - 4 \<or> n > seL4_MsgMaxLength - 4 - length words
      then Inl FACET_NOT_SUPPORTED
      else if list_ex (\<lambda>a. ra_kind a \<noteq> FACET_RPC_ATTACHMENT_HANDLE \<or> ra_handle a = None) (rm_attachments m)
      then Inl FACET_NOT_SUPPORTED
      else Inr \<lparr>ipc_mr = set_mrs (set_mrs (set_mrs mr 4 words) 0
                  [ucast (rm_method_id m), ucast (rm_protocol_version m), ucast (rm_flags m),
                   word_of_nat (length bytes)]) (4 + length words) (payload_words bytes),
                ipc_length = 4 + length words + n,
                ipc_caps = map attachment_cap (rm_attachments m)\<rparr>)"

text \<open>
  What it reads back.  A received capability is claimed first: the receive slot
  advances with every message that carries one, also when the reply is refused.
\<close>

definition client_receive_slot_after :: "nat \<Rightarrow> Ipc \<Rightarrow> nat" where
  "client_receive_slot_after slot ipc = (if ipc_caps ipc \<noteq> [] then slot + 1 else slot)"

definition client_reply :: "heap \<Rightarrow> Ipc \<Rightarrow> received_message facet" where
  "client_reply h ipc =
     (let mr = ipc_mr ipc; flags = ucast (mr 2); bytes = unat (mr 3); words = wire_word_count bytes;
          available = ipc_length ipc - 4; word_count = 1 + available - words in
      if length (ipc_caps ipc) > 1 then Inl FACET_PROTOCOL_ERROR
      else if ipc_length ipc < 4 then Inl FACET_PROTOCOL_ERROR
      else if shared_payload flags \<or> bytes > FACET_RPC_MAX_INLINE_PAYLOAD then Inl FACET_NOT_SUPPORTED
      else if words = SIZE_MAX \<or> words > available then Inl FACET_PROTOCOL_ERROR
      else if word_count > FACET_RPC_MAX_WORDS then Inl FACET_PROTOCOL_ERROR
      else if (ucast (mr 1) :: u32) \<noteq> FACET_RPC_PROTOCOL_VERSION then Inl FACET_PROTOCOL_ERROR
      else
      bindE (if bytes \<noteq> 0
             then bindE (alloc FACET_OUT_OF_MEMORY h) (\<lambda>h'.
                  Inr (Some (registers_payload mr (4 + word_count - 1) words bytes, bytes), h'))
             else Inr (None, h)) (\<lambda>(payload, h').
      if ipc_caps ipc \<noteq> [] \<and> h' = 0 then Inl FACET_OUT_OF_MEMORY
      else Inr (zero_reply\<lparr>rm_protocol_version := ucast (mr 1), rm_flags := flags,
             rm_words := mr 0 # map (\<lambda>i. mr (4 + i - 1)) [1..<word_count], rm_payload := payload,
             rm_attachments := map (\<lambda>c. \<lparr>ra_kind = FACET_RPC_ATTACHMENT_HANDLE, ra_handle = Some c\<rparr>)
               (ipc_caps ipc)\<rparr>, bytes)))"

section \<open>service.c\<close>

text \<open>Without an overflow test; decode_request has bounded the size before.\<close>

definition wire_words :: "nat \<Rightarrow> nat" where
  "wire_words bytes = ((bytes + 7) mod 2 ^ 64) div 8"

definition decode_request :: "heap \<Rightarrow> Ipc \<Rightarrow> received_message facet" where
  "decode_request h ipc =
     (let mr = ipc_mr ipc; n = ipc_length ipc; bytes = unat (mr 3); words = wire_words bytes;
          word_count = n - 4 - words in
      if n < 4 then Inl FACET_PROTOCOL_ERROR
      else if (ucast (mr 1) :: u32) \<noteq> FACET_RPC_PROTOCOL_VERSION \<or> bytes > FACET_RPC_MAX_INLINE_PAYLOAD
      then Inl FACET_PROTOCOL_ERROR
      else if words > n - 4 then Inl FACET_PROTOCOL_ERROR
      else if word_count > FACET_RPC_MAX_WORDS then Inl FACET_PROTOCOL_ERROR
      else
      bindE (if bytes \<noteq> 0
             then bindE (alloc FACET_OUT_OF_MEMORY h) (\<lambda>h'.
                  Inr (Some (registers_payload mr (4 + word_count) words bytes, bytes), h'))
             else Inr (None, h)) (\<lambda>(payload, h').
      if length (ipc_caps ipc) > 1 then Inl FACET_PROTOCOL_ERROR
      else if ipc_caps ipc \<noteq> [] \<and> h' = 0 then Inl FACET_OUT_OF_MEMORY
      else Inr (\<lparr>rm_protocol_version = ucast (mr 1), rm_method_id = ucast (mr 0), rm_flags = ucast (mr 2),
                rm_words = map (\<lambda>i. mr (4 + i)) [0..<word_count], rm_payload = payload,
                rm_attachments = map (\<lambda>c. \<lparr>ra_kind = FACET_RPC_ATTACHMENT_HANDLE, ra_handle = Some c\<rparr>)
                  (ipc_caps ipc)\<rparr>, bytes)))"

definition encode_reply :: "registers \<Rightarrow> FacetRpcMessage \<Rightarrow> FacetResult \<Rightarrow> Ipc" where
  "encode_reply mr m result =
     (let m1 = (if rm_words m = [] then m\<lparr>rm_words := [result_word result]\<rparr> else m);
          n = wire_words (length (payload_bytes m1));
          m2 = (if length (payload_bytes m1) > FACET_RPC_MAX_INLINE_PAYLOAD \<or>
                   length (rm_words m1) - 1 > FACET_RPC_MAX_WORDS \<or>
                   4 + length (rm_words m1) - 1 + n > seL4_MsgMaxLength \<or> length (rm_attachments m1) > 1
                then m1\<lparr>rm_words := [result_word FACET_BUFFER_TOO_SMALL], rm_payload := None,
                       rm_attachments := []\<rparr>
                else m1) in
      \<lparr>ipc_mr = set_mrs (set_mrs (set_mrs mr 0
         [rm_words m2 ! 0, ucast FACET_RPC_PROTOCOL_VERSION, ucast (rm_flags m2),
          word_of_nat (length (payload_bytes m2))]) 4 (tl (rm_words m2)))
         (3 + length (rm_words m2)) (payload_words (payload_bytes m2)),
       ipc_length = 3 + length (rm_words m2) + length (payload_words (payload_bytes m2)),
       ipc_caps = map attachment_cap (rm_attachments m2)\<rparr>)"

text \<open>The objects a service exports; an object's badge is its position, from 1.\<close>

record 'd ServiceExport =
  se_dispatch :: "'d option"
  se_handle_cap :: nat

record 'd Service =
  sv_exports :: "'d ServiceExport list"
  sv_next_export_slot :: nat

abbreviation SERVICE_EXPORT_MAX :: nat where "SERVICE_EXPORT_MAX \<equiv> 64"

text \<open>
  Exporting returns the badge and the capability of the new object.  The slot is
  taken before the capability is minted, and is not given back on a failure.
\<close>

definition service_export :: "bool \<Rightarrow> heap \<Rightarrow> 'd \<Rightarrow> 'd Service \<Rightarrow> (nat \<times> nat) facet \<times> 'd Service" where
  "service_export minted h dispatch s =
     (if length (sv_exports s) = SERVICE_EXPORT_MAX then (Inl FACET_INVALID_ARGUMENT, s)
      else (let slot = sv_next_export_slot s; s' = s\<lparr>sv_next_export_slot := slot + 1\<rparr> in
            if \<not> minted then (Inl FACET_ERROR, s')
            else if h = 0 then (Inl FACET_OUT_OF_MEMORY, s')
            else (Inr (length (sv_exports s) + 1, slot),
                  s'\<lparr>sv_exports := sv_exports s @
                     [\<lparr>se_dispatch = Some dispatch, se_handle_cap = slot\<rparr>]\<rparr>)))"

definition service_unexport :: "nat \<Rightarrow> 'd Service \<Rightarrow> 'd Service facet" where
  "service_unexport object_id s =
     (if object_id = 0 \<or> object_id > length (sv_exports s) then Inl FACET_INVALID_HANDLE
      else Inr (s\<lparr>sv_exports := (sv_exports s)[object_id - 1 :=
             (sv_exports s ! (object_id - 1))\<lparr>se_dispatch := None, se_handle_cap := 0\<rparr>]\<rparr>))"

text \<open>Which object a message with a badge reaches.\<close>

definition service_target :: "nat \<Rightarrow> 'd Service \<Rightarrow> 'd facet" where
  "service_target badge s =
     (if badge = 0 \<or> badge > length (sv_exports s) then Inl FACET_INVALID_HANDLE
      else case se_dispatch (sv_exports s ! (badge - 1)) of
             None \<Rightarrow> Inl FACET_INVALID_HANDLE
           | Some d \<Rightarrow> Inr d)"

text \<open>A round of facet_sel4_service_run: the registers of the reply.\<close>

definition service_round ::
  "heap \<Rightarrow> registers \<Rightarrow> nat \<Rightarrow> Ipc \<Rightarrow> (received_message \<Rightarrow> FacetResult \<times> FacetRpcMessage) Service \<Rightarrow> Ipc" where
  "service_round h mr badge ipc s =
     (case bindE (decode_request h ipc) (\<lambda>request.
             bindE (service_target badge s) (\<lambda>d. Inr (d request))) of
        Inl e \<Rightarrow> encode_reply mr zero_reply e
      | Inr (result, reply) \<Rightarrow> encode_reply mr reply result)"

section \<open>Payloads survive the registers\<close>

lemma wire_word_count_eq: "n \<le> 4096 \<Longrightarrow> wire_word_count n = (n + 7) div 8"
  by (simp add: wire_word_count_def)

lemma wire_words_eq: "n \<le> 4096 \<Longrightarrow> wire_words n = wire_word_count n"
  by (simp add: wire_words_def wire_word_count_def)

lemma length_payload_words [simp]: "length (payload_words bs) = wire_word_count (length bs)"
  by (simp add: payload_words_def)

lemma take_payload_blocks:
  "take (length bs) (concat (map (\<lambda>i. uint_bytes (bytes_uint 0 0 (take 8 (drop (8 * i) bs))) 8) [0..<n])) =
   take (8 * n) bs"
proof (induction n)
  case (Suc n)
  let ?block = "\<lambda>i. uint_bytes (bytes_uint 0 0 (take 8 (drop (8 * i) bs))) 8"
  have size: "length (concat (map ?block [0..<n])) = 8 * n"
    by (induction n) auto
  show ?case
  proof (cases "8 * n \<le> length bs")
    case True
    have "take (length (take 8 (drop (8 * n) bs))) (?block n) = take 8 (drop (8 * n) bs)"
      by (rule take_uint_bytes) simp
    then have "take (length bs - 8 * n) (?block n) = take 8 (drop (8 * n) bs)"
      by (auto simp: min_def split: if_splits)
    with True Suc size show ?thesis
      by (simp add: take_add add.commute [of 8])
  next
    case False
    with Suc size show ?thesis by simp
  qed
qed simp

lemma registers_payload_words:
  assumes "length bs \<le> 4096" and "\<And>i. i < wire_word_count (length bs) \<Longrightarrow> mr (start + i) = payload_words bs ! i"
  shows "registers_payload mr start (wire_word_count (length bs)) (length bs) = bs"
proof -
  let ?n = "wire_word_count (length bs)"
  have "map (\<lambda>i. uint_bytes (mr (start + i)) 8) [0..<?n] =
        map (\<lambda>i. uint_bytes (bytes_uint 0 0 (take 8 (drop (8 * i) bs))) 8) [0..<?n]"
    using assms(2) by (auto simp: payload_words_def)
  then have "registers_payload mr start ?n (length bs) = take (8 * ?n) bs"
    unfolding registers_payload_def by (simp only: take_payload_blocks)
  also have "\<dots> = bs" using assms(1) by (simp add: wire_word_count_eq)
  finally show ?thesis .
qed

section \<open>The register layout as an interface\<close>

text \<open>What the kernel guarantees of a message of at most 120 registers: its registers and capabilities arrive.\<close>

definition delivers :: "Ipc \<Rightarrow> Ipc \<Rightarrow> bool" where
  "delivers sent received \<longleftrightarrow>
     map (ipc_mr received) [0..<ipc_length received] = map (ipc_mr sent) [0..<ipc_length sent] \<and>
     ipc_caps received = ipc_caps sent"

definition request_registers :: "FacetRpcMessage \<Rightarrow> u64 list" where
  "request_registers m =
     [ucast (rm_method_id m), ucast (rm_protocol_version m), ucast (rm_flags m),
      word_of_nat (length (payload_bytes m))] @ rm_words m @ payload_words (payload_bytes m)"

definition reply_registers :: "FacetRpcMessage \<Rightarrow> u64 list" where
  "reply_registers m =
     [hd (rm_words m), ucast (rm_protocol_version m), ucast (rm_flags m),
      word_of_nat (length (payload_bytes m))] @ tl (rm_words m) @ payload_words (payload_bytes m)"

definition laid_out :: "u64 list \<Rightarrow> FacetRpcMessage \<Rightarrow> Ipc \<Rightarrow> bool" where
  "laid_out regs m ipc \<longleftrightarrow>
     map (ipc_mr ipc) [0..<ipc_length ipc] = regs \<and> ipc_caps ipc = map attachment_cap (rm_attachments m)"

text \<open>The messages every program of the system can exchange.\<close>

definition inline_message :: "FacetRpcMessage \<Rightarrow> bool" where
  "inline_message m \<longleftrightarrow>
     rm_protocol_version m = FACET_RPC_PROTOCOL_VERSION \<and> \<not> shared_payload (rm_flags m) \<and>
     length (rm_words m) \<le> FACET_RPC_MAX_WORDS \<and> length (payload_bytes m) \<le> FACET_RPC_MAX_INLINE_PAYLOAD \<and>
     length (rm_attachments m) \<le> FACET_SEL4_MAX_ATTACHMENTS \<and>
     (\<forall>a \<in> set (rm_attachments m). ra_kind a = FACET_RPC_ATTACHMENT_HANDLE \<and> attachment_cap a \<noteq> 0)"

definition inline_reply :: "FacetRpcMessage \<Rightarrow> bool" where
  "inline_reply m \<longleftrightarrow> inline_message m \<and> rm_words m \<noteq> []"

text \<open>A received message owns an exact copy of the payload; a reply has no method.\<close>

definition as_received :: "FacetRpcMessage \<Rightarrow> received_message" where
  "as_received m =
     (m\<lparr>rm_payload := (if payload_bytes m = [] then None
                        else Some (payload_bytes m, length (payload_bytes m)))\<rparr>, length (payload_bytes m))"

definition reply_as_received :: "FacetRpcMessage \<Rightarrow> received_message" where
  "reply_as_received m = as_received (m\<lparr>rm_method_id := 0\<rparr>)"

lemma payload_bytes_method [simp]: "payload_bytes (m\<lparr>rm_method_id := i\<rparr>) = payload_bytes m"
  by (simp add: payload_bytes_def)

lemma laid_out_length: "laid_out regs m ipc \<Longrightarrow> ipc_length ipc = length regs"
  unfolding laid_out_def by (metis diff_zero length_map length_upt)

locale wire_sender =
  fixes fits :: "FacetRpcMessage \<Rightarrow> bool"
    and regs :: "FacetRpcMessage \<Rightarrow> u64 list"
    and send :: "registers \<Rightarrow> FacetRpcMessage \<Rightarrow> Ipc facet"
  assumes send_layout:
    "fits m \<Longrightarrow> length (regs m) \<le> seL4_MsgMaxLength \<Longrightarrow> \<exists>ipc. send mr m = Inr ipc \<and> laid_out (regs m) m ipc"

locale wire_receiver =
  fixes fits :: "FacetRpcMessage \<Rightarrow> bool"
    and regs :: "FacetRpcMessage \<Rightarrow> u64 list"
    and view :: "FacetRpcMessage \<Rightarrow> received_message"
    and receive :: "heap \<Rightarrow> Ipc \<Rightarrow> received_message facet"
  assumes receive_layout:
    "fits m \<Longrightarrow> length (regs m) \<le> seL4_MsgMaxLength \<Longrightarrow> laid_out (regs m) m ipc \<Longrightarrow> 2 \<le> h \<Longrightarrow>
     receive h ipc = Inr (view m)"

locale wire_channel = wire_sender fits regs send + wire_receiver fits regs view receive
  for fits regs send view receive
begin

lemma delivered:
  assumes "fits m" and "length (regs m) \<le> seL4_MsgMaxLength" and "2 \<le> h"
  shows "\<exists>ipc. send mr m = Inr ipc \<and> ipc_length ipc \<le> seL4_MsgMaxLength \<and>
           (\<forall>ipc'. delivers ipc ipc' \<longrightarrow> receive h ipc' = Inr (view m))"
proof -
  obtain ipc where ipc: "send mr m = Inr ipc" "laid_out (regs m) m ipc"
    using send_layout assms by blast
  then have "ipc_length ipc = length (regs m)" by (simp add: laid_out_length)
  moreover have "laid_out (regs m) m ipc'" if "delivers ipc ipc'" for ipc'
    using that ipc(2) by (simp add: delivers_def laid_out_def)
  ultimately show ?thesis using ipc(1) receive_layout assms by auto
qed

end

section \<open>The senders\<close>

lemma set_mrs_Nil [simp]: "set_mrs mr k [] = mr"
  by (rule ext) (auto simp: set_mrs_def)

lemma map_set_mrs_append:
  "map (set_mrs mr k ws) [0..<k + length ws] = map mr [0..<k] @ ws"
  by (rule nth_equalityI) (auto simp: nth_append set_mrs_def)

lemma map_set_mrs_layout:
  assumes "length hs = 4"
  shows "map (set_mrs (set_mrs (set_mrs mr 0 hs) 4 ws) (4 + length ws) ps) [0..<4 + length ws + length ps] =
         hs @ ws @ ps"
proof -
  have "map (set_mrs mr 0 hs) [0..<4] = hs"
    using map_set_mrs_append [of mr 0 hs] assms by (simp only: add_0 upt_0 list.map append_Nil)
  then show ?thesis by (simp only: map_set_mrs_append append_assoc)
qed

lemma inline_count: "n \<le> 512 \<Longrightarrow> wire_word_count n \<noteq> SIZE_MAX \<and> wire_word_count n \<le> 64"
  by (auto simp: wire_word_count_eq)

lemma bulk_prepare_inline:
  "length (payload_bytes m) \<le> FACET_RPC_MAX_INLINE_PAYLOAD \<Longrightarrow>
   bulk_prepare frame mappable pages m = (FACET_OK, m, pages)"
  by (simp add: bulk_prepare_def)

definition remote_send :: "nat option \<Rightarrow> bool \<Rightarrow> pages \<Rightarrow> registers \<Rightarrow> FacetRpcMessage \<Rightarrow> Ipc facet" where
  "remote_send frame mappable pages mr m = map_sum id fst (remote_request frame mappable pages 0 mr m)"

lemma attachment_cap_nonzero: "attachment_cap a > 0 \<longleftrightarrow> (\<exists>c > 0. ra_handle a = Some c)"
  by (auto simp: attachment_cap_def split: option.splits)

text \<open>The three writes every message is made of: header, words and payload.\<close>

definition written :: "registers \<Rightarrow> u64 list \<Rightarrow> u64 list \<Rightarrow> FacetRpcMessage \<Rightarrow> Ipc" where
  "written mr hs ws m =
     \<lparr>ipc_mr = set_mrs (set_mrs (set_mrs mr 0 hs) 4 ws) (4 + length ws) (payload_words (payload_bytes m)),
      ipc_length = 4 + length ws + wire_word_count (length (payload_bytes m)),
      ipc_caps = map attachment_cap (rm_attachments m)\<rparr>"

lemma laid_out_written:
  assumes "length hs = 4"
  shows "laid_out (hs @ ws @ payload_words (payload_bytes m)) m (written mr hs ws m)"
  using map_set_mrs_layout [OF assms, of mr ws "payload_words (payload_bytes m)"]
  unfolding laid_out_def written_def Ipc.simps length_payload_words by blast

lemma message_from_request_inline:
  assumes "inline_message m" and "length (request_registers m) \<le> seL4_MsgMaxLength"
  shows "\<exists>ipc. message_from_request mr m = Inr ipc \<and> laid_out (request_registers m) m ipc"
proof -
  have "\<not> shared_payload (rm_flags m)" using assms(1) by (simp add: inline_message_def)
  moreover have "\<not> (length (rm_words m) > FACET_RPC_MAX_WORDS \<or>
      wire_word_count (length (payload_bytes m)) = SIZE_MAX \<or>
      length (rm_words m) > SIZE_MAX - length (payload_words (payload_bytes m)) - 3 \<or>
      length (rm_words m) + length (payload_words (payload_bytes m)) + 3 > seL4_MsgMaxLength \<or>
      length (rm_attachments m) > FACET_SEL4_MAX_ATTACHMENTS)"
    using assms inline_count [of "length (payload_bytes m)"]
    by (simp add: inline_message_def request_registers_def)
  ultimately have "message_from_request mr m = Inr (written mr
      [ucast (rm_method_id m), ucast (rm_protocol_version m), ucast (rm_flags m),
       word_of_nat (length (payload_bytes m))] (rm_words m) m)"
    by (simp add: message_from_request_def Let_def written_def add.commute [of _ 4] add.assoc)
  then show ?thesis
    unfolding request_registers_def by (intro exI conjI, assumption) (simp only: laid_out_written list.size)
qed

interpretation remote_sender: wire_sender inline_message request_registers "remote_send frame mappable pages"
  for frame mappable pages
proof
  fix m mr assume m: "inline_message m" "length (request_registers m) \<le> seL4_MsgMaxLength"
  then have "length (payload_bytes m) \<le> FACET_RPC_MAX_INLINE_PAYLOAD" by (simp add: inline_message_def)
  then have "remote_send frame mappable pages mr m = message_from_request mr m"
    by (auto simp: remote_send_def remote_request_def bulk_prepare_inline bindE_def split: sum.splits)
  with message_from_request_inline [OF m]
  show "\<exists>ipc. remote_send frame mappable pages mr m = Inr ipc \<and> laid_out (request_registers m) m ipc" by simp
qed

interpretation client_sender: wire_sender inline_message request_registers client_request
proof
  fix m mr assume m: "inline_message m" "length (request_registers m) \<le> seL4_MsgMaxLength"
  let ?hs = "[ucast (rm_method_id m), ucast (rm_protocol_version m), ucast (rm_flags m),
      word_of_nat (length (payload_bytes m))] :: u64 list"
  have swap: "set_mrs (set_mrs mr 4 (rm_words m)) 0 ?hs = set_mrs (set_mrs mr 0 ?hs) 4 (rm_words m)"
    by (auto simp: set_mrs_def fun_eq_iff)
  have "\<not> (length (rm_attachments m) > FACET_RPC_MAX_ATTACHMENTS \<or>
         length (rm_attachments m) > seL4_MsgMaxExtraCaps \<or> wire_word_count (length (payload_bytes m)) = SIZE_MAX \<or>
         length (payload_bytes m) > FACET_RPC_MAX_INLINE_PAYLOAD \<or> length (rm_words m) > FACET_RPC_MAX_WORDS \<or>
         length (rm_words m) > seL4_MsgMaxLength - 4 \<or>
         wire_word_count (length (payload_bytes m)) > seL4_MsgMaxLength - 4 - length (rm_words m))"
    using m inline_count [of "length (payload_bytes m)"] by (simp add: inline_message_def request_registers_def)
  moreover have "\<not> list_ex (\<lambda>a. ra_kind a \<noteq> FACET_RPC_ATTACHMENT_HANDLE \<or> ra_handle a = None) (rm_attachments m)"
    using m(1) by (auto simp: inline_message_def list_ex_iff attachment_cap_nonzero)
  ultimately have "client_request mr m = Inr (written mr ?hs (rm_words m) m)"
    unfolding client_request_def Let_def written_def by (simp only: if_False swap)
  then show "\<exists>ipc. client_request mr m = Inr ipc \<and> laid_out (request_registers m) m ipc"
    unfolding request_registers_def by (intro exI conjI, assumption) (rule laid_out_written, simp)
qed

definition server_send :: "nat option \<Rightarrow> bool \<Rightarrow> pages \<Rightarrow> FacetResult \<Rightarrow> registers \<Rightarrow> FacetRpcMessage \<Rightarrow> Ipc facet" where
  "server_send frame mappable pages result mr m = Inr (fst (server_reply frame mappable pages mr result m))"

definition service_send :: "FacetResult \<Rightarrow> registers \<Rightarrow> FacetRpcMessage \<Rightarrow> Ipc facet" where
  "service_send result mr m = Inr (encode_reply mr m result)"

abbreviation reply_header :: "FacetRpcMessage \<Rightarrow> u64 list" where
  "reply_header m \<equiv> [hd (rm_words m), ucast (rm_protocol_version m), ucast (rm_flags m),
     word_of_nat (length (payload_bytes m))]"

interpretation server_sender: wire_sender inline_reply reply_registers "server_send frame mappable pages result"
  for frame mappable pages result
proof
  fix m mr assume m: "inline_reply m" "length (reply_registers m) \<le> seL4_MsgMaxLength"
  obtain w ws where words: "rm_words m = w # ws" using m(1) by (cases "rm_words m") (auto simp: inline_reply_def)
  have "reply_to_message mr m = written mr (reply_header m) (tl (rm_words m)) m"
    using m inline_count [of "length (payload_bytes m)"] words
    by (simp add: reply_to_message_def Let_def written_def inline_reply_def inline_message_def
        reply_registers_def)
  moreover have "fst (server_reply frame mappable pages mr result m) = reply_to_message mr m"
    using m(1) words by (simp add: server_reply_def bulk_prepare_inline inline_reply_def inline_message_def)
  ultimately show "\<exists>ipc. server_send frame mappable pages result mr m = Inr ipc \<and> laid_out (reply_registers m) m ipc"
    unfolding server_send_def reply_registers_def by (simp only: sum.inject) (simp only: laid_out_written list.size simp_thms)
qed

interpretation service_sender: wire_sender inline_reply reply_registers "service_send result" for result
proof
  fix m mr assume m: "inline_reply m" "length (reply_registers m) \<le> seL4_MsgMaxLength"
  obtain w ws where words: "rm_words m = w # ws" using m(1) by (cases "rm_words m") (auto simp: inline_reply_def)
  have "encode_reply mr m result = written mr (reply_header m) (tl (rm_words m)) m"
    using m inline_count [of "length (payload_bytes m)"] words
    by (simp add: encode_reply_def Let_def written_def inline_reply_def inline_message_def
        reply_registers_def wire_words_eq)
  then show "\<exists>ipc. service_send result mr m = Inr ipc \<and> laid_out (reply_registers m) m ipc"
    unfolding service_send_def reply_registers_def by (simp only: sum.inject) (simp only: laid_out_written list.size simp_thms)
qed

section \<open>The receivers\<close>

lemma laid_out_registers:
  assumes "laid_out (hs @ ws @ payload_words bs) m ipc" and "length hs = 4"
  shows "ipc_length ipc = 4 + length ws + wire_word_count (length bs)"
    and "i < 4 \<Longrightarrow> ipc_mr ipc i = hs ! i"
    and "i < length ws \<Longrightarrow> ipc_mr ipc (4 + i) = ws ! i"
    and "i < wire_word_count (length bs) \<Longrightarrow> ipc_mr ipc (4 + length ws + i) = payload_words bs ! i"
proof -
  let ?regs = "hs @ ws @ payload_words bs"
  show size: "ipc_length ipc = 4 + length ws + wire_word_count (length bs)"
    using laid_out_length [OF assms(1)] assms(2) by simp
  have reg: "ipc_mr ipc j = ?regs ! j" if "j < 4 + length ws + wire_word_count (length bs)" for j
  proof -
    have "map (ipc_mr ipc) [0..<ipc_length ipc] ! j = ?regs ! j" using assms(1) by (simp add: laid_out_def)
    with that size show ?thesis by simp
  qed
  show "i < 4 \<Longrightarrow> ipc_mr ipc i = hs ! i"
    and "i < length ws \<Longrightarrow> ipc_mr ipc (4 + i) = ws ! i"
    and "i < wire_word_count (length bs) \<Longrightarrow> ipc_mr ipc (4 + length ws + i) = payload_words bs ! i"
    using reg [of i] reg [of "4 + i"] reg [of "4 + length ws + i"] assms(2) by (auto simp: nth_append)
qed

lemma ucast_word_u32 [simp]: "ucast (ucast (w :: u32) :: u64) = w"
  by (rule bit_word_eqI) (simp add: bit_ucast_iff)

lemma unat_payload_size [simp]: "n \<le> 4096 \<Longrightarrow> unat (word_of_nat n :: u64) = n"
  by (simp add: unsigned_of_nat take_bit_nat_eq_self_iff)

text \<open>What all four receivers compute from the registers of an inline message.\<close>

lemma laid_out_inline:
  assumes "laid_out (hs @ ws @ payload_words (payload_bytes m)) m ipc" and "inline_message m"
    and "hs = [w, ucast (rm_protocol_version m), ucast (rm_flags m), word_of_nat (length (payload_bytes m))]"
  shows "ipc_length ipc = 4 + length ws + wire_word_count (length (payload_bytes m))"
    and "ipc_mr ipc 0 = w" and "ucast (ipc_mr ipc 1) = FACET_RPC_PROTOCOL_VERSION"
    and "ucast (ipc_mr ipc 2) = rm_flags m" and "unat (ipc_mr ipc 3) = length (payload_bytes m)"
    and "map (\<lambda>i. ipc_mr ipc (4 + i)) [0..<length ws] = ws"
    and "registers_payload (ipc_mr ipc) (4 + length ws) (wire_word_count (length (payload_bytes m)))
           (length (payload_bytes m)) = payload_bytes m"
    and "ipc_caps ipc = map attachment_cap (rm_attachments m)"
proof -
  have four: "length hs = 4" using assms(3) by simp
  note regs = laid_out_registers [OF assms(1) four]
  show "ipc_length ipc = 4 + length ws + wire_word_count (length (payload_bytes m))" by (rule regs(1))
  show "ipc_mr ipc 0 = w" "ucast (ipc_mr ipc 1) = FACET_RPC_PROTOCOL_VERSION"
    "ucast (ipc_mr ipc 2) = rm_flags m" "unat (ipc_mr ipc 3) = length (payload_bytes m)"
    using regs(2) [of 0] regs(2) [of 1] regs(2) [of 2] regs(2) [of 3] assms(2,3)
    by (simp_all add: inline_message_def)
  show "map (\<lambda>i. ipc_mr ipc (4 + i)) [0..<length ws] = ws"
    by (rule nth_equalityI) (simp_all add: regs(3))
  show "registers_payload (ipc_mr ipc) (4 + length ws) (wire_word_count (length (payload_bytes m)))
          (length (payload_bytes m)) = payload_bytes m"
    using assms(2) by (intro registers_payload_words regs(4)) (auto simp: inline_message_def)
  show "ipc_caps ipc = map attachment_cap (rm_attachments m)" using assms(1) by (simp add: laid_out_def)
qed

lemma inline_attachments:
  assumes "inline_message m"
  shows "map (\<lambda>c. \<lparr>ra_kind = FACET_RPC_ATTACHMENT_HANDLE, ra_handle = Some c\<rparr>)
           (map attachment_cap (rm_attachments m)) = rm_attachments m"
    and "0 < h \<Longrightarrow> received_attachments h 0 (map attachment_cap (rm_attachments m)) = rm_attachments m"
proof -
  have each: "\<lparr>ra_kind = FACET_RPC_ATTACHMENT_HANDLE, ra_handle = Some (attachment_cap a)\<rparr> = a"
    "attachment_cap a > 0" if "a \<in> set (rm_attachments m)" for a
    using assms that by (cases a; auto simp: inline_message_def attachment_cap_def split: option.splits)+
  then show "map (\<lambda>c. \<lparr>ra_kind = FACET_RPC_ATTACHMENT_HANDLE, ra_handle = Some c\<rparr>)
           (map attachment_cap (rm_attachments m)) = rm_attachments m"
    by (simp add: map_idI)
  show "received_attachments h 0 (map attachment_cap (rm_attachments m)) = rm_attachments m" if "0 < h"
    using that each [OF nth_mem]
    by (intro nth_equalityI) (auto simp: received_attachments_def handle_attachment_def dest: less_not_refl2)
qed

lemma inline_buffer_count: "inline_message m \<Longrightarrow> buffer_count (rm_flags m) = 0"
  by (simp add: inline_message_def buffer_count_def)

lemma alloc_Suc [simp]: "2 \<le> h \<Longrightarrow> alloc e h = Inr (h - 1)"
  by (cases h) (auto simp: alloc_def)

lemma shifted_words:
  assumes "map (\<lambda>i. f (4 + i)) [0..<n] = xs"
  shows "map (\<lambda>i. f (i + 3)) [1..<1 + n] = xs" and "map (\<lambda>i. f (4 + i - 1)) [1..<1 + n] = xs"
  using assms by (simp_all add: map_Suc_upt [symmetric] numeral_eq_Suc comp_def del: upt_Suc)

interpretation server_receiver:
  wire_receiver inline_message request_registers as_received "\<lambda>h. server_request h mappable pages"
  for mappable pages
proof
  note One_nat_def [simp del]
  fix m ipc and h :: heap
  assume m: "inline_message m" "length (request_registers m) \<le> seL4_MsgMaxLength"
    "laid_out (request_registers m) m ipc" "2 \<le> h"
  note read = laid_out_inline [OF m(3) [unfolded request_registers_def] m(1) refl]
  have bounds: "\<not> shared_payload (rm_flags m)" "length (rm_words m) \<le> 64" "length (payload_bytes m) \<le> 512"
    "length (rm_attachments m) \<le> 1" "rm_protocol_version m = 1"
    using m(1) by (simp_all add: inline_message_def)
  show "server_request h mappable pages ipc = Inr (as_received m)"
    using m(4) bounds inline_count [of "length (payload_bytes m)"] inline_attachments(2) [OF m(1)]
    by (simp add: Let_def server_request_def request_from_message_def read inline_buffer_count [OF m(1)] as_received_def)
qed

interpretation service_receiver: wire_receiver inline_message request_registers as_received decode_request
proof
  note One_nat_def [simp del]
  fix m ipc and h :: heap
  assume m: "inline_message m" "length (request_registers m) \<le> seL4_MsgMaxLength"
    "laid_out (request_registers m) m ipc" "2 \<le> h"
  note read = laid_out_inline [OF m(3) [unfolded request_registers_def] m(1) refl]
  have bounds: "length (rm_words m) \<le> 64" "length (payload_bytes m) \<le> 512"
    "length (rm_attachments m) \<le> 1" "rm_protocol_version m = 1"
    using m(1) by (simp_all add: inline_message_def)
  show "decode_request h ipc = Inr (as_received m)"
    using m(4) bounds inline_count [of "length (payload_bytes m)"] inline_attachments(1) [OF m(1)]
    by (simp add: Let_def decode_request_def wire_words_eq read as_received_def)
qed

interpretation remote_receiver:
  wire_receiver inline_reply reply_registers reply_as_received "\<lambda>h. remote_reply h True mappable pages"
  for mappable pages
proof
  note One_nat_def [simp del]
  fix m ipc and h :: heap
  assume m: "inline_reply m" "length (reply_registers m) \<le> seL4_MsgMaxLength"
    "laid_out (reply_registers m) m ipc" "2 \<le> h"
  have inline: "inline_message m" and words: "rm_words m = hd (rm_words m) # tl (rm_words m)"
    using m(1) by (simp_all add: inline_reply_def)
  note read = laid_out_inline [OF m(3) [unfolded reply_registers_def] inline refl]
  have bounds: "\<not> shared_payload (rm_flags m)" "length (rm_words m) \<le> 64" "length (payload_bytes m) \<le> 512"
    "length (rm_attachments m) \<le> 1" "rm_protocol_version m = 1"
    using inline by (simp_all add: inline_message_def)
  have short: "length (tl (rm_words m)) \<le> 63" using bounds(2) by simp
  note length_tl [simp del]
  note tail = shifted_words(1) [OF read(6)]
  show "remote_reply h True mappable pages ipc = Inr (reply_as_received m)"
    using m(4) bounds inline_count [of "length (payload_bytes m)"] inline_attachments(2) [OF inline] words short tail
    by (simp add: Let_def remote_reply_def read inline_buffer_count [OF inline] reply_as_received_def as_received_def
        zero_reply_def)
qed

interpretation client_receiver: wire_receiver inline_reply reply_registers reply_as_received client_reply
proof
  note One_nat_def [simp del]
  fix m ipc and h :: heap
  assume m: "inline_reply m" "length (reply_registers m) \<le> seL4_MsgMaxLength"
    "laid_out (reply_registers m) m ipc" "2 \<le> h"
  have inline: "inline_message m" and words: "rm_words m = hd (rm_words m) # tl (rm_words m)"
    using m(1) by (simp_all add: inline_reply_def)
  note read = laid_out_inline [OF m(3) [unfolded reply_registers_def] inline refl]
  have bounds: "\<not> shared_payload (rm_flags m)" "length (rm_words m) \<le> 64" "length (payload_bytes m) \<le> 512"
    "length (rm_attachments m) \<le> 1" "rm_protocol_version m = 1"
    using inline by (simp_all add: inline_message_def)
  have short: "length (tl (rm_words m)) \<le> 63" using bounds(2) by simp
  note length_tl [simp del]
  note tail = shifted_words(2) [OF read(6)]
  show "client_reply h ipc = Inr (reply_as_received m)"
    using m(4) bounds inline_count [of "length (payload_bytes m)"] inline_attachments(1) [OF inline] words short tail
    by (simp add: Let_def client_reply_def read reply_as_received_def as_received_def zero_reply_def)
qed

section \<open>The channels\<close>

interpretation remote_server: wire_channel inline_message request_registers "remote_send frame mappable pages"
  as_received "\<lambda>h. server_request h mappable' pages'" for frame mappable pages mappable' pages' ..

interpretation remote_service: wire_channel inline_message request_registers "remote_send frame mappable pages"
  as_received decode_request for frame mappable pages ..

interpretation client_server: wire_channel inline_message request_registers client_request
  as_received "\<lambda>h. server_request h mappable' pages'" for mappable' pages' ..

interpretation client_service: wire_channel inline_message request_registers client_request
  as_received decode_request ..

interpretation server_remote: wire_channel inline_reply reply_registers "server_send frame mappable pages result"
  reply_as_received "\<lambda>h. remote_reply h True mappable' pages'" for frame mappable pages result mappable' pages' ..

interpretation server_client: wire_channel inline_reply reply_registers "server_send frame mappable pages result"
  reply_as_received client_reply for frame mappable pages result ..

interpretation service_remote: wire_channel inline_reply reply_registers "service_send result"
  reply_as_received "\<lambda>h. remote_reply h True mappable' pages'" for result mappable' pages' ..

interpretation service_client: wire_channel inline_reply reply_registers "service_send result"
  reply_as_received client_reply for result ..

text \<open>
  C16.  Requests: whatever inline message of at most 120 registers platform.c or
  client.c is asked to send, it sends, and platform.c and service.c both read it
  back as it was, whatever the other registers of the receiver hold.
\<close>

theorem request_channels:
  assumes "inline_message m" and "length (request_registers m) \<le> seL4_MsgMaxLength" and "2 \<le> h"
    and "send \<in> {remote_send frame mappable pages, client_request}"
    and "receive \<in> {\<lambda>h. server_request h mappable' pages', decode_request}"
  shows "\<exists>ipc. send mr m = Inr ipc \<and> ipc_length ipc \<le> seL4_MsgMaxLength \<and>
           (\<forall>ipc'. delivers ipc ipc' \<longrightarrow> receive h ipc' = Inr (as_received m))"
  using assms(4,5)
  by (elim insertE emptyE; simp only:)
    (rule remote_server.delivered [OF assms(1-3)] remote_service.delivered [OF assms(1-3)]
      client_server.delivered [OF assms(1-3)] client_service.delivered [OF assms(1-3)])+

definition wire_example :: FacetRpcMessage where
  "wire_example = \<lparr>rm_protocol_version = 1, rm_method_id = 7, rm_flags = 0, rm_words = [3, 4],
     rm_payload = Some (''abc'', 256),
     rm_attachments = [\<lparr>ra_kind = FACET_RPC_ATTACHMENT_HANDLE, ra_handle = Some 9\<rparr>]\<rparr>"

lemma wire_example_fits:
  "inline_message wire_example" "inline_reply wire_example"
  "length (request_registers wire_example) \<le> seL4_MsgMaxLength"
  "length (reply_registers wire_example) \<le> seL4_MsgMaxLength"
  by (simp_all add: inline_message_def inline_reply_def wire_example_def payload_bytes_def shared_payload_def
      attachment_cap_def request_registers_def reply_registers_def wire_word_count_def)

theorem request_channels_witness:
  "\<exists>ipc. client_request (\<lambda>_. 0) wire_example = Inr ipc \<and> ipc_length ipc \<le> seL4_MsgMaxLength \<and>
     (\<forall>ipc'. delivers ipc ipc' \<longrightarrow> decode_request 2 ipc' = Inr (as_received wire_example))"
  by (rule request_channels [where send = client_request and receive = decode_request])
    (simp_all add: wire_example_fits)

text \<open>
  C17.  Replies: the same for what platform.c and service.c send back, read by
  platform.c and client.c.
\<close>

theorem reply_channels:
  assumes "inline_reply m" and "length (reply_registers m) \<le> seL4_MsgMaxLength" and "2 \<le> h"
    and "send \<in> {server_send frame mappable pages result, service_send result}"
    and "receive \<in> {\<lambda>h. remote_reply h True mappable' pages', client_reply}"
  shows "\<exists>ipc. send mr m = Inr ipc \<and> ipc_length ipc \<le> seL4_MsgMaxLength \<and>
           (\<forall>ipc'. delivers ipc ipc' \<longrightarrow> receive h ipc' = Inr (reply_as_received m))"
  using assms(4,5)
  by (elim insertE emptyE; simp only:)
    (rule server_remote.delivered [OF assms(1-3)] server_client.delivered [OF assms(1-3)]
      service_remote.delivered [OF assms(1-3)] service_client.delivered [OF assms(1-3)])+

theorem reply_channels_witness:
  "\<exists>ipc. service_send FACET_OK (\<lambda>_. 0) wire_example = Inr ipc \<and> ipc_length ipc \<le> seL4_MsgMaxLength \<and>
     (\<forall>ipc'. delivers ipc ipc' \<longrightarrow> client_reply 2 ipc' = Inr (reply_as_received wire_example))"
  by (rule reply_channels [where send = "service_send FACET_OK" and receive = client_reply and result = FACET_OK])
    (simp_all add: wire_example_fits)

section \<open>Large payloads\<close>

definition bulk_flags :: "u32 \<Rightarrow> u32" where
  "bulk_flags flags = ((flags OR push_bit 31 1) AND NOT (push_bit 24 FACET_SEL4_BUFFER_COUNT_MASK)) OR push_bit 24 1"

lemma bulk_flags: "shared_payload (bulk_flags flags)" "buffer_count (bulk_flags flags) = 1"
proof -
  have mask: "(0x7F :: u32) = mask 7" by (simp add: mask_eq_exp_minus_1)
  show shared: "shared_payload (bulk_flags flags)"
    unfolding shared_payload_def bulk_flags_def mask
    by (simp add: bit_or_iff bit_and_iff bit_not_iff bit_push_bit_iff bit_mask_iff bit_1_iff)
  have "drop_bit 24 (bulk_flags flags) AND mask 7 = 1"
    unfolding bulk_flags_def mask
    by (rule bit_word_eqI) (auto simp: bit_or_iff bit_and_iff bit_not_iff bit_push_bit_iff bit_mask_iff bit_1_iff
        bit_drop_bit_eq)
  with shared show "buffer_count (bulk_flags flags) = 1" by (simp add: buffer_count_def mask)
qed

lemma page_count:
  "0 < n \<Longrightarrow> n \<le> page_size \<Longrightarrow> page_count n = 1" "page_size < n \<Longrightarrow> page_count n > 1"
proof -
  show "page_count n = 1" if "0 < n" "n \<le> page_size"
  proof -
    have "(n + page_size - 1) div page_size = 1" using that by (intro div_nat_eqI) simp_all
    with that show ?thesis by (simp add: page_count_def)
  qed
  show "page_count n > 1" if "page_size < n"
  proof -
    have "2 \<le> (n + page_size - 1) div page_size"
      using that by (subst less_eq_div_iff_mult_less_eq) simp_all
    then show ?thesis unfolding page_count_def by (cases "n > SIZE_MAX - page_size + 1") simp_all
  qed
qed

lemma bulk_prepare_large:
  assumes "512 < length (payload_bytes m)"
  shows "bulk_prepare frame mappable pages m =
     (if length (payload_bytes m) > page_size \<or> rm_attachments m \<noteq> [] then (FACET_BUFFER_TOO_SMALL, m, pages)
      else case frame of
             None \<Rightarrow> (FACET_OUT_OF_MEMORY, m\<lparr>rm_flags := bulk_flags (rm_flags m)\<rparr>, pages)
           | Some c \<Rightarrow>
               if \<not> mappable then (FACET_ERROR, m\<lparr>rm_flags := bulk_flags (rm_flags m)\<rparr>, pages)
               else (FACET_OK, m\<lparr>rm_flags := bulk_flags (rm_flags m),
                       rm_attachments := [\<lparr>ra_kind = FACET_RPC_ATTACHMENT_BUFFER, ra_handle = Some c\<rparr>]\<rparr>,
                     pages(c := payload_bytes m @ drop (length (payload_bytes m)) (pages c))))"
proof (cases "length (payload_bytes m) \<le> page_size")
  case True
  with assms have "page_count (length (payload_bytes m)) = 1" by (intro page_count(1)) linarith+
  moreover have "\<not> length (payload_bytes m) \<le> FACET_RPC_MAX_INLINE_PAYLOAD" "\<not> length (payload_bytes m) > page_size"
    using True assms by linarith+
  ultimately show ?thesis
    by (cases frame; cases "rm_attachments m") (simp_all add: bulk_prepare_def bulk_flags_def Let_def)
next
  case False
  then have "page_count (length (payload_bytes m)) > 1" by (intro page_count(2)) linarith
  moreover have "\<not> length (payload_bytes m) \<le> FACET_RPC_MAX_INLINE_PAYLOAD" "length (payload_bytes m) > page_size"
    using False assms by linarith+
  ultimately show ?thesis by (simp add: bulk_prepare_def Let_def)
qed

lemma payload_words_Nil [simp]: "payload_words [] = []"
  by (simp add: payload_words_def wire_word_count_def)

abbreviation bulk_header :: "FacetRpcMessage \<Rightarrow> u64 list" where
  "bulk_header m \<equiv> [ucast (rm_method_id m), ucast (rm_protocol_version m), ucast (bulk_flags (rm_flags m)),
     word_of_nat (length (payload_bytes m))]"

lemma server_request_bulk:
  assumes "laid_out (bulk_header m @ rm_words m @ payload_words []) m' ipc" and "ipc_caps ipc = [c]"
    and "rm_protocol_version m = FACET_RPC_PROTOCOL_VERSION" and "length (rm_words m) \<le> FACET_RPC_MAX_WORDS"
    and "payload_bytes m \<noteq> []" and "length (payload_bytes m) \<le> page_size" and "1 \<le> h"
    and "take (length (payload_bytes m)) (pages c) = payload_bytes m"
  shows "server_request h True pages ipc =
           Inr (m\<lparr>rm_flags := bulk_flags (rm_flags m),
                  rm_payload := Some (payload_bytes m, length (payload_bytes m)),
                  rm_attachments := [\<lparr>ra_kind = FACET_RPC_ATTACHMENT_BUFFER, ra_handle = None\<rparr>]\<rparr>,
                length (payload_bytes m))"
proof -
  note One_nat_def [simp del]
  note regs = laid_out_registers [OF assms(1), simplified, folded One_nat_def]
  have words: "map (\<lambda>i. ipc_mr ipc (4 + i)) [0..<length (rm_words m)] = rm_words m"
    by (rule nth_equalityI) (simp_all add: regs(3))
  have header: "ucast (ipc_mr ipc 0) = rm_method_id m" "ucast (ipc_mr ipc 1) = rm_protocol_version m"
    "ucast (ipc_mr ipc 2) = bulk_flags (rm_flags m)" "unat (ipc_mr ipc 3) = length (payload_bytes m)"
    using regs(2) [of 0] regs(2) [of 1] regs(2) [of 2] regs(2) [of 3] assms(6) by simp_all
  have "alloc FACET_OUT_OF_MEMORY h = Inr (h - 1)" using assms(7) by (cases h) (simp_all add: alloc_def)
  with assms regs(1) words header show ?thesis
    by (simp add: server_request_def request_from_message_def bulk_flags Let_def wire_word_count_def
        bulk_read_received_def received_attachments_def)
qed

text \<open>
  C18.  Large requests between two programs that both use platform.c: a request of
  protocol version 1 with at most 64 words, 513 to 4096 bytes of payload and no
  handle attached is sent with the payload in the fresh frame, if the sender gets
  and maps one, and a server that can map it and has the memory for a copy reads
  the payload back from there.
\<close>

theorem bulk_request_delivered:
  assumes "rm_protocol_version m = FACET_RPC_PROTOCOL_VERSION" and "length (rm_words m) \<le> FACET_RPC_MAX_WORDS"
    and "rm_attachments m = []"
    and "FACET_RPC_MAX_INLINE_PAYLOAD < length (payload_bytes m)" and "length (payload_bytes m) \<le> page_size"
    and "1 \<le> h" and "c \<noteq> 0"
  shows "\<exists>ipc pages'. remote_request (Some c) True pages 0 mr m = Inr (ipc, pages') \<and>
           ipc_length ipc \<le> seL4_MsgMaxLength \<and>
           (\<forall>ipc'. delivers ipc ipc' \<longrightarrow> server_request h True pages' ipc' =
              Inr (m\<lparr>rm_flags := bulk_flags (rm_flags m),
                     rm_payload := Some (payload_bytes m, length (payload_bytes m)),
                     rm_attachments := [\<lparr>ra_kind = FACET_RPC_ATTACHMENT_BUFFER, ra_handle = None\<rparr>]\<rparr>,
                   length (payload_bytes m)))"
proof -
  note One_nat_def [simp del]
  let ?bytes = "payload_bytes m"
  let ?pages = "pages(c := ?bytes @ drop (length ?bytes) (pages c))"
  let ?ipc = "\<lparr>ipc_mr = set_mrs (set_mrs mr 0 (bulk_header m)) 4 (rm_words m),
    ipc_length = 4 + length (rm_words m), ipc_caps = [c]\<rparr>"
  have payload: "payload_bytes (m\<lparr>rm_flags := f, rm_attachments := as\<rparr>) = ?bytes" for f as
    by (simp add: payload_bytes_def)
  have sent: "remote_request (Some c) True pages 0 mr m = Inr (?ipc, ?pages)"
    using assms(2,3,5) by (simp add: remote_request_def bulk_prepare_large [OF assms(4)] message_from_request_def
        bulk_flags payload attachment_cap_def Let_def)
  have "map (ipc_mr ?ipc) [0..<ipc_length ?ipc] = bulk_header m @ rm_words m"
    using map_set_mrs_layout [of "bulk_header m" mr "rm_words m" "[]"] by simp
  then have "laid_out (bulk_header m @ rm_words m @ payload_words [])
      (m\<lparr>rm_attachments := [\<lparr>ra_kind = FACET_RPC_ATTACHMENT_BUFFER, ra_handle = Some c\<rparr>]\<rparr>) ipc'"
    if "delivers ?ipc ipc'" for ipc'
    using that by (simp add: delivers_def laid_out_def attachment_cap_def)
  moreover have "?bytes \<noteq> []" using assms(4) by auto
  ultimately have "server_request h True ?pages ipc' =
      Inr (m\<lparr>rm_flags := bulk_flags (rm_flags m), rm_payload := Some (?bytes, length ?bytes),
             rm_attachments := [\<lparr>ra_kind = FACET_RPC_ATTACHMENT_BUFFER, ra_handle = None\<rparr>]\<rparr>, length ?bytes)"
    if "delivers ?ipc ipc'" for ipc'
    using that assms(1,2,5,6) by (intro server_request_bulk [where c = c]) (auto simp: delivers_def)
  with sent assms(2) show ?thesis by auto
qed

theorem bulk_request_delivered_witness:
  "\<exists>ipc pages'. remote_request (Some 5) True (\<lambda>_. replicate 4096 NUL) 0 (\<lambda>_. 0)
       (wire_example\<lparr>rm_payload := Some (replicate 600 CHR ''x'', 600), rm_attachments := []\<rparr>) = Inr (ipc, pages') \<and>
     ipc_length ipc \<le> seL4_MsgMaxLength \<and>
     (\<forall>ipc'. delivers ipc ipc' \<longrightarrow> server_request 1 True pages' ipc' =
        Inr (wire_example\<lparr>rm_flags := bulk_flags 0, rm_payload := Some (replicate 600 CHR ''x'', 600),
               rm_attachments := [\<lparr>ra_kind = FACET_RPC_ATTACHMENT_BUFFER, ra_handle = None\<rparr>]\<rparr>, 600))"
  using bulk_request_delivered
    [of "wire_example\<lparr>rm_payload := Some (replicate 600 CHR ''x'', 600), rm_attachments := []\<rparr>" 1 5
        "\<lambda>_. replicate 4096 NUL" "\<lambda>_. 0"]
  by (simp add: wire_example_def payload_bytes_def)

section \<open>Two defects of platform.c\<close>

text \<open>
  message_from_request tests the length of a message without one of its four
  header words.  A message of 121 registers, one more than the IPC buffer has, is
  accepted; client.c refuses it.
\<close>

lemma request_overruns_registers:
  assumes "inline_message m" and "length (request_registers m) = seL4_MsgMaxLength + 1"
  shows "\<exists>ipc. message_from_request mr m = Inr ipc \<and> ipc_length ipc = seL4_MsgMaxLength + 1"
    and "client_request mr m = Inl FACET_NOT_SUPPORTED"
  using assms inline_count [of "length (payload_bytes m)"]
  by (auto simp: inline_message_def request_registers_def message_from_request_def client_request_def Let_def)

lemma overrunning_request:
  "inline_message (wire_example\<lparr>rm_words := replicate 64 0, rm_payload := Some (replicate 424 NUL, 512)\<rparr>)"
  "length (request_registers (wire_example\<lparr>rm_words := replicate 64 0, rm_payload := Some (replicate 424 NUL, 512)\<rparr>)) =
   seL4_MsgMaxLength + 1"
  by (simp_all add: inline_message_def wire_example_def payload_bytes_def shared_payload_def
      attachment_cap_def request_registers_def wire_word_count_def)

text \<open>The result code a caller takes from the first word of a reply.\<close>

definition reply_result :: "FacetRpcMessage \<Rightarrow> int" where
  "reply_result reply = sint (ucast (hd (rm_words reply)) :: u32)"

text \<open>A reply that only carries an error code, with any flags.\<close>

lemma remote_reply_error:
  assumes "map (ipc_mr ipc) [0..<ipc_length ipc] = [w, 1, flags, 0]" and "ipc_caps ipc = []"
  shows "case remote_reply h slots mappable pages ipc of
           Inl e \<Rightarrow> e = FACET_PROTOCOL_ERROR
         | Inr (reply, n) \<Rightarrow> rm_words reply = [w] \<and> rm_payload reply = None"
proof -
  note One_nat_def [simp del]
  have "laid_out ([w, 1, flags, 0] @ [] @ payload_words []) zero_reply ipc"
    using assms by (simp add: laid_out_def zero_reply_def)
  note regs = laid_out_registers [OF this, simplified, folded One_nat_def]
  have "ipc_mr ipc 0 = w" "ipc_mr ipc 1 = 1" "ipc_mr ipc 2 = flags" "ipc_mr ipc 3 = 0"
    using regs(2) [of 0] regs(2) [of 1] regs(2) [of 2] regs(2) [of 3] by simp_all
  then show ?thesis
    using regs(1) assms(2) by (auto simp: remote_reply_def Let_def wire_word_count_def bulk_read_received_def
        received_attachments_def split: sum.splits)
qed

lemma map_set_mrs_header: "length hs = 4 \<Longrightarrow> map (set_mrs mr 0 hs) [0..<4] = hs"
  using map_set_mrs_layout [of hs mr "[]" "[]"] by simp

lemma error_words:
  "sint (ucast (result_word FACET_BUFFER_TOO_SMALL) :: u32) = facet_result_code FACET_BUFFER_TOO_SMALL"
  "sint (ucast (ucast (word_of_int (facet_result_code FACET_BUFFER_TOO_SMALL) :: u32) :: u64) :: u32) =
   facet_result_code FACET_BUFFER_TOO_SMALL"
  by (simp_all add: result_word_def)

lemma reply_to_message_oversize:
  assumes "FACET_RPC_MAX_INLINE_PAYLOAD < length (payload_bytes m)" and "rm_words m \<noteq> []"
  shows "(map (ipc_mr (reply_to_message mr m)) [0..<ipc_length (reply_to_message mr m)] =
            [ucast (word_of_int (facet_result_code FACET_BUFFER_TOO_SMALL) :: u32), 1, 0, 0] \<and>
          ipc_caps (reply_to_message mr m) = []) \<or>
         (66 + 3 \<le> ipc_length (reply_to_message mr m) \<and>
          ipc_mr (reply_to_message mr m) 1 = 1 \<and> ipc_mr (reply_to_message mr m) 2 = ucast (rm_flags m))"
proof -
  have "65 \<le> wire_word_count (length (payload_bytes m))"
    using assms(1) div_le_mono [of 520 "length (payload_bytes m) + 7" 8] by (auto simp: wire_word_count_def)
  moreover have "Suc 0 \<le> length (rm_words m)" using assms(2) by (cases "rm_words m") simp_all
  moreover have "map (set_mrs mr 0 [ucast (word_of_int (facet_result_code FACET_BUFFER_TOO_SMALL) :: u32),
      ucast FACET_RPC_PROTOCOL_VERSION, 0, 0]) [0..<4] =
      [ucast (word_of_int (facet_result_code FACET_BUFFER_TOO_SMALL) :: u32), 1, 0, 0]"
    by (subst map_set_mrs_header) simp_all
  ultimately show ?thesis
    unfolding reply_to_message_def Let_def
    by (split if_split, intro conjI impI) (simp_all only: Ipc.simps simp_thms, simp_all add: set_mrs_def)
qed

lemma delivers_registers:
  assumes "delivers sent received"
  shows "ipc_length received = ipc_length sent"
    and "j < ipc_length sent \<Longrightarrow> ipc_mr received j = ipc_mr sent j"
proof -
  have eq: "map (ipc_mr received) [0..<ipc_length received] = map (ipc_mr sent) [0..<ipc_length sent]"
    using assms by (simp add: delivers_def)
  show size: "ipc_length received = ipc_length sent" using arg_cong [OF eq, of length] by simp
  show "ipc_mr received j = ipc_mr sent j" if "j < ipc_length sent"
    using arg_cong [OF eq, of "\<lambda>xs. xs ! j"] that size by simp
qed

lemma bulk_prepare_large_ok:
  assumes "FACET_RPC_MAX_INLINE_PAYLOAD < length (payload_bytes m)"
    and "bulk_prepare frame mappable pages m = (FACET_OK, m', pages')"
  shows "shared_payload (rm_flags m')" "payload_bytes m' = payload_bytes m" "rm_words m' = rm_words m"
  using assms(2) by (auto simp: bulk_prepare_large [OF assms(1)] payload_bytes_def bulk_flags
      split: if_splits option.splits)

text \<open>
  No reply of more than 512 bytes reaches a caller through platform.c: the
  caller gets a protocol error, or the code of a reply that did not fit and no
  payload.  The shared frame that bulk_prepare fills for the payload is never
  read, because reply_to_message sends the words of the payload as well.
\<close>

lemma large_reply_lost:
  assumes "FACET_RPC_MAX_INLINE_PAYLOAD < length (payload_bytes m)"
    and "delivers (fst (server_reply frame mappable pages mr result m)) ipc"
  shows "case remote_reply h slots mappable' pages' ipc of
           Inl e \<Rightarrow> e = FACET_PROTOCOL_ERROR
         | Inr (reply, n) \<Rightarrow> reply_result reply = facet_result_code FACET_BUFFER_TOO_SMALL \<and> rm_payload reply = None"
proof -
  define m1 where "m1 = (if rm_words m = [] then m\<lparr>rm_words := [result_word result]\<rparr> else m)"
  have m1: "rm_words m1 \<noteq> []" "FACET_RPC_MAX_INLINE_PAYLOAD < length (payload_bytes m1)"
    using assms(1) by (simp_all add: m1_def payload_bytes_def)
  obtain r m2 pages2 where bulk: "bulk_prepare frame mappable pages m1 = (r, m2, pages2)"
    by (metis prod_cases3)
  show ?thesis
  proof (cases "r = FACET_OK")
    case True
    note m2 = bulk_prepare_large_ok [OF m1(2) bulk [unfolded True]]
    have sent: "fst (server_reply frame mappable pages mr result m) = reply_to_message mr m2"
      using bulk True by (simp add: server_reply_def m1_def Let_def)
    have "FACET_RPC_MAX_INLINE_PAYLOAD < length (payload_bytes m2)" "rm_words m2 \<noteq> []" using m1 m2 by simp_all
    from reply_to_message_oversize [OF this, of mr] show ?thesis
    proof (elim disjE conjE)
      assume "map (ipc_mr (reply_to_message mr m2)) [0..<ipc_length (reply_to_message mr m2)] =
          [ucast (word_of_int (facet_result_code FACET_BUFFER_TOO_SMALL) :: u32), 1, 0, 0]"
        "ipc_caps (reply_to_message mr m2) = []"
      with assms(2) sent have "map (ipc_mr ipc) [0..<ipc_length ipc] =
          [ucast (word_of_int (facet_result_code FACET_BUFFER_TOO_SMALL) :: u32), 1, 0, 0]" "ipc_caps ipc = []"
        by (simp_all add: delivers_def)
      from remote_reply_error [OF this, of h slots mappable' pages'] error_words(2) show ?thesis
        by (auto simp: reply_result_def split: sum.splits)
    next
      assume long: "66 + 3 \<le> ipc_length (reply_to_message mr m2)" and "ipc_mr (reply_to_message mr m2) 1 = 1"
        "ipc_mr (reply_to_message mr m2) 2 = ucast (rm_flags m2)"
      moreover have "63 < ipc_length (reply_to_message mr m2) - 4" using long by linarith
      ultimately show ?thesis
        using delivers_registers [OF assms(2) [unfolded sent]] m2(1)
        by (simp add: remote_reply_def Let_def wire_word_count_def)
    qed
  next
    case False
    then have "fst (server_reply frame mappable pages mr result m) = reply_to_message mr
        (m2\<lparr>rm_payload := None, rm_attachments := [], rm_words := [result_word FACET_BUFFER_TOO_SMALL]\<rparr>)"
      using bulk by (simp add: server_reply_def m1_def Let_def)
    then have "map (ipc_mr ipc) [0..<ipc_length ipc] = [result_word FACET_BUFFER_TOO_SMALL, 1, ucast (rm_flags m2), 0]"
      "ipc_caps ipc = []"
      using assms(2) by (simp_all add: delivers_def reply_to_message_def payload_bytes_def map_set_mrs_header
          wire_word_count_def)
    from remote_reply_error [OF this, of h slots mappable' pages'] error_words(1) show ?thesis
      by (auto simp: reply_result_def split: sum.splits)
  qed
qed

section \<open>Exported objects of a service\<close>

datatype 'd service_op = Export bool heap 'd | Unexport nat

definition service_step :: "'d service_op \<Rightarrow> 'd Service \<Rightarrow> 'd Service" where
  "service_step op s =
     (case op of
        Export minted h d \<Rightarrow> snd (service_export minted h d s)
      | Unexport object_id \<Rightarrow> (case service_unexport object_id s of Inl _ \<Rightarrow> s | Inr s' \<Rightarrow> s'))"

definition exported :: "nat \<Rightarrow> 'd Service \<Rightarrow> bool" where
  "exported badge s \<longleftrightarrow> 0 < badge \<and> badge \<le> length (sv_exports s)"

lemma service_step_exported: "exported badge s \<Longrightarrow> exported badge (service_step op s)"
  by (auto simp: exported_def service_step_def service_export_def service_unexport_def Let_def
      split: service_op.splits)

lemma service_step_target:
  assumes "exported badge s"
  shows "service_target badge (service_step op s) =
           (if op = Unexport badge then Inl FACET_INVALID_HANDLE else service_target badge s)"
  using assms
  by (auto simp: exported_def service_step_def service_export_def service_unexport_def service_target_def Let_def
      nth_append nth_list_update split: service_op.splits option.splits if_splits)

text \<open>
  C19.  A badge names one object for the life of a service: whatever is exported
  and withdrawn after it, a badge that was given out reaches its own object until
  that object is withdrawn, and no object ever again.
\<close>

theorem service_badge_stable:
  assumes "service_export minted h d s = (Inr (badge, slot), s')"
  shows "service_target badge (fold service_step ops s') =
           (if Unexport badge \<in> set ops then Inl FACET_INVALID_HANDLE else Inr d)"
proof -
  have fresh: "exported badge s'" "service_target badge s' = Inr d"
    using assms by (auto simp: service_export_def exported_def service_target_def Let_def nth_append split: if_splits)
  have "service_target badge (fold service_step ops t) =
      (if Unexport badge \<in> set ops then Inl FACET_INVALID_HANDLE else service_target badge t)"
    if "exported badge t" for t :: "'a Service"
    using that
  proof (induction ops arbitrary: t)
    case (Cons op ops)
    with service_step_exported [OF Cons.prems, of op] service_step_target [OF Cons.prems, of op]
    show ?case by auto
  qed simp
  with fresh show ?thesis by simp
qed

theorem service_badge_stable_witness:
  "service_target 1 (fold service_step [Export True 1 CHR ''b'', Unexport 1, Export True 1 CHR ''c'']
     \<lparr>sv_exports = [\<lparr>se_dispatch = Some CHR ''a'', se_handle_cap = 40\<rparr>], sv_next_export_slot = 41\<rparr>) =
   Inl FACET_INVALID_HANDLE"
  using service_badge_stable [of True 1 "CHR ''a''" "\<lparr>sv_exports = [], sv_next_export_slot = 40\<rparr>" 1 40
      "\<lparr>sv_exports = [\<lparr>se_dispatch = Some CHR ''a'', se_handle_cap = 40\<rparr>], sv_next_export_slot = 41\<rparr>"
      "[Export True 1 CHR ''b'', Unexport 1, Export True 1 CHR ''c'']"]
  by (simp add: service_export_def Let_def)

end
