(* ===== verification/Utf8.thy ===== *)
theory Utf8
  imports Prelude
begin

text \<open>
  UTF-8.  Models include/facetos/utf8.h (facet_utf8_is_valid), the validator
  utf8_validate of src/config.c, which also reports the offending offset, and
  the encoder inside append_utf8 of src/config.c.  The reference notion is
  \<open>utf8_text\<close>: a concatenation of encoded Unicode scalar values.  Both
  validators accept exactly that language.
\<close>

section \<open>The encoder\<close>

definition is_scalar :: "nat \<Rightarrow> bool" where
  "is_scalar v \<longleftrightarrow> v \<le> 0x10FFFF \<and> \<not> (0xD800 \<le> v \<and> v \<le> 0xDFFF)"

definition utf8_count :: "nat \<Rightarrow> nat" where
  "utf8_count scalar =
     (if scalar \<le> 0x7F then 1 else if scalar \<le> 0x7FF then 2
      else if scalar \<le> 0xFFFF then 3 else 4)"

definition utf8_encode :: "nat \<Rightarrow> string" where
  "utf8_encode scalar =
     (if scalar \<le> 0x7F then [char_of scalar]
      else if scalar \<le> 0x7FF then
        [char_of (0xC0 OR drop_bit 6 scalar),
         char_of (0x80 OR (scalar AND 0x3F))]
      else if scalar \<le> 0xFFFF then
        [char_of (0xE0 OR drop_bit 12 scalar),
         char_of (0x80 OR (drop_bit 6 scalar AND 0x3F)),
         char_of (0x80 OR (scalar AND 0x3F))]
      else
        [char_of (0xF0 OR drop_bit 18 scalar),
         char_of (0x80 OR (drop_bit 12 scalar AND 0x3F)),
         char_of (0x80 OR (drop_bit 6 scalar AND 0x3F)),
         char_of (0x80 OR (scalar AND 0x3F))])"

definition utf8_text :: "string \<Rightarrow> bool" where
  "utf8_text s \<longleftrightarrow> (\<exists>vs. (\<forall>v \<in> set vs. is_scalar v) \<and> s = concat (map utf8_encode vs))"

section \<open>The validators\<close>

definition utf8_lead :: "nat \<Rightarrow> (nat \<times> nat) option" where
  "utf8_lead first =
     (if 0xC2 \<le> first \<and> first \<le> 0xDF then Some (1, first AND 0x1F)
      else if 0xE0 \<le> first \<and> first \<le> 0xEF then Some (2, first AND 0x0F)
      else if 0xF0 \<le> first \<and> first \<le> 0xF4 then Some (3, first AND 0x07)
      else None)"

definition utf8_bad_value :: "nat \<Rightarrow> nat \<Rightarrow> bool" where
  "utf8_bad_value needed value \<longleftrightarrow>
     (needed = 2 \<and> value < 0x800) \<or> (needed = 3 \<and> value < 0x10000) \<or>
     value > 0x10FFFF \<or> (0xD800 \<le> value \<and> value \<le> 0xDFFF)"

text \<open>
  The inner loop reads \<open>needed\<close> continuation bytes; \<open>Inl\<close> is the
  index of the byte that is not one.
\<close>

fun utf8_continue :: "nat \<Rightarrow> nat \<Rightarrow> nat \<Rightarrow> string \<Rightarrow> nat + (nat \<times> string)" where
  "utf8_continue 0 i value rest = Inr (value, rest)"
| "utf8_continue (Suc n) i value [] = Inl i"
| "utf8_continue (Suc n) i value (c # rest) =
     (if byte_val c AND 0xC0 \<noteq> 0x80 then Inl i
      else utf8_continue n (i + 1) (push_bit 6 value OR (byte_val c AND 0x3F)) rest)"

lemma utf8_continue_rest:
  "utf8_continue n i v s = Inr (v', rest) \<Longrightarrow> length rest \<le> length s"
  by (induction n i v s rule: utf8_continue.induct) (auto split: if_splits)

function utf8_validate_from :: "nat \<Rightarrow> string \<Rightarrow> nat + unit" where
  "utf8_validate_from i [] = Inr ()"
| "utf8_validate_from i (c # rest) =
     (if byte_val c < 0x80 then utf8_validate_from (i + 1) rest
      else case utf8_lead (byte_val c) of
             None \<Rightarrow> Inl i
           | Some (needed, value) \<Rightarrow>
               if needed > length rest then Inl i
               else case utf8_continue needed (i + 1) value rest of
                      Inl bad_offset \<Rightarrow> Inl bad_offset
                    | Inr (value', rest') \<Rightarrow>
                        if utf8_bad_value needed value' then Inl i
                        else utf8_validate_from (i + 1 + needed) rest')"
  by pat_completeness auto
termination
  by (relation "measure (\<lambda>(i, s). length s)") (auto dest: utf8_continue_rest)

definition utf8_validate :: "string \<Rightarrow> nat + unit" where
  "utf8_validate s = utf8_validate_from 0 s"

fun utf8_take_bytes :: "nat \<Rightarrow> nat \<Rightarrow> string \<Rightarrow> (nat \<times> string) option" where
  "utf8_take_bytes 0 value rest = Some (value, rest)"
| "utf8_take_bytes (Suc n) value [] = None"
| "utf8_take_bytes (Suc n) value (c # rest) =
     (if byte_val c AND 0xC0 \<noteq> 0x80 then None
      else utf8_take_bytes n (push_bit 6 value OR (byte_val c AND 0x3F)) rest)"

lemma utf8_take_bytes_rest:
  "utf8_take_bytes n v s = Some (v', rest) \<Longrightarrow> length rest \<le> length s"
  by (induction n v s rule: utf8_take_bytes.induct) (auto split: if_splits)

function facet_utf8_is_valid :: "string \<Rightarrow> bool" where
  "facet_utf8_is_valid [] = True"
| "facet_utf8_is_valid (c # rest) =
     (if byte_val c < 0x80 then facet_utf8_is_valid rest
      else case utf8_lead (byte_val c) of
             None \<Rightarrow> False
           | Some (needed, value) \<Rightarrow>
               if needed > length rest then False
               else case utf8_take_bytes needed value rest of
                      None \<Rightarrow> False
                    | Some (value', rest') \<Rightarrow>
                        if utf8_bad_value needed value' then False
                        else facet_utf8_is_valid rest')"
  by pat_completeness auto
termination
  by (relation "measure length") (auto dest: utf8_take_bytes_rest)

lemma utf8_continue_take_bytes:
  "(case utf8_continue n i v s of Inl _ \<Rightarrow> None | Inr r \<Rightarrow> Some r) = utf8_take_bytes n v s"
  by (induction n i v s rule: utf8_continue.induct) auto

lemma utf8_validate_from_iff: "utf8_validate_from i s = Inr () \<longleftrightarrow> facet_utf8_is_valid s"
proof (induction i s rule: utf8_validate_from.induct)
  case (2 i c rest)
  show ?case
  proof (cases "byte_val c < 0x80")
    case False
    note IH = 2(2) [OF False]
    show ?thesis
    proof (cases "utf8_lead (byte_val c)")
      case (Some lead)
      obtain needed v where lead: "lead = (needed, v)" by (cases lead)
      show ?thesis
      proof (cases "utf8_continue needed (i + 1) v rest")
        case (Inl b)
        then have "utf8_take_bytes needed v rest = None"
          using utf8_continue_take_bytes [of needed "i + 1" v rest] by simp
        with False Some lead Inl show ?thesis by simp
      next
        case (Inr r)
        then have "utf8_take_bytes needed v rest = Some r"
          using utf8_continue_take_bytes [of needed "i + 1" v rest] by simp
        with False Some lead Inr IH [OF Some lead [symmetric]] show ?thesis by (cases r) simp
      qed
    qed (use False in simp)
  qed (use 2(1) in simp)
qed simp

section \<open>Bit patterns of the encoding\<close>

lemma nat_and_mask: "(n::nat) AND (2 ^ k - 1) = n mod 2 ^ k"
  by (metis mask_eq_exp_minus_1 take_bit_eq_mask take_bit_eq_mod)

lemma and_0x3F: "(n::nat) AND 0x3F = n mod 64"
  using nat_and_mask [of n 6] by simp

lemma and_0x1F: "(n::nat) AND 0x1F = n mod 32"
  using nat_and_mask [of n 5] by simp

lemma and_0x0F: "(n::nat) AND 0x0F = n mod 16"
  using nat_and_mask [of n 4] by simp

lemma and_0x07: "(n::nat) AND 0x07 = n mod 8"
  using nat_and_mask [of n 3] by simp

lemma or_high_low:
  assumes "(b::nat) < 2 ^ k"
  shows "push_bit k a OR b = a * 2 ^ k + b"
proof -
  have "take_bit k b = b" using assms by (simp add: take_bit_nat_eq_self)
  then have "push_bit k a + b = push_bit k a OR b"
    by (intro disjunctive_add) (metis bit_push_bit_iff bit_take_bit_iff linorder_not_le)
  then show ?thesis by (simp add: push_bit_eq_mult)
qed

lemma or_lead:
  "n < 32 \<Longrightarrow> (0xC0::nat) OR n = 0xC0 + n"
  "n < 16 \<Longrightarrow> (0xE0::nat) OR n = 0xE0 + n"
  "n < 8 \<Longrightarrow> (0xF0::nat) OR n = 0xF0 + n"
  "n < 64 \<Longrightarrow> (0x80::nat) OR n = 0x80 + n"
  using or_high_low [of n 5 6] or_high_low [of n 4 14] or_high_low [of n 3 30]
    or_high_low [of n 6 2] by (simp_all add: push_bit_eq_mult)

lemma and_push_bit: "(n::nat) AND push_bit k m = push_bit k (drop_bit k n AND m)"
  by (rule bit_eqI) (auto simp: bit_and_iff bit_push_bit_iff bit_drop_bit_eq)

lemma continuation_byte:
  assumes "(n::nat) < 256"
  shows "n AND 0xC0 = 0x80 \<longleftrightarrow> 0x80 \<le> n \<and> n < 0xC0"
proof -
  have 3: "m AND 3 = m mod 4" for m :: nat using nat_and_mask [of m 2] by simp
  have "n AND 0xC0 = push_bit 6 (drop_bit 6 n AND 3)"
    using and_push_bit [of n 6 3] by (simp add: push_bit_eq_mult)
  also have "\<dots> = 64 * (n div 64 mod 4)"
    unfolding 3 push_bit_eq_mult drop_bit_eq_div by simp
  also have "n div 64 mod 4 = n div 64"
    using assms less_mult_imp_div_less [of n 4 64] by simp
  finally have "n AND 0xC0 = 64 * (n div 64)" .
  then have "n AND 0xC0 = 0x80 \<longleftrightarrow> 2 \<le> n div 64 \<and> n div 64 < 3" by linarith
  then show ?thesis by (simp add: less_eq_div_iff_mult_less_eq div_less_iff_less_mult)
qed

lemma push_6: "push_bit 6 v OR (n mod 64) = v * 64 + n mod (64::nat)"
  using or_high_low [of "n mod 64" 6 v] by simp

section \<open>Both validators accept exactly UTF-8\<close>

text \<open>Encoder and decoder in base 64.\<close>

lemma utf8_encode_arith:
  assumes "v \<le> 0x10FFFF"
  shows "utf8_encode v =
     (if v \<le> 0x7F then [char_of v]
      else if v \<le> 0x7FF then [char_of (0xC0 + v div 64), char_of (0x80 + v mod 64)]
      else if v \<le> 0xFFFF then
        [char_of (0xE0 + v div 4096), char_of (0x80 + v div 64 mod 64), char_of (0x80 + v mod 64)]
      else [char_of (0xF0 + v div 262144), char_of (0x80 + v div 4096 mod 64),
            char_of (0x80 + v div 64 mod 64), char_of (0x80 + v mod 64)])"
proof -
  have 1: "v \<le> 0x7FF \<Longrightarrow> 0xC0 OR v div 64 = 0xC0 + v div 64"
    using less_mult_imp_div_less [of v 32 64] by (intro or_lead) simp
  have 2: "v \<le> 0xFFFF \<Longrightarrow> 0xE0 OR v div 4096 = 0xE0 + v div 4096"
    using less_mult_imp_div_less [of v 16 4096] by (intro or_lead) simp
  have 3: "0xF0 OR v div 262144 = 0xF0 + v div 262144"
    using assms less_mult_imp_div_less [of v 8 262144] by (intro or_lead) simp
  have 4: "0x80 OR n mod 64 = 0x80 + n mod (64::nat)" for n by (intro or_lead) simp
  have 5: "drop_bit 6 v = v div 64" "drop_bit 12 v = v div 4096" "drop_bit 18 v = v div 262144"
    by (simp_all add: drop_bit_eq_div)
  show ?thesis
    unfolding utf8_encode_def and_0x3F 5 3 4 by (intro if_cong refl) (simp_all only: 1 2)
qed

lemma mod_add_multiple: "(a::nat) mod k = 0 \<Longrightarrow> x < k \<Longrightarrow> (a + x) mod k = x"
  by (subst mod_add_left_eq [symmetric]) simp

lemma utf8_lead_simps:
  "2 \<le> x \<Longrightarrow> x < 32 \<Longrightarrow> utf8_lead (0xC0 + x) = Some (1, x)"
  "x < 16 \<Longrightarrow> utf8_lead (0xE0 + x) = Some (2, x)"
  "x \<le> 4 \<Longrightarrow> utf8_lead (0xF0 + x) = Some (3, x)"
  unfolding utf8_lead_def and_0x1F and_0x0F and_0x07
  using mod_add_multiple [of "0xC0" 32 x] mod_add_multiple [of "0xE0" 16 x]
    mod_add_multiple [of "0xF0" 8 x] by simp_all

lemma byte_val_char_of: "n < 256 \<Longrightarrow> byte_val (char_of n) = (n::nat)"
  by simp

lemma utf8_take_bytes_char:
  assumes "x < 64"
  shows "utf8_take_bytes (Suc n) v (char_of (0x80 + x) # rest) = utf8_take_bytes n (v * 64 + x) rest"
proof -
  define y where "y = 0x80 + x"
  have "y < 256" and c: "0x80 \<le> y \<and> y < 0xC0" using assms by (simp_all add: y_def)
  have b: "byte_val (char_of y) = y" using \<open>y < 256\<close> by (rule byte_val_char_of)
  have "y mod 64 = x"
    unfolding y_def using assms by (intro mod_add_multiple) simp_all
  then have v: "push_bit 6 v OR (y AND 0x3F) = v * 64 + x" using push_6 [of v y] by (simp only: and_0x3F)
  have "y AND 0xC0 = 0x80" using continuation_byte [OF \<open>y < 256\<close>] c by (simp only: simp_thms)
  then have "utf8_take_bytes (Suc n) v (char_of y # rest) = utf8_take_bytes n (v * 64 + x) rest"
    by (simp only: utf8_take_bytes.simps b v simp_thms if_False)
  then show ?thesis by (simp only: y_def)
qed

lemma utf8_take_bytes_SucD:
  assumes "utf8_take_bytes (Suc n) v s = Some r"
  obtains x rest where "x < 64" "s = char_of (0x80 + x) # rest" "utf8_take_bytes n (v * 64 + x) rest = Some r"
proof -
  obtain c rest where s: "s = c # rest" using assms by (cases s) auto
  let ?x = "byte_val c - 0x80"
  have "byte_val c AND 0xC0 = 0x80" using assms s by (auto split: if_splits)
  moreover have "byte_val c < (256::nat)" by simp
  ultimately have c: "0x80 \<le> byte_val c \<and> byte_val c < (0xC0::nat)" by (simp add: continuation_byte)
  then have x: "?x < 64" and e: "0x80 + ?x = byte_val c" by linarith+
  have "char_of (0x80 + ?x) = c" unfolding e by simp
  with x assms s utf8_take_bytes_char [OF x, of n v rest] show ?thesis by (intro that) simp_all
qed

lemma digits64:
  assumes "x < (64::nat)"
  shows "(a * 64 + x) div 64 = a" "(a * 64 + x) mod 64 = x"
  using assms by simp_all

lemma utf8_encode_digits:
  "2 \<le> a \<Longrightarrow> a < 32 \<Longrightarrow> x < 64 \<Longrightarrow>
     utf8_encode (a * 64 + x) = [char_of (0xC0 + a), char_of (0x80 + x)]"
  "a < 16 \<Longrightarrow> x < 64 \<Longrightarrow> y < 64 \<Longrightarrow> 0x800 \<le> (a * 64 + x) * 64 + y \<Longrightarrow>
     utf8_encode ((a * 64 + x) * 64 + y) =
       [char_of (0xE0 + a), char_of (0x80 + x), char_of (0x80 + y)]"
  "a \<le> 4 \<Longrightarrow> x < 64 \<Longrightarrow> y < 64 \<Longrightarrow> z < 64 \<Longrightarrow> 0x10000 \<le> ((a * 64 + x) * 64 + y) * 64 + z \<Longrightarrow>
     ((a * 64 + x) * 64 + y) * 64 + z \<le> 0x10FFFF \<Longrightarrow>
     utf8_encode (((a * 64 + x) * 64 + y) * 64 + z) =
       [char_of (0xF0 + a), char_of (0x80 + x), char_of (0x80 + y), char_of (0x80 + z)]"
proof -
  have d: "v div 4096 = v div 64 div 64" "v div 262144 = v div 64 div 64 div 64" for v :: nat
    by (simp_all add: div_mult2_eq [symmetric])
  show "2 \<le> a \<Longrightarrow> a < 32 \<Longrightarrow> x < 64 \<Longrightarrow>
     utf8_encode (a * 64 + x) = [char_of (0xC0 + a), char_of (0x80 + x)]"
    by (subst utf8_encode_arith) (simp_all only: digits64, simp_all)
  show "a < 16 \<Longrightarrow> x < 64 \<Longrightarrow> y < 64 \<Longrightarrow> 0x800 \<le> (a * 64 + x) * 64 + y \<Longrightarrow>
     utf8_encode ((a * 64 + x) * 64 + y) =
       [char_of (0xE0 + a), char_of (0x80 + x), char_of (0x80 + y)]"
    by (subst utf8_encode_arith) (simp_all only: digits64 d, simp_all)
  show "a \<le> 4 \<Longrightarrow> x < 64 \<Longrightarrow> y < 64 \<Longrightarrow> z < 64 \<Longrightarrow> 0x10000 \<le> ((a * 64 + x) * 64 + y) * 64 + z \<Longrightarrow>
     ((a * 64 + x) * 64 + y) * 64 + z \<le> 0x10FFFF \<Longrightarrow>
     utf8_encode (((a * 64 + x) * 64 + y) * 64 + z) =
       [char_of (0xF0 + a), char_of (0x80 + x), char_of (0x80 + y), char_of (0x80 + z)]"
    by (subst utf8_encode_arith) (simp_all only: digits64 d, simp_all)
qed

lemma utf8_lead_SomeD:
  assumes "utf8_lead b = Some (needed, v)"
  shows "(needed = 1 \<and> 2 \<le> v \<and> v < 32 \<and> b = 0xC0 + v) \<or>
    (needed = 2 \<and> v < 16 \<and> b = 0xE0 + v) \<or> (needed = 3 \<and> v \<le> 4 \<and> b = 0xF0 + v)"
proof -
  consider "0xC2 \<le> b \<and> b \<le> 0xDF" | "0xE0 \<le> b \<and> b \<le> 0xEF" | "0xF0 \<le> b \<and> b \<le> 0xF4"
    using assms by (auto simp: utf8_lead_def split: if_splits)
  then show ?thesis
  proof cases
    case 1
    then obtain x where x: "b = 0xC0 + x" "2 \<le> x" "x < 32" by (intro that [of "b - 0xC0"]) auto
    then show ?thesis using assms utf8_lead_simps(1) [of x] by simp
  next
    case 2
    then obtain x where x: "b = 0xE0 + x" "x < 16" by (intro that [of "b - 0xE0"]) auto
    then show ?thesis using assms utf8_lead_simps(2) [of x] by simp
  next
    case 3
    then obtain x where x: "b = 0xF0 + x" "x \<le> 4" by (intro that [of "b - 0xF0"]) auto
    then show ?thesis using assms utf8_lead_simps(3) [of x] by simp
  qed
qed

lemma utf8_valid_encode:
  assumes "is_scalar v"
  shows "facet_utf8_is_valid (utf8_encode v @ rest) = facet_utf8_is_valid rest"
proof -
  have v: "v \<le> 0x10FFFF" "\<not> (0xD800 \<le> v \<and> v \<le> 0xDFFF)" using assms by (auto simp: is_scalar_def)
  have dd: "v div 4096 = v div 64 div 64" "v div 262144 = v div 64 div 64 div 64"
    by (simp_all add: div_mult2_eq [symmetric])
  have join: "v div 64 * 64 + v mod 64 = v" "v div 64 div 64 * 64 + v div 64 mod 64 = v div 64"
    "v div 64 div 64 div 64 * 64 + v div 64 div 64 mod 64 = v div 64 div 64" by simp_all
  consider "v \<le> 0x7F" | "0x7F < v" "v \<le> 0x7FF" | "0x7FF < v" "v \<le> 0xFFFF" | "0xFFFF < v"
    by linarith
  then show ?thesis
  proof cases
    case 1
    then show ?thesis using utf8_encode_arith [OF v(1)] by simp
  next
    case 2
    then have d: "2 \<le> v div 64" "v div 64 < 32"
      by (simp_all add: less_eq_div_iff_mult_less_eq div_less_iff_less_mult)
    have "utf8_encode v = [char_of (0xC0 + v div 64), char_of (0x80 + v mod 64)]"
      using 2 utf8_encode_arith [OF v(1)] by simp
    moreover have "byte_val (char_of (0xC0 + v div 64)) = 0xC0 + v div 64"
      using d by (intro byte_val_char_of) simp
    ultimately show ?thesis
      using 2 v utf8_take_bytes_char [of "v mod 64" 0 "v div 64" rest] utf8_lead_simps(1) [OF d]
      by (simp add: join utf8_bad_value_def del: of_char_of)
  next
    case 3
    then have d: "v div 64 div 64 < 16"
      by (simp add: div_less_iff_less_mult)
    have "utf8_encode v = [char_of (0xE0 + v div 64 div 64), char_of (0x80 + v div 64 mod 64), char_of (0x80 + v mod 64)]"
      using 3 utf8_encode_arith [OF v(1)] by (simp add: dd)
    moreover have "byte_val (char_of (0xE0 + v div 64 div 64)) = 0xE0 + v div 64 div 64"
      using d by (intro byte_val_char_of) simp
    ultimately show ?thesis
      using 3 v utf8_take_bytes_char [of "v mod 64" 0 "v div 64" rest]
        utf8_take_bytes_char [of "v div 64 mod 64" 1 "v div 64 div 64" "char_of (0x80 + v mod 64) # rest"]
        utf8_lead_simps(2) [OF d]
      by (auto simp add: join utf8_bad_value_def numeral_2_eq_2 simp del: of_char_of)
  next
    case 4
    then have d: "v div 64 div 64 div 64 \<le> 4"
      using v(1) div_less_iff_less_mult [of 64 "v div 64 div 64" 5] by (simp add: div_less_iff_less_mult)
    have "utf8_encode v = [char_of (0xF0 + v div 64 div 64 div 64), char_of (0x80 + v div 64 div 64 mod 64),
        char_of (0x80 + v div 64 mod 64), char_of (0x80 + v mod 64)]"
      using 4 utf8_encode_arith [OF v(1)] by (simp add: dd)
    moreover have "byte_val (char_of (0xF0 + v div 64 div 64 div 64)) = 0xF0 + v div 64 div 64 div 64"
      using d by (intro byte_val_char_of) simp
    ultimately show ?thesis
      using 4 v utf8_take_bytes_char [of "v mod 64" 0 "v div 64" rest]
        utf8_take_bytes_char [of "v div 64 mod 64" 1 "v div 64 div 64" "char_of (0x80 + v mod 64) # rest"]
        utf8_take_bytes_char [of "v div 64 div 64 mod 64" 2 "v div 64 div 64 div 64"
          "char_of (0x80 + v div 64 mod 64) # char_of (0x80 + v mod 64) # rest"]
        utf8_lead_simps(3) [OF d]
      by (simp add: join utf8_bad_value_def numeral_2_eq_2 numeral_3_eq_3 del: of_char_of)
  qed
qed


lemma utf8_valid_decode:
  assumes "facet_utf8_is_valid s" and "s \<noteq> []"
  obtains v rest where "is_scalar v" "s = utf8_encode v @ rest" "facet_utf8_is_valid rest"
proof -
  obtain c rest where s: "s = c # rest" using assms(2) by (cases s) auto
  have c: "char_of (byte_val c :: nat) = c" by simp
  show ?thesis
  proof (cases "byte_val c < (0x80::nat)")
    case True
    then have "utf8_encode (byte_val c) = [c]" by (simp add: utf8_encode_def)
    with True assms s show ?thesis by (intro that [of "byte_val c" rest]) (auto simp: is_scalar_def)
  next
    case False
    then obtain needed a v rest' where lead: "utf8_lead (byte_val c) = Some (needed, a)"
      and take: "utf8_take_bytes needed a rest = Some (v, rest')" and ok: "\<not> utf8_bad_value needed v"
      and valid: "facet_utf8_is_valid rest'"
      using assms(1) s by (auto split: option.split_asm prod.split_asm if_split_asm)
    have scalar: "is_scalar v" using ok by (auto simp: utf8_bad_value_def is_scalar_def)
    from utf8_lead_SomeD [OF lead] show ?thesis
    proof (elim disjE conjE)
      assume n: "needed = 1" and a: "2 \<le> a" "a < 32" and b: "byte_val c = 0xC0 + a"
      from take n obtain x r where "x < 64" "rest = char_of (0x80 + x) # r" "r = rest'" "v = a * 64 + x"
        by (auto elim!: utf8_take_bytes_SucD simp del: utf8_take_bytes.simps(3))
      then have "s = utf8_encode v @ rest'" using s a c b utf8_encode_digits(1) [of a x] by simp
      with scalar valid show ?thesis by (intro that)
    next
      assume n: "needed = 2" and a: "a < 16" and b: "byte_val c = 0xE0 + a"
      from take n obtain x y r where "x < 64" "y < 64" "rest = char_of (0x80 + x) # char_of (0x80 + y) # r"
          "r = rest'" "v = (a * 64 + x) * 64 + y"
        by (auto elim!: utf8_take_bytes_SucD simp: numeral_2_eq_2 simp del: utf8_take_bytes.simps(3))
      moreover have "0x800 \<le> v" using ok n by (simp add: utf8_bad_value_def)
      ultimately have "s = utf8_encode v @ rest'" using s a c b utf8_encode_digits(2) [of a x y] by simp
      with scalar valid show ?thesis by (intro that)
    next
      assume n: "needed = 3" and a: "a \<le> 4" and b: "byte_val c = 0xF0 + a"
      from take n obtain x y z r where "x < 64" "y < 64" "z < 64"
          "rest = char_of (0x80 + x) # char_of (0x80 + y) # char_of (0x80 + z) # r"
          "r = rest'" "v = ((a * 64 + x) * 64 + y) * 64 + z"
        by (auto elim!: utf8_take_bytes_SucD simp: numeral_3_eq_3 simp del: utf8_take_bytes.simps(3))
      moreover have "0x10000 \<le> v" "v \<le> 0x10FFFF" using ok n by (simp_all add: utf8_bad_value_def)
      ultimately have "s = utf8_encode v @ rest'" using s a c b utf8_encode_digits(3) [of a x y z] by simp
      with scalar valid show ?thesis by (intro that)
    qed
  qed
qed

lemma facet_utf8_is_valid_iff: "facet_utf8_is_valid s \<longleftrightarrow> utf8_text s"
proof
  assume "facet_utf8_is_valid s"
  then show "utf8_text s"
  proof (induction "length s" arbitrary: s rule: less_induct)
    case less
    show ?case
    proof (cases "s = []")
      case True
      then show ?thesis by (auto simp: utf8_text_def intro: exI [of _ "[]"])
    next
      case False
      from utf8_valid_decode [OF less.prems False] obtain v rest where
        v: "is_scalar v" "s = utf8_encode v @ rest" "facet_utf8_is_valid rest" .
      have "utf8_encode v \<noteq> []" by (simp add: utf8_encode_def)
      with v less.hyps have "utf8_text rest" by simp
      then obtain vs where "\<forall>v \<in> set vs. is_scalar v" "rest = concat (map utf8_encode vs)"
        by (auto simp: utf8_text_def)
      with v show ?thesis unfolding utf8_text_def by (intro exI [of _ "v # vs"]) simp
    qed
  qed
next
  assume "utf8_text s"
  then obtain vs where "\<forall>v \<in> set vs. is_scalar v" "s = concat (map utf8_encode vs)"
    by (auto simp: utf8_text_def)
  then show "facet_utf8_is_valid s"
    by (induction vs arbitrary: s) (simp_all add: utf8_valid_encode)
qed

lemma utf8_validate_iff: "utf8_validate s = Inr () \<longleftrightarrow> utf8_text s"
  by (simp add: utf8_validate_def utf8_validate_from_iff facet_utf8_is_valid_iff)

text \<open>
  C26. UTF-8 validation.  The validator of include/facetos/utf8.h and the one the
  configuration parser runs accept the same inputs, namely exactly the
  concatenations of encoded Unicode scalar values (no overlong form, no
  surrogate, nothing above U+10FFFF, no truncated sequence).
\<close>

theorem utf8_validators_exact:
  "facet_utf8_is_valid s = utf8_text s \<and> (utf8_validate s = Inr ()) = utf8_text s"
  by (simp add: facet_utf8_is_valid_iff utf8_validate_iff)

end
