(* ===== verification/ConfigModel.thy ===== *)
theory ConfigModel
  imports Utf8
begin

text \<open>
  The system configuration: types of include/facetos/config.h and the parser and
  validator of src/config.c.  This theory holds the types, the lexer and the value parser;
  ConfigSchema the schema and the validation; ConfigParse and ConfigValid what is
  proved about them.

  A \<open>char *\<close> field is a \<open>string option\<close> (\<open>None\<close> is NULL), an array with
  its count is a list.  The Parser structure keeps the bytes that are still
  unread instead of the whole buffer with an offset.  Its \<open>failed\<close> flag and
  diagnostic are the \<open>Inl\<close> side of the result: every caller in config.c
  returns as soon as a callee has failed, so the first diagnostic is the result.
  Two further error values stand for what C leaves undefined or unbounded, and
  are proved unreachable: a NULL pointer that is dereferenced and a recursion
  that runs out of fuel.
\<close>

section \<open>Types of config.h\<close>

abbreviation FACET_CONFIG_MAX_BYTES :: nat where "FACET_CONFIG_MAX_BYTES \<equiv> 1048576"
abbreviation FACET_CONFIG_MAX_DEPTH :: nat where "FACET_CONFIG_MAX_DEPTH \<equiv> 16"
abbreviation FACET_CONFIG_MAX_ENTRIES :: nat where "FACET_CONFIG_MAX_ENTRIES \<equiv> 4096"
abbreviation FACET_CONFIG_MAX_STRING_BYTES :: nat where "FACET_CONFIG_MAX_STRING_BYTES \<equiv> 65536"
abbreviation FACET_CONFIG_MAX_ARRAY_ELEMENTS :: nat where "FACET_CONFIG_MAX_ARRAY_ELEMENTS \<equiv> 4096"

datatype FacetConfigDiagnosticCategory =
    FACET_CONFIG_DIAGNOSTIC_NONE
  | FACET_CONFIG_DIAGNOSTIC_SYNTAX
  | FACET_CONFIG_DIAGNOSTIC_UTF8
  | FACET_CONFIG_DIAGNOSTIC_LIMIT
  | FACET_CONFIG_DIAGNOSTIC_UNSUPPORTED_VERSION
  | FACET_CONFIG_DIAGNOSTIC_SCHEMA
  | FACET_CONFIG_DIAGNOSTIC_DUPLICATE
  | FACET_CONFIG_DIAGNOSTIC_UNRESOLVED_REFERENCE
  | FACET_CONFIG_DIAGNOSTIC_OUT_OF_MEMORY

record FacetConfigDiagnostic =
  dg_category :: FacetConfigDiagnosticCategory
  dg_line :: nat
  dg_column :: nat
  dg_context :: string
  dg_message :: string

datatype FacetConfigPersonality =
    FACET_CONFIG_PERSONALITY_NATIVE
  | FACET_CONFIG_PERSONALITY_POSIX
  | FACET_CONFIG_PERSONALITY_VM

datatype FacetConfigDomainManagerMode =
    FACET_CONFIG_DOMAIN_MANAGER_NONE
  | FACET_CONFIG_DOMAIN_MANAGER_LOCAL
  | FACET_CONFIG_DOMAIN_MANAGER_PARENT

datatype FacetConfigLogLevel =
    FACET_CONFIG_LOG_NONE
  | FACET_CONFIG_LOG_FATAL
  | FACET_CONFIG_LOG_ERROR
  | FACET_CONFIG_LOG_WARNING
  | FACET_CONFIG_LOG_INFO
  | FACET_CONFIG_LOG_DEBUG
  | FACET_CONFIG_LOG_TRACE

datatype FacetConfigSeatType = FACET_CONFIG_SEAT_SERIAL | FACET_CONFIG_SEAT_LOCAL

datatype FacetConfigTerminalView =
  FACET_CONFIG_TERMINAL_VIEW_NATIVE | FACET_CONFIG_TERMINAL_VIEW_POSIX

record FacetConfigLoggingSinkDefinition =
  ls_name :: "string option"
  ls_type :: "string option"
  ls_required :: bool
  ls_present :: u32

record FacetConfigSeatDefinition =
  st_name :: "string option"
  st_server :: "string option"
  st_type :: FacetConfigSeatType
  st_terminals :: "string list"
  st_present :: u32

record FacetConfigAuthenticationSource =
  au_name :: "string option"
  au_provider_domain_id :: nat
  au_provider_domain_index :: nat
  au_type :: "string option"
  au_required :: bool
  au_present :: u32

record FacetConfigUser =
  us_name :: "string option"
  us_password_hash :: "string option"
  us_admin :: bool
  us_uid :: u32
  us_gid :: u32
  us_home_path :: "string option"
  us_native_shell :: "string option"
  us_posix_shell :: "string option"
  us_present :: u32

record FacetConfigDomainSink =
  dk_name :: "string option"
  dk_level :: FacetConfigLogLevel
  dk_sink_definition_index :: nat

record FacetConfigTerminalAssignment =
  ta_reference :: "string option"
  ta_seat_index :: nat
  ta_terminal_index :: nat
  ta_view :: FacetConfigTerminalView
  ta_initial_process :: "string option"
  ta_device_name :: "string option"
  ta_run_as :: "string option"
  ta_present :: u32

record FacetConfigDomain =
  dm_id :: nat
  dm_name :: "string option"
  dm_personality :: FacetConfigPersonality
  dm_domain_manager :: FacetConfigDomainManagerMode
  dm_authentication_source :: "string option"
  dm_authentication_source_index :: nat
  dm_pid1 :: "string option"
  dm_initrd :: "string option"
  dm_users :: "FacetConfigUser list"
  dm_logging_sinks :: "FacetConfigDomainSink list"
  dm_terminals :: "FacetConfigTerminalAssignment list"
  dm_present :: u32

record FacetSystemConfig =
  sc_version :: nat
  sc_seat_initrd :: "string option"
  sc_logging_sinks :: "FacetConfigLoggingSinkDefinition list"
  sc_authentication_sources :: "FacetConfigAuthenticationSource list"
  sc_users :: "FacetConfigUser list"
  sc_seats :: "FacetConfigSeatDefinition list"
  sc_domains :: "FacetConfigDomain list"
  sc_root_index :: nat

text \<open>New array elements are cleared to zero bytes.\<close>

definition zero_sink :: FacetConfigLoggingSinkDefinition where
  "zero_sink = \<lparr>ls_name = None, ls_type = None, ls_required = False, ls_present = 0\<rparr>"

definition zero_seat :: FacetConfigSeatDefinition where
  "zero_seat = \<lparr>st_name = None, st_server = None, st_type = FACET_CONFIG_SEAT_SERIAL,
     st_terminals = [], st_present = 0\<rparr>"

definition zero_source :: FacetConfigAuthenticationSource where
  "zero_source = \<lparr>au_name = None, au_provider_domain_id = 0, au_provider_domain_index = 0,
     au_type = None, au_required = False, au_present = 0\<rparr>"

definition zero_user :: FacetConfigUser where
  "zero_user = \<lparr>us_name = None, us_password_hash = None, us_admin = False, us_uid = 0, us_gid = 0,
     us_home_path = None, us_native_shell = None, us_posix_shell = None, us_present = 0\<rparr>"

definition zero_domain_sink :: FacetConfigDomainSink where
  "zero_domain_sink = \<lparr>dk_name = None, dk_level = FACET_CONFIG_LOG_NONE, dk_sink_definition_index = 0\<rparr>"

definition zero_assignment :: FacetConfigTerminalAssignment where
  "zero_assignment = \<lparr>ta_reference = None, ta_seat_index = 0, ta_terminal_index = 0,
     ta_view = FACET_CONFIG_TERMINAL_VIEW_NATIVE, ta_initial_process = None,
     ta_device_name = None, ta_run_as = None, ta_present = 0\<rparr>"

definition zero_domain :: FacetConfigDomain where
  "zero_domain = \<lparr>dm_id = 0, dm_name = None, dm_personality = FACET_CONFIG_PERSONALITY_NATIVE,
     dm_domain_manager = FACET_CONFIG_DOMAIN_MANAGER_NONE, dm_authentication_source = None,
     dm_authentication_source_index = 0, dm_pid1 = None, dm_initrd = None, dm_users = [],
     dm_logging_sinks = [], dm_terminals = [], dm_present = 0\<rparr>"

definition zero_config :: FacetSystemConfig where
  "zero_config = \<lparr>sc_version = 0, sc_seat_initrd = None, sc_logging_sinks = [],
     sc_authentication_sources = [], sc_users = [], sc_seats = [], sc_domains = [], sc_root_index = 0\<rparr>"

section \<open>Parser state and values\<close>

datatype Value = Value (v_line: nat) (v_column: nat) (v_as: ValueAs)
and ValueAs =
    VALUE_STRING string
  | VALUE_INTEGER int
  | VALUE_BOOL bool
  | VALUE_ARRAY "Value list"
  | VALUE_TABLE "ValueEntry list"
and ValueEntry = ValueEntry (e_key: string) (e_line: nat) (e_column: nat) (e_value: Value)

datatype SectionKind =
    SECTION_NONE
  | SECTION_FACET
  | SECTION_LOGGING_SINK
  | SECTION_AUTHENTICATION_SOURCE
  | SECTION_USER
  | SECTION_SEAT
  | SECTION_DOMAIN

record Parser =
  p_rest :: string
  p_line :: nat
  p_column :: nat
  p_entry_count :: nat
  p_section :: SectionKind
  p_section_index :: nat
  p_facet_seen :: bool
  p_config :: FacetSystemConfig
  p_heap :: heap

datatype ConfigError = Diag FacetConfigDiagnostic | NullDeref | OutOfFuel

type_synonym 'a cfg = "ConfigError + 'a"

text \<open>The presence bits.\<close>

abbreviation SINK_NAME :: u32 where "SINK_NAME \<equiv> 0x1"
abbreviation SINK_TYPE :: u32 where "SINK_TYPE \<equiv> 0x2"
abbreviation SINK_REQUIRED :: u32 where "SINK_REQUIRED \<equiv> 0x4"
abbreviation AUTH_NAME :: u32 where "AUTH_NAME \<equiv> 0x1"
abbreviation AUTH_PROVIDER_DOMAIN :: u32 where "AUTH_PROVIDER_DOMAIN \<equiv> 0x2"
abbreviation AUTH_TYPE :: u32 where "AUTH_TYPE \<equiv> 0x4"
abbreviation AUTH_REQUIRED :: u32 where "AUTH_REQUIRED \<equiv> 0x8"
abbreviation SEAT_NAME :: u32 where "SEAT_NAME \<equiv> 0x1"
abbreviation SEAT_TYPE :: u32 where "SEAT_TYPE \<equiv> 0x2"
abbreviation SEAT_TERMINALS :: u32 where "SEAT_TERMINALS \<equiv> 0x4"
abbreviation SEAT_SERVER :: u32 where "SEAT_SERVER \<equiv> 0x8"
abbreviation DOMAIN_ID :: u32 where "DOMAIN_ID \<equiv> 0x1"
abbreviation DOMAIN_NAME :: u32 where "DOMAIN_NAME \<equiv> 0x2"
abbreviation DOMAIN_PERSONALITY :: u32 where "DOMAIN_PERSONALITY \<equiv> 0x4"
abbreviation DOMAIN_MANAGER :: u32 where "DOMAIN_MANAGER \<equiv> 0x8"
abbreviation DOMAIN_SINKS :: u32 where "DOMAIN_SINKS \<equiv> 0x10"
abbreviation DOMAIN_TERMINALS :: u32 where "DOMAIN_TERMINALS \<equiv> 0x20"
abbreviation DOMAIN_AUTHENTICATION_SOURCE :: u32 where "DOMAIN_AUTHENTICATION_SOURCE \<equiv> 0x40"
abbreviation DOMAIN_PID1 :: u32 where "DOMAIN_PID1 \<equiv> 0x80"
abbreviation DOMAIN_INITRD :: u32 where "DOMAIN_INITRD \<equiv> 0x100"
abbreviation DOMAIN_USERS :: u32 where "DOMAIN_USERS \<equiv> 0x200"
abbreviation USER_NAME :: u32 where "USER_NAME \<equiv> 0x1"
abbreviation USER_PASSWORD_HASH :: u32 where "USER_PASSWORD_HASH \<equiv> 0x2"
abbreviation USER_ADMIN :: u32 where "USER_ADMIN \<equiv> 0x4"
abbreviation USER_NATIVE_SHELL :: u32 where "USER_NATIVE_SHELL \<equiv> 0x8"
abbreviation USER_POSIX_SHELL :: u32 where "USER_POSIX_SHELL \<equiv> 0x10"
abbreviation USER_UID :: u32 where "USER_UID \<equiv> 0x20"
abbreviation USER_GID :: u32 where "USER_GID \<equiv> 0x40"
abbreviation USER_HOME_PATH :: u32 where "USER_HOME_PATH \<equiv> 0x80"
abbreviation TERMINAL_REFERENCE :: u32 where "TERMINAL_REFERENCE \<equiv> 0x1"
abbreviation TERMINAL_VIEW :: u32 where "TERMINAL_VIEW \<equiv> 0x2"
abbreviation TERMINAL_INITIAL_PROCESS :: u32 where "TERMINAL_INITIAL_PROCESS \<equiv> 0x4"
abbreviation TERMINAL_DEVICE :: u32 where "TERMINAL_DEVICE \<equiv> 0x8"
abbreviation TERMINAL_RUN_AS :: u32 where "TERMINAL_RUN_AS \<equiv> 0x10"

section \<open>Diagnostics and limits\<close>

definition fail_at ::
  "FacetConfigDiagnosticCategory \<Rightarrow> nat \<Rightarrow> nat \<Rightarrow> string \<Rightarrow> string \<Rightarrow> 'a cfg" where
  "fail_at category line column context message =
     Inl (Diag \<lparr>dg_category = category, dg_line = line, dg_column = column,
                dg_context = List.take 95 context, dg_message = List.take 191 message\<rparr>)"

definition fail ::
  "Parser \<Rightarrow> FacetConfigDiagnosticCategory \<Rightarrow> string \<Rightarrow> string \<Rightarrow> 'a cfg" where
  "fail p category context message = fail_at category (p_line p) (p_column p) context message"

definition consume_entry :: "Parser \<Rightarrow> nat \<Rightarrow> nat \<Rightarrow> string \<Rightarrow> Parser cfg" where
  "consume_entry p line column context =
     (if p_entry_count p \<ge> FACET_CONFIG_MAX_ENTRIES
      then fail_at FACET_CONFIG_DIAGNOSTIC_LIMIT line column context ''configuration has too many entries''
      else Inr (p\<lparr>p_entry_count := p_entry_count p + 1\<rparr>))"

definition parser_alloc :: "Parser \<Rightarrow> string \<Rightarrow> Parser cfg" where
  "parser_alloc p context =
     (if p_heap p = 0 then fail p FACET_CONFIG_DIAGNOSTIC_OUT_OF_MEMORY context ''out of memory''
      else Inr (p\<lparr>p_heap := p_heap p - 1\<rparr>))"

section \<open>Characters, blanks and comments\<close>

definition current :: "Parser \<Rightarrow> char option" where
  "current p = (case p_rest p of [] \<Rightarrow> None | c # _ \<Rightarrow> Some c)"

abbreviation LF :: char where "LF \<equiv> CHR 0x0A"
abbreviation CR :: char where "CR \<equiv> CHR 0x0D"
abbreviation TAB :: char where "TAB \<equiv> CHR 0x09"
abbreviation QUOTE :: char where "QUOTE \<equiv> CHR 0x22"
abbreviation APOS :: char where "APOS \<equiv> CHR 0x27"
abbreviation BACKSLASH :: char where "BACKSLASH \<equiv> CHR 0x5C"

definition advance :: "Parser \<Rightarrow> Parser" where
  "advance p =
     (case p_rest p of
        [] \<Rightarrow> p
      | c # rest \<Rightarrow>
          if c = LF then p\<lparr>p_rest := rest, p_line := p_line p + 1, p_column := 1\<rparr>
          else p\<lparr>p_rest := rest, p_column := p_column p + 1\<rparr>)"

text \<open>\<open>take\<close> of config.c returns the byte (\<open>None\<close> for -1) and moves on.\<close>

definition take_char :: "Parser \<Rightarrow> char option \<times> Parser" where
  "take_char p = (current p, advance p)"

lemma length_advance: "length (p_rest (advance p)) = length (p_rest p) - 1"
  by (auto simp: advance_def split: list.split)

lemma current_None_iff: "current p = None \<longleftrightarrow> p_rest p = []"
  by (simp add: current_def split: list.split)

lemma current_SomeD: "current p = Some c \<Longrightarrow> length (p_rest (advance p)) < length (p_rest p)"
  by (cases "p_rest p") (auto simp: current_def length_advance)

lemma advance_less: "current p \<noteq> None \<Longrightarrow> length (p_rest (advance p)) < length (p_rest p)"
  by (auto dest: current_SomeD)

function skip_comment :: "Parser \<Rightarrow> Parser" where
  "skip_comment p =
     (if current p \<noteq> None \<and> current p \<noteq> Some LF then skip_comment (advance p) else p)"
  by pat_completeness auto
termination
  by (relation "measure (\<lambda>p. length (p_rest p))") (auto dest: current_SomeD)

declare skip_comment.simps [simp del]

lemma length_skip_comment: "length (p_rest (skip_comment p)) \<le> length (p_rest p)"
proof (induction p rule: skip_comment.induct)
  case (1 p)
  then show ?case
    using advance_less [of p] by (subst skip_comment.simps) (auto intro: le_trans less_imp_le)
qed

lemma length_skip_comment_less:
  assumes "current p = Some CHR ''#''"
  shows "length (p_rest (skip_comment p)) < length (p_rest p)"
  using length_skip_comment [of "advance p"] current_SomeD [OF assms] assms
  by (subst skip_comment.simps) auto

definition is_blank :: "bool \<Rightarrow> char \<Rightarrow> bool" where
  "is_blank allow_newline c \<longleftrightarrow>
     c = CHR '' '' \<or> c = TAB \<or> c = CR \<or> (allow_newline \<and> c = LF)"

function skip_space_and_comments :: "bool \<Rightarrow> Parser \<Rightarrow> Parser" where
  "skip_space_and_comments allow_newline p =
     (case current p of
        None \<Rightarrow> p
      | Some c \<Rightarrow>
          if is_blank allow_newline c then skip_space_and_comments allow_newline (advance p)
          else if c = CHR ''#'' then
            (let p' = skip_comment p in
             if \<not> allow_newline then p' else skip_space_and_comments allow_newline p')
          else p)"
  by pat_completeness auto
termination
  by (relation "measure (\<lambda>(b, p). length (p_rest p))")
    (auto dest: current_SomeD length_skip_comment_less)

declare skip_space_and_comments.simps [simp del]

section \<open>Strings and keys\<close>

definition duplicate_bytes :: "Parser \<Rightarrow> string \<Rightarrow> (string \<times> Parser) cfg" where
  "duplicate_bytes p s =
     (if length s > FACET_CONFIG_MAX_STRING_BYTES
      then fail p FACET_CONFIG_DIAGNOSTIC_LIMIT ''string'' ''string exceeds configured limit''
      else bindE (parser_alloc p ''allocation'') (\<lambda>p'. Inr (s, p')))"

text \<open>
  A string under construction: its bytes and the capacity of the allocation that
  holds them and the terminating NUL.  Capacity 0 is the NULL buffer.
\<close>

record Buffer =
  b_bytes :: string
  b_capacity :: nat

function double_until :: "nat \<Rightarrow> nat \<Rightarrow> nat" where
  "double_until next need = (if 0 < next \<and> next < need then double_until (next * 2) need else next)"
  by pat_completeness auto
termination
  by (relation "measure (\<lambda>(next, need). need - next)") auto

declare double_until.simps [simp del]

definition clamp_capacity :: "nat \<Rightarrow> nat" where
  "clamp_capacity next =
     (if next > FACET_CONFIG_MAX_STRING_BYTES + 1 then FACET_CONFIG_MAX_STRING_BYTES + 1 else next)"

definition append_utf8 :: "Parser \<Rightarrow> Buffer \<Rightarrow> nat \<Rightarrow> (Buffer \<times> Parser) cfg" where
  "append_utf8 p buf scalar =
     (let count = utf8_count scalar; used = length (b_bytes buf) in
      if scalar > 0x10FFFF \<or> (0xD800 \<le> scalar \<and> scalar \<le> 0xDFFF)
      then fail p FACET_CONFIG_DIAGNOSTIC_SYNTAX ''string'' ''invalid Unicode scalar escape''
      else if used > FACET_CONFIG_MAX_STRING_BYTES - count
      then fail p FACET_CONFIG_DIAGNOSTIC_LIMIT ''string'' ''string exceeds configured limit''
      else bindE
        (if used + count + 1 > b_capacity buf
         then let next = double_until (if b_capacity buf = 0 then 32 else b_capacity buf * 2)
                           (used + count + 1)
              in bindE (parser_alloc p ''allocation'')
                   (\<lambda>p'. Inr (buf\<lparr>b_capacity := clamp_capacity next\<rparr>, p'))
         else Inr (buf, p))
        (\<lambda>(buf', p'). Inr (buf'\<lparr>b_bytes := b_bytes buf' @ utf8_encode scalar\<rparr>, p')))"

definition append_raw_byte :: "Parser \<Rightarrow> Buffer \<Rightarrow> char \<Rightarrow> (Buffer \<times> Parser) cfg" where
  "append_raw_byte p buf byte =
     (let used = length (b_bytes buf) in
      if used \<ge> FACET_CONFIG_MAX_STRING_BYTES
      then fail p FACET_CONFIG_DIAGNOSTIC_LIMIT ''string'' ''string exceeds configured limit''
      else bindE
        (if used + 2 > b_capacity buf
         then let next = (if b_capacity buf = 0 then 32 else b_capacity buf * 2)
              in bindE (parser_alloc p ''allocation'')
                   (\<lambda>p'. Inr (buf\<lparr>b_capacity := clamp_capacity next\<rparr>, p'))
         else Inr (buf, p))
        (\<lambda>(buf', p'). Inr (buf'\<lparr>b_bytes := b_bytes buf' @ [byte]\<rparr>, p')))"

fun unicode_digits :: "nat \<Rightarrow> nat \<Rightarrow> Parser \<Rightarrow> (nat \<times> Parser) cfg" where
  "unicode_digits 0 scalar p = Inr (scalar, p)"
| "unicode_digits (Suc n) scalar p =
     (case take_char p of (c, p') \<Rightarrow>
      (case Option.bind c hex_digit of
         None \<Rightarrow> fail p' FACET_CONFIG_DIAGNOSTIC_SYNTAX ''string'' ''invalid Unicode escape''
       | Some digit \<Rightarrow> unicode_digits n (push_bit 4 scalar OR digit) p'))"

definition parse_escape :: "Parser \<Rightarrow> (nat \<times> Parser) cfg" where
  "parse_escape p =
     (case take_char p of (c, p') \<Rightarrow>
        if c = Some CHR ''b'' then Inr (8, p')
        else if c = Some CHR ''t'' then Inr (9, p')
        else if c = Some CHR ''n'' then Inr (10, p')
        else if c = Some CHR ''f'' then Inr (12, p')
        else if c = Some CHR ''r'' then Inr (13, p')
        else if c = Some QUOTE then Inr (0x22, p')
        else if c = Some BACKSLASH then Inr (0x5C, p')
        else if c = Some CHR ''u'' then unicode_digits 4 0 p'
        else if c = Some CHR ''U'' then unicode_digits 8 0 p'
        else fail p' FACET_CONFIG_DIAGNOSTIC_SYNTAX ''string'' ''invalid string escape'')"

definition append_scalar :: "bool \<Rightarrow> nat \<Rightarrow> Parser \<Rightarrow> Buffer \<Rightarrow> (Buffer \<times> Parser) cfg" where
  "append_scalar escaped scalar p buf =
     (if scalar = 0
      then fail p FACET_CONFIG_DIAGNOSTIC_SCHEMA ''string''
             ''NUL is not permitted in configuration strings''
      else if \<not> escaped \<and> ((scalar < 0x20 \<and> scalar \<noteq> 9) \<or> scalar = 0x7F)
      then fail p FACET_CONFIG_DIAGNOSTIC_SYNTAX ''string'' ''unescaped control character in string''
      else if escaped then append_utf8 p buf scalar
      else append_raw_byte p buf (char_of scalar))"

text \<open>One round of the loop in parse_quoted_string, for a byte that is not the closing quote.\<close>

definition quoted_step :: "char \<Rightarrow> Parser \<Rightarrow> Buffer \<Rightarrow> char \<Rightarrow> (Buffer \<times> Parser) cfg" where
  "quoted_step quote p buf c =
     (let p' = advance p in
      if c = LF \<or> c = CR
      then fail p' FACET_CONFIG_DIAGNOSTIC_SYNTAX ''string'' ''multiline strings are not supported''
      else if quote = QUOTE \<and> c = BACKSLASH
      then bindE (parse_escape p') (\<lambda>(scalar, p''). append_scalar True scalar p'' buf)
      else append_scalar False (byte_val c) p' buf)"

lemma fail_neq_Inr [simp]: "fail p k c m \<noteq> Inr x" "fail_at k l col c m \<noteq> Inr x"
  by (simp_all add: fail_def fail_at_def)

lemma unicode_digits_rest:
  "unicode_digits n v p = Inr (s, p') \<Longrightarrow> length (p_rest p') \<le> length (p_rest p)"
proof (induction n v p rule: unicode_digits.induct)
  case (2 n v p)
  then show ?case
    by (force simp: take_char_def length_advance split: option.splits)
qed simp

lemma parse_escape_rest:
  "parse_escape p = Inr (s, p') \<Longrightarrow> length (p_rest p') \<le> length (p_rest p)"
  by (auto simp: parse_escape_def take_char_def length_advance dest!: unicode_digits_rest split: if_splits)

lemma parser_alloc_InrD: "parser_alloc p c = Inr p' \<Longrightarrow> p' = p\<lparr>p_heap := p_heap p - 1\<rparr>"
  by (auto simp: parser_alloc_def split: if_splits)

lemma append_utf8_rest: "append_utf8 p buf v = Inr (buf', p') \<Longrightarrow> p_rest p' = p_rest p"
  by (auto simp: append_utf8_def Let_def error_monad dest!: parser_alloc_InrD split: if_splits)

lemma append_raw_byte_rest: "append_raw_byte p buf v = Inr (buf', p') \<Longrightarrow> p_rest p' = p_rest p"
  by (auto simp: append_raw_byte_def Let_def error_monad dest!: parser_alloc_InrD split: if_splits)

lemma append_scalar_rest: "append_scalar e v p buf = Inr (buf', p') \<Longrightarrow> p_rest p' = p_rest p"
  by (auto simp: append_scalar_def dest: append_utf8_rest append_raw_byte_rest split: if_splits)

lemma quoted_step_rest:
  assumes "quoted_step quote p buf c = Inr (buf', p')" and "current p = Some c"
  shows "length (p_rest p') < length (p_rest p)"
  using assms current_SomeD [OF assms(2)]
  by (auto simp: quoted_step_def Let_def error_monad dest!: append_scalar_rest parse_escape_rest split: if_splits)

function quoted_loop :: "char \<Rightarrow> Parser \<Rightarrow> Buffer \<Rightarrow> (Buffer \<times> Parser) cfg" where
  "quoted_loop quote p buf =
     (case current p of
        None \<Rightarrow> Inr (buf, p)
      | Some c \<Rightarrow>
          if c = quote then Inr (buf, p)
          else bindE (quoted_step quote p buf c) (\<lambda>(buf', p'). quoted_loop quote p' buf'))"
  by pat_completeness auto
termination
  by (relation "measure (\<lambda>(quote, p, buf). length (p_rest p))") (auto dest: quoted_step_rest)

declare quoted_loop.simps [simp del]

definition parse_quoted_string :: "Parser \<Rightarrow> (string \<times> Parser) cfg" where
  "parse_quoted_string p =
     (case current p of
        None \<Rightarrow> fail p FACET_CONFIG_DIAGNOSTIC_SYNTAX ''string'' ''unterminated string''
      | Some quote \<Rightarrow>
          bindE (quoted_loop quote (advance p) \<lparr>b_bytes = [], b_capacity = 0\<rparr>)
            (\<lambda>(buf, p1).
               case take_char p1 of (c, p2) \<Rightarrow>
                 if c \<noteq> Some quote
                 then fail p2 FACET_CONFIG_DIAGNOSTIC_SYNTAX ''string'' ''unterminated string''
                 else if b_capacity buf = 0 then duplicate_bytes p2 []
                 else Inr (b_bytes buf, p2)))"

definition bare_key_character :: "char \<Rightarrow> bool" where
  "bare_key_character c \<longleftrightarrow>
     (let b = byte_val c :: nat in
      (byte_val CHR ''a'' \<le> b \<and> b \<le> byte_val CHR ''z'') \<or>
      (byte_val CHR ''A'' \<le> b \<and> b \<le> byte_val CHR ''Z'') \<or>
      (byte_val CHR ''0'' \<le> b \<and> b \<le> byte_val CHR ''9'') \<or> c = CHR ''_'' \<or> c = CHR ''-'')"

text \<open>The bare key: the longest run of key characters, and the parser behind it.\<close>

function take_bare_key :: "Parser \<Rightarrow> string \<times> Parser" where
  "take_bare_key p =
     (case current p of
        None \<Rightarrow> ([], p)
      | Some c \<Rightarrow>
          if bare_key_character c then (case take_bare_key (advance p) of (s, p') \<Rightarrow> (c # s, p'))
          else ([], p))"
  by pat_completeness auto
termination
  by (relation "measure (\<lambda>p. length (p_rest p))") (auto dest: current_SomeD)

declare take_bare_key.simps [simp del]

definition parse_key :: "Parser \<Rightarrow> (string \<times> Parser) cfg" where
  "parse_key p =
     (if current p = Some QUOTE \<or> current p = Some APOS then parse_quoted_string p
      else case take_bare_key p of (key, p') \<Rightarrow>
        if key = [] then fail p' FACET_CONFIG_DIAGNOSTIC_SYNTAX ''key'' ''expected a key''
        else duplicate_bytes p' key)"

section \<open>Values\<close>

definition array_append :: "Parser \<Rightarrow> Value list \<Rightarrow> Value \<Rightarrow> (Value list \<times> Parser) cfg" where
  "array_append p items item =
     (if length items \<ge> FACET_CONFIG_MAX_ARRAY_ELEMENTS
      then fail p FACET_CONFIG_DIAGNOSTIC_LIMIT ''array'' ''array exceeds configured element limit''
      else bindE (parser_alloc p ''allocation'') (\<lambda>p'. Inr (items @ [item], p')))"

definition table_append :: "Parser \<Rightarrow> ValueEntry list \<Rightarrow> ValueEntry \<Rightarrow> (ValueEntry list \<times> Parser) cfg" where
  "table_append p entries entry =
     (if length entries \<ge> FACET_CONFIG_MAX_ARRAY_ELEMENTS
      then fail p FACET_CONFIG_DIAGNOSTIC_LIMIT ''inline table''
             ''inline table exceeds configured element limit''
      else if list_ex (\<lambda>e. e_key e = e_key entry) entries
      then fail_at FACET_CONFIG_DIAGNOSTIC_DUPLICATE (e_line entry) (e_column entry) (e_key entry)
             ''duplicate inline-table key''
      else bindE (parser_alloc p ''allocation'') (\<lambda>p'. Inr (entries @ [entry], p')))"

text \<open>Integers: the magnitude is accumulated in a uint64_t.\<close>

abbreviation INT64_MAX :: u64 where "INT64_MAX \<equiv> 0x7FFFFFFFFFFFFFFF"

definition is_digit :: "char option \<Rightarrow> bool" where
  "is_digit c =
     (case c of None \<Rightarrow> False
      | Some d \<Rightarrow> (byte_val CHR ''0'' :: nat) \<le> byte_val d \<and> byte_val d \<le> (byte_val CHR ''9'' :: nat))"

function integer_digits :: "bool \<Rightarrow> u64 \<Rightarrow> Parser \<Rightarrow> (u64 \<times> Parser) cfg" where
  "integer_digits negative magnitude p =
     (if is_digit (current p)
      then case take_char p of (c, p') \<Rightarrow>
        let digit = (of_nat (byte_val (the c) - byte_val CHR ''0'') :: u64);
            limit = (if negative then INT64_MAX + 1 else INT64_MAX) in
        if magnitude > (limit - digit) div 10
        then fail p' FACET_CONFIG_DIAGNOSTIC_SYNTAX ''integer'' ''signed integer overflow''
        else integer_digits negative (magnitude * 10 + digit) p'
      else Inr (magnitude, p))"
  by pat_completeness auto
termination
  by (relation "measure (\<lambda>(n, m, p). length (p_rest p))")
    (auto simp: take_char_def is_digit_def dest: current_SomeD split: option.splits)

declare integer_digits.simps [simp del]

definition parse_integer :: "Parser \<Rightarrow> (int \<times> Parser) cfg" where
  "parse_integer p =
     (let negative = (current p = Some CHR ''-'');
          start = (if current p = Some CHR ''+'' \<or> current p = Some CHR ''-'' then advance p else p) in
      bindE (integer_digits negative 0 start)
        (\<lambda>(magnitude, p').
           let count = length (p_rest start) - length (p_rest p') in
           if count = 0
           then fail p' FACET_CONFIG_DIAGNOSTIC_SYNTAX ''value'' ''expected a value''
           else if count > 1 \<and> current start = Some CHR ''0''
           then fail p' FACET_CONFIG_DIAGNOSTIC_SYNTAX ''integer'' ''leading zero is not permitted''
           else Inr (if negative then - uint magnitude else uint magnitude, p')))"

definition advance_by :: "nat \<Rightarrow> Parser \<Rightarrow> Parser" where
  "advance_by n p = p\<lparr>p_rest := drop n (p_rest p), p_column := p_column p + n\<rparr>"

text \<open>
  The rounds of the two loops outside the recursion: what follows an array
  element or a table entry (\<open>True\<close> when the closing bracket was consumed), and
  the key, equals sign and node allocation in front of a table entry's value.
\<close>

definition array_next :: "Parser \<Rightarrow> (bool \<times> Parser) cfg" where
  "array_next p =
     (let p3 = skip_space_and_comments True p in
      if current p3 = Some CHR '']'' then Inr (True, advance p3)
      else case take_char p3 of (c, p4) \<Rightarrow>
        if c \<noteq> Some CHR '','' then
          fail p4 FACET_CONFIG_DIAGNOSTIC_SYNTAX ''array'' (''expected ',' or ']'' @ [APOS])
        else let p5 = skip_space_and_comments True p4 in
          if current p5 = Some CHR '']'' then Inr (True, advance p5)
          else Inr (False, p5))"

definition table_key :: "Parser \<Rightarrow> (string \<times> Parser) cfg" where
  "table_key p =
     bindE (consume_entry p (p_line p) (p_column p) ''inline table'') (\<lambda>p1.
     bindE (parse_key p1) (\<lambda>(key, p2).
     case take_char (skip_space_and_comments False p2) of (c, p3) \<Rightarrow>
     if c \<noteq> Some CHR ''='' then
       fail p3 FACET_CONFIG_DIAGNOSTIC_SYNTAX ''inline table'' (''expected '='' @ [APOS])
     else
     bindE (parser_alloc (skip_space_and_comments False p3) ''allocation'') (\<lambda>p4. Inr (key, p4))))"

definition table_next :: "Parser \<Rightarrow> (bool \<times> Parser) cfg" where
  "table_next p =
     (let p7 = skip_space_and_comments False p in
      if current p7 = Some CHR ''}'' then Inr (True, advance p7)
      else case take_char p7 of (c, p8) \<Rightarrow>
        if c \<noteq> Some CHR '','' then
          fail p8 FACET_CONFIG_DIAGNOSTIC_SYNTAX ''inline table'' (''expected ',' or '}'' @ [APOS])
        else Inr (False, skip_space_and_comments False p8))"

definition parse_scalar :: "Parser \<Rightarrow> (ValueAs \<times> Parser) cfg" where
  "parse_scalar p =
     (if List.take 4 (p_rest p) = ''true'' then Inr (VALUE_BOOL True, advance_by 4 p)
      else if List.take 5 (p_rest p) = ''false'' then Inr (VALUE_BOOL False, advance_by 5 p)
      else bindE (parse_integer p) (\<lambda>(n, p'). Inr (VALUE_INTEGER n, p')))"

definition too_deep :: "Parser \<Rightarrow> 'a cfg" where
  "too_deep p = fail p FACET_CONFIG_DIAGNOSTIC_LIMIT ''value'' ''nesting exceeds configured limit''"

text \<open>
  The opening bracket of an array or inline table and the blanks behind it
  (\<open>True\<close> when it is closed at once).
\<close>

definition array_open :: "Parser \<Rightarrow> bool \<times> Parser" where
  "array_open p =
     (let p1 = skip_space_and_comments True (advance p) in
      if current p1 = Some CHR '']'' then (True, advance p1) else (False, p1))"

definition table_open :: "Parser \<Rightarrow> bool \<times> Parser" where
  "table_open p =
     (let p1 = skip_space_and_comments False (advance p) in
      if current p1 = Some CHR ''}'' then (True, advance p1) else (False, p1))"

text \<open>
  Arrays and inline tables nest: \<open>array_loop\<close> and \<open>table_loop\<close> are the
  loops of parse_array and parse_inline_table, which call parse_value for every
  element.  Every round consumes input, so a fuel of twice the remaining length
  suffices (ConfigParse proves it).
\<close>

fun parse_value :: "nat \<Rightarrow> Parser \<Rightarrow> nat \<Rightarrow> (Value \<times> Parser) cfg"
and array_loop :: "nat \<Rightarrow> Parser \<Rightarrow> nat \<Rightarrow> Value list \<Rightarrow> (Value list \<times> Parser) cfg"
and table_loop :: "nat \<Rightarrow> Parser \<Rightarrow> nat \<Rightarrow> ValueEntry list \<Rightarrow> (ValueEntry list \<times> Parser) cfg" where
  "parse_value 0 p depth = Inl OutOfFuel"
| "parse_value (Suc fuel) p depth =
     (if depth > FACET_CONFIG_MAX_DEPTH then too_deep p
      else if current p = Some QUOTE \<or> current p = Some APOS then
        bindE (parse_quoted_string p) (\<lambda>(s, p'). Inr (Value (p_line p) (p_column p) (VALUE_STRING s), p'))
      else if current p = Some CHR ''['' then
        bindE (case array_open p of (closed, p1) \<Rightarrow>
                 if closed then Inr ([], p1) else array_loop fuel p1 depth [])
          (\<lambda>(items, p'). Inr (Value (p_line p) (p_column p) (VALUE_ARRAY items), p'))
      else if current p = Some CHR ''{'' then
        bindE (case table_open p of (closed, p1) \<Rightarrow>
                 if closed then Inr ([], p1) else table_loop fuel p1 depth [])
          (\<lambda>(entries, p'). Inr (Value (p_line p) (p_column p) (VALUE_TABLE entries), p'))
      else bindE (parse_scalar p) (\<lambda>(v, p'). Inr (Value (p_line p) (p_column p) v, p')))"
| "array_loop 0 p depth items = Inl OutOfFuel"
| "array_loop (Suc fuel) p depth items =
     bindE (parse_value fuel p (depth + 1)) (\<lambda>(item, p1).
     bindE (array_append p1 items item) (\<lambda>(items', p2).
     bindE (array_next p2) (\<lambda>(closed, p3).
     if closed then Inr (items', p3) else array_loop fuel p3 depth items')))"
| "table_loop 0 p depth entries = Inl OutOfFuel"
| "table_loop (Suc fuel) p depth entries =
     bindE (table_key p) (\<lambda>(key, p1).
     bindE (parse_value fuel p1 (depth + 1)) (\<lambda>(v, p2).
     bindE (table_append p2 entries (ValueEntry key (p_line p) (p_column p) v)) (\<lambda>(entries', p3).
     bindE (table_next p3) (\<lambda>(closed, p4).
     if closed then Inr (entries', p4) else table_loop fuel p4 depth entries'))))"

declare parse_value.simps [simp del] array_loop.simps [simp del] table_loop.simps [simp del]

end
