(* ===== verification/ConfigSchema.thy ===== *)
theory ConfigSchema
  imports ConfigModel
begin

text \<open>
  The schema half of src/config.c: table headers, the conversion of parsed values
  into configuration fields, the validation of the finished configuration, and
  facet_config_parse itself.
\<close>

section \<open>Table headers\<close>

definition grow_array :: "Parser \<Rightarrow> 'a list \<Rightarrow> 'a \<Rightarrow> ('a list \<times> Parser) cfg" where
  "grow_array p xs zero =
     (if length xs \<ge> FACET_CONFIG_MAX_ARRAY_ELEMENTS
      then fail p FACET_CONFIG_DIAGNOSTIC_LIMIT ''configuration'' ''configuration array exceeds limit''
      else bindE (parser_alloc p ''allocation'') (\<lambda>p'. Inr (xs @ [zero], p')))"

text \<open>The dispatch on the table name, after the header has been read and counted.\<close>

definition enter_section :: "bool \<Rightarrow> string \<Rightarrow> nat \<Rightarrow> nat \<Rightarrow> Parser \<Rightarrow> Parser cfg" where
  "enter_section array name line column p =
     (let c = p_config p in
      if \<not> array \<and> name = ''facet'' then
        if p_facet_seen p
        then fail_at FACET_CONFIG_DIAGNOSTIC_DUPLICATE line column ''facet'' ''duplicate [facet] table''
        else Inr (p\<lparr>p_facet_seen := True, p_section := SECTION_FACET\<rparr>)
      else if array \<and> name = ''logging_sinks'' then
        bindE (grow_array p (sc_logging_sinks c) zero_sink) (\<lambda>(xs, p').
          Inr (p'\<lparr>p_config := c\<lparr>sc_logging_sinks := xs\<rparr>, p_section := SECTION_LOGGING_SINK,
                  p_section_index := length (sc_logging_sinks c)\<rparr>))
      else if array \<and> name = ''authentication_sources'' then
        bindE (grow_array p (sc_authentication_sources c) zero_source) (\<lambda>(xs, p').
          Inr (p'\<lparr>p_config := c\<lparr>sc_authentication_sources := xs\<rparr>,
                  p_section := SECTION_AUTHENTICATION_SOURCE,
                  p_section_index := length (sc_authentication_sources c)\<rparr>))
      else if array \<and> name = ''users'' then
        bindE (grow_array p (sc_users c) zero_user) (\<lambda>(xs, p').
          Inr (p'\<lparr>p_config := c\<lparr>sc_users := xs\<rparr>, p_section := SECTION_USER,
                  p_section_index := length (sc_users c)\<rparr>))
      else if array \<and> name = ''seats'' then
        bindE (grow_array p (sc_seats c) zero_seat) (\<lambda>(xs, p').
          Inr (p'\<lparr>p_config := c\<lparr>sc_seats := xs\<rparr>, p_section := SECTION_SEAT,
                  p_section_index := length (sc_seats c)\<rparr>))
      else if array \<and> name = ''domains'' then
        bindE (grow_array p (sc_domains c) zero_domain) (\<lambda>(xs, p').
          Inr (p'\<lparr>p_config := c\<lparr>sc_domains := xs\<rparr>, p_section := SECTION_DOMAIN,
                  p_section_index := length (sc_domains c)\<rparr>))
      else fail_at FACET_CONFIG_DIAGNOSTIC_SCHEMA line column name ''unknown configuration table'')"

definition close_header :: "bool \<Rightarrow> Parser \<Rightarrow> bool \<times> Parser" where
  "close_header array p =
     (case take_char p of (c, p') \<Rightarrow>
        if c \<noteq> Some CHR '']'' then (False, p')
        else if \<not> array then (True, p')
        else case take_char p' of (c', p'') \<Rightarrow> (c' = Some CHR '']'', p''))"

definition parse_header :: "Parser \<Rightarrow> Parser cfg" where
  "parse_header p =
     (let p1 = advance p;
          array = (current p1 = Some CHR ''['');
          p2 = skip_space_and_comments False (if array then advance p1 else p1);
          line = p_line p2; column = p_column p2 in
      bindE (parse_key p2) (\<lambda>(name, p3).
      case close_header array (skip_space_and_comments False p3) of (closed, p4) \<Rightarrow>
      if \<not> closed then
        fail_at FACET_CONFIG_DIAGNOSTIC_SYNTAX line column ''table'' ''malformed table header''
      else if \<not> p_facet_seen p4 \<and> (array \<or> name \<noteq> ''facet'') then
        fail_at FACET_CONFIG_DIAGNOSTIC_SCHEMA line column ''facet'' ''[facet] must be the first table''
      else bindE (consume_entry p4 line column name) (enter_section array name line column)))"

section \<open>Typed values\<close>

fun as_string :: "ValueAs \<Rightarrow> string option" where
  "as_string (VALUE_STRING s) = Some s"
| "as_string _ = None"

fun as_integer :: "ValueAs \<Rightarrow> int option" where
  "as_integer (VALUE_INTEGER n) = Some n"
| "as_integer _ = None"

fun as_bool :: "ValueAs \<Rightarrow> bool option" where
  "as_bool (VALUE_BOOL b) = Some b"
| "as_bool _ = None"

fun as_array :: "ValueAs \<Rightarrow> Value list option" where
  "as_array (VALUE_ARRAY xs) = Some xs"
| "as_array _ = None"

fun as_table :: "ValueAs \<Rightarrow> ValueEntry list option" where
  "as_table (VALUE_TABLE xs) = Some xs"
| "as_table _ = None"

text \<open>require_kind together with the access to the union member it allows.\<close>

definition require_kind :: "string \<Rightarrow> Value \<Rightarrow> (ValueAs \<Rightarrow> 'a option) \<Rightarrow> string \<Rightarrow> 'a cfg" where
  "require_kind key v member type_name =
     (case member (v_as v) of
        Some x \<Rightarrow> Inr x
      | None \<Rightarrow> fail_at FACET_CONFIG_DIAGNOSTIC_SCHEMA (v_line v) (v_column v) key
                 (''expected '' @ type_name))"

definition take_string :: "string \<Rightarrow> Value \<Rightarrow> string cfg" where
  "take_string key v = require_kind key v as_string ''string''"

definition log_levels :: "(string \<times> FacetConfigLogLevel) list" where
  "log_levels =
     [(''none'', FACET_CONFIG_LOG_NONE), (''fatal'', FACET_CONFIG_LOG_FATAL),
      (''error'', FACET_CONFIG_LOG_ERROR), (''warning'', FACET_CONFIG_LOG_WARNING),
      (''info'', FACET_CONFIG_LOG_INFO), (''debug'', FACET_CONFIG_LOG_DEBUG),
      (''trace'', FACET_CONFIG_LOG_TRACE)]"

definition parse_log_level :: "string \<Rightarrow> Value \<Rightarrow> FacetConfigLogLevel cfg" where
  "parse_log_level key v =
     bindE (require_kind key v as_string ''log-level string'') (\<lambda>s.
     case map_of log_levels s of
       Some level \<Rightarrow> Inr level
     | None \<Rightarrow> fail_at FACET_CONFIG_DIAGNOSTIC_SCHEMA (v_line v) (v_column v) key ''invalid log level'')"

definition strings_from_array :: "Parser \<Rightarrow> string \<Rightarrow> Value \<Rightarrow> (string list \<times> Parser) cfg" where
  "strings_from_array p key v =
     bindE (require_kind key v as_array ''array'') (\<lambda>items.
     bindE (foldE (\<lambda>item acc. bindE (require_kind key item as_string ''string array'')
                                 (\<lambda>s. Inr (acc @ [s]))) items []) (\<lambda>strings.
     bindE (if items = [] then Inr p else parser_alloc p key) (\<lambda>p'.
     Inr (strings, p'))))"

definition table_value :: "ValueEntry list \<Rightarrow> string \<Rightarrow> Value option" where
  "table_value entries wanted = map_option e_value (find (\<lambda>e. e_key e = wanted) entries)"

definition domain_sink_item ::
  "Value \<Rightarrow> FacetConfigDomainSink list \<times> Parser \<Rightarrow> (FacetConfigDomainSink list \<times> Parser) cfg" where
  "domain_sink_item item acc =
     (case acc of (sinks, p) \<Rightarrow>
      bindE (require_kind ''logging_sinks'' item as_table ''inline table'') (\<lambda>entries.
      case (table_value entries ''name'', table_value entries ''level'', length entries = 2) of
        (Some name, Some level, True) \<Rightarrow>
          bindE (require_kind ''name'' name as_string ''string'') (\<lambda>s.
          bindE (duplicate_bytes p s) (\<lambda>(copy, p').
          bindE (parse_log_level ''level'' level) (\<lambda>l.
          Inr (sinks @ [zero_domain_sink\<lparr>dk_name := Some copy, dk_level := l\<rparr>], p'))))
      | _ \<Rightarrow> fail_at FACET_CONFIG_DIAGNOSTIC_SCHEMA (v_line item) (v_column item) ''logging_sinks''
               ''sink use requires only name and level''))"

definition domain_sinks_from_array ::
  "Parser \<Rightarrow> Value \<Rightarrow> FacetConfigDomain \<Rightarrow> (FacetConfigDomain \<times> Parser) cfg" where
  "domain_sinks_from_array p v domain =
     bindE (require_kind ''logging_sinks'' v as_array ''array'') (\<lambda>items.
     bindE (if items = [] then Inr p else parser_alloc p ''logging_sinks'') (\<lambda>p1.
     bindE (foldE domain_sink_item items ([], p1)) (\<lambda>(sinks, p2).
     Inr (domain\<lparr>dm_logging_sinks := sinks\<rparr>, p2))))"

definition terminal_key_bit :: "string \<Rightarrow> u32 option" where
  "terminal_key_bit key =
     (if key = ''terminal'' then Some TERMINAL_REFERENCE
      else if key = ''initial_process'' then Some TERMINAL_INITIAL_PROCESS
      else if key = ''device'' then Some TERMINAL_DEVICE
      else if key = ''run_as'' then Some TERMINAL_RUN_AS
      else if key = ''view'' then Some TERMINAL_VIEW
      else None)"

definition set_terminal_string ::
  "u32 \<Rightarrow> string \<Rightarrow> FacetConfigTerminalAssignment \<Rightarrow> FacetConfigTerminalAssignment" where
  "set_terminal_string flag s a =
     (if flag = TERMINAL_REFERENCE then a\<lparr>ta_reference := Some s\<rparr>
      else if flag = TERMINAL_INITIAL_PROCESS then a\<lparr>ta_initial_process := Some s\<rparr>
      else if flag = TERMINAL_DEVICE then a\<lparr>ta_device_name := Some s\<rparr>
      else a\<lparr>ta_run_as := Some s\<rparr>)"

definition terminal_entry ::
  "ValueEntry \<Rightarrow> FacetConfigTerminalAssignment \<times> Parser \<Rightarrow> (FacetConfigTerminalAssignment \<times> Parser) cfg" where
  "terminal_entry e acc =
     (case acc of (a, p) \<Rightarrow>
      case terminal_key_bit (e_key e) of
        None \<Rightarrow> fail_at FACET_CONFIG_DIAGNOSTIC_SCHEMA (e_line e) (e_column e) (e_key e)
                 ''unknown terminal assignment key''
      | Some flag \<Rightarrow>
          if ta_present a AND flag \<noteq> 0
          then fail_at FACET_CONFIG_DIAGNOSTIC_DUPLICATE (e_line e) (e_column e) (e_key e)
                 ''duplicate terminal assignment key''
          else let a' = a\<lparr>ta_present := ta_present a OR flag\<rparr> in
          bindE (require_kind (e_key e) (e_value e) as_string ''string'') (\<lambda>s.
          if flag = TERMINAL_VIEW then
            if s = ''native'' then Inr (a'\<lparr>ta_view := FACET_CONFIG_TERMINAL_VIEW_NATIVE\<rparr>, p)
            else if s = ''posix'' then Inr (a'\<lparr>ta_view := FACET_CONFIG_TERMINAL_VIEW_POSIX\<rparr>, p)
            else fail_at FACET_CONFIG_DIAGNOSTIC_SCHEMA (v_line (e_value e)) (v_column (e_value e))
                   (e_key e) ''terminal view must be native or posix''
          else bindE (duplicate_bytes p s) (\<lambda>(copy, p'). Inr (set_terminal_string flag copy a', p'))))"

definition domain_terminal_item ::
  "Value \<Rightarrow> FacetConfigTerminalAssignment list \<times> Parser
   \<Rightarrow> (FacetConfigTerminalAssignment list \<times> Parser) cfg" where
  "domain_terminal_item item acc =
     (case acc of (assignments, p) \<Rightarrow>
      bindE (require_kind ''terminals'' item as_table ''inline table'') (\<lambda>entries.
      bindE (foldE terminal_entry entries (zero_assignment, p)) (\<lambda>(a, p').
      Inr (assignments @ [a], p'))))"

definition domain_terminals_from_array ::
  "Parser \<Rightarrow> Value \<Rightarrow> FacetConfigDomain \<Rightarrow> (FacetConfigDomain \<times> Parser) cfg" where
  "domain_terminals_from_array p v domain =
     bindE (require_kind ''terminals'' v as_array ''array'') (\<lambda>items.
     bindE (if items = [] then Inr p else parser_alloc p ''terminals'') (\<lambda>p1.
     bindE (foldE domain_terminal_item items ([], p1)) (\<lambda>(assignments, p2).
     Inr (domain\<lparr>dm_terminals := assignments\<rparr>, p2))))"

definition user_key_bit :: "string \<Rightarrow> u32 option" where
  "user_key_bit key =
     (if key = ''name'' then Some USER_NAME
      else if key = ''password_hash'' then Some USER_PASSWORD_HASH
      else if key = ''admin'' then Some USER_ADMIN
      else if key = ''native_shell'' then Some USER_NATIVE_SHELL
      else if key = ''posix_shell'' then Some USER_POSIX_SHELL
      else if key = ''home_path'' then Some USER_HOME_PATH
      else if key = ''uid'' then Some USER_UID
      else if key = ''gid'' then Some USER_GID
      else None)"

text \<open>The keys with a string destination, and the store through it.\<close>

definition user_string_bit :: "u32 \<Rightarrow> bool" where
  "user_string_bit flag \<longleftrightarrow> flag \<noteq> USER_ADMIN \<and> flag \<noteq> USER_UID \<and> flag \<noteq> USER_GID"

definition set_user_string :: "u32 \<Rightarrow> string \<Rightarrow> FacetConfigUser \<Rightarrow> FacetConfigUser" where
  "set_user_string flag s u =
     (if flag = USER_NAME then u\<lparr>us_name := Some s\<rparr>
      else if flag = USER_PASSWORD_HASH then u\<lparr>us_password_hash := Some s\<rparr>
      else if flag = USER_NATIVE_SHELL then u\<lparr>us_native_shell := Some s\<rparr>
      else if flag = USER_POSIX_SHELL then u\<lparr>us_posix_shell := Some s\<rparr>
      else u\<lparr>us_home_path := Some s\<rparr>)"

definition set_user_number :: "u32 \<Rightarrow> int \<Rightarrow> FacetConfigUser \<Rightarrow> FacetConfigUser" where
  "set_user_number flag n u =
     (if flag = USER_UID then u\<lparr>us_uid := of_int n\<rparr> else u\<lparr>us_gid := of_int n\<rparr>)"

abbreviation UINT32_MAX :: int where "UINT32_MAX \<equiv> 0xFFFFFFFF"

definition user_entry :: "ValueEntry \<Rightarrow> FacetConfigUser \<times> Parser \<Rightarrow> (FacetConfigUser \<times> Parser) cfg" where
  "user_entry e acc =
     (case acc of (u, p) \<Rightarrow>
      case user_key_bit (e_key e) of
        None \<Rightarrow> fail_at FACET_CONFIG_DIAGNOSTIC_SCHEMA (e_line e) (e_column e) (e_key e)
                 ''unknown user key''
      | Some flag \<Rightarrow>
          if us_present u AND flag \<noteq> 0
          then fail_at FACET_CONFIG_DIAGNOSTIC_DUPLICATE (e_line e) (e_column e) (e_key e)
                 ''duplicate user key''
          else let u' = u\<lparr>us_present := us_present u OR flag\<rparr> in
          if user_string_bit flag then
            bindE (require_kind (e_key e) (e_value e) as_string ''string'') (\<lambda>s.
            bindE (duplicate_bytes p s) (\<lambda>(copy, p'). Inr (set_user_string flag copy u', p')))
          else if flag = USER_ADMIN then
            bindE (require_kind (e_key e) (e_value e) as_bool ''boolean'') (\<lambda>b.
            Inr (u'\<lparr>us_admin := b\<rparr>, p))
          else
            bindE (require_kind (e_key e) (e_value e) as_integer ''non-negative integer'') (\<lambda>n.
            if n < 0 \<or> n > UINT32_MAX
            then fail_at FACET_CONFIG_DIAGNOSTIC_SCHEMA (e_line e) (e_column e) (e_key e)
                   ''uid and gid must fit in u32''
            else Inr (set_user_number flag n u', p)))"

definition user_from_table :: "Value \<Rightarrow> Parser \<Rightarrow> (FacetConfigUser \<times> Parser) cfg" where
  "user_from_table v p =
     bindE (require_kind ''users'' v as_table ''inline table'') (\<lambda>entries.
     foldE user_entry entries (zero_user, p))"

definition domain_users_from_array ::
  "Parser \<Rightarrow> Value \<Rightarrow> FacetConfigDomain \<Rightarrow> (FacetConfigDomain \<times> Parser) cfg" where
  "domain_users_from_array p v domain =
     bindE (require_kind ''users'' v as_array ''array'') (\<lambda>items.
     bindE (if items = [] then Inr p else parser_alloc p ''users'') (\<lambda>p1.
     bindE (foldE (\<lambda>item (users, p). bindE (user_from_table item p) (\<lambda>(u, p'). Inr (users @ [u], p')))
              items ([], p1)) (\<lambda>(users, p2).
     Inr (domain\<lparr>dm_users := users\<rparr>, p2))))"

section \<open>Assignments\<close>

text \<open>
  apply_value by section.  The element under construction is
  \<open>xs ! section_index\<close> and is replaced by its updated copy.
\<close>

definition apply_facet :: "string \<Rightarrow> Value \<Rightarrow> nat \<Rightarrow> nat \<Rightarrow> Parser \<Rightarrow> Parser cfg" where
  "apply_facet key v line column p =
     (let c = p_config p in
      if key = ''seat_initrd'' then
        if sc_seat_initrd c \<noteq> None
        then fail_at FACET_CONFIG_DIAGNOSTIC_DUPLICATE line column key ''duplicate seat_initrd''
        else bindE (take_string key v) (\<lambda>s. Inr (p\<lparr>p_config := c\<lparr>sc_seat_initrd := Some s\<rparr>\<rparr>))
      else if key \<noteq> ''version''
      then fail_at FACET_CONFIG_DIAGNOSTIC_SCHEMA line column key ''unknown [facet] key''
      else if sc_version c \<noteq> 0
      then fail_at FACET_CONFIG_DIAGNOSTIC_DUPLICATE line column key ''duplicate version''
      else bindE (require_kind key v as_integer ''integer'') (\<lambda>n.
        if n \<noteq> 1
        then fail_at FACET_CONFIG_DIAGNOSTIC_UNSUPPORTED_VERSION (v_line v) (v_column v) key
               ''unsupported configuration version''
        else Inr (p\<lparr>p_config := c\<lparr>sc_version := 1\<rparr>\<rparr>)))"

definition sink_key_bit :: "string \<Rightarrow> u32 option" where
  "sink_key_bit key =
     (if key = ''name'' then Some SINK_NAME else if key = ''type'' then Some SINK_TYPE
      else if key = ''required'' then Some SINK_REQUIRED else None)"

definition apply_sink ::
  "string \<Rightarrow> Value \<Rightarrow> nat \<Rightarrow> nat \<Rightarrow> FacetConfigLoggingSinkDefinition
   \<Rightarrow> FacetConfigLoggingSinkDefinition cfg" where
  "apply_sink key v line column sink =
     (case sink_key_bit key of
        None \<Rightarrow> fail_at FACET_CONFIG_DIAGNOSTIC_SCHEMA line column key ''unknown logging sink key''
      | Some flag \<Rightarrow>
          if ls_present sink AND flag \<noteq> 0
          then fail_at FACET_CONFIG_DIAGNOSTIC_DUPLICATE line column key ''duplicate logging sink key''
          else let sink' = sink\<lparr>ls_present := ls_present sink OR flag\<rparr> in
          if flag = SINK_NAME then bindE (take_string key v) (\<lambda>s. Inr (sink'\<lparr>ls_name := Some s\<rparr>))
          else if flag = SINK_TYPE then bindE (take_string key v) (\<lambda>s. Inr (sink'\<lparr>ls_type := Some s\<rparr>))
          else bindE (require_kind key v as_bool ''boolean'') (\<lambda>b. Inr (sink'\<lparr>ls_required := b\<rparr>)))"

definition source_key_bit :: "string \<Rightarrow> u32 option" where
  "source_key_bit key =
     (if key = ''name'' then Some AUTH_NAME
      else if key = ''provider_domain'' then Some AUTH_PROVIDER_DOMAIN
      else if key = ''type'' then Some AUTH_TYPE
      else if key = ''required'' then Some AUTH_REQUIRED else None)"

definition apply_source ::
  "string \<Rightarrow> Value \<Rightarrow> nat \<Rightarrow> nat \<Rightarrow> FacetConfigAuthenticationSource
   \<Rightarrow> FacetConfigAuthenticationSource cfg" where
  "apply_source key v line column source =
     (case source_key_bit key of
        None \<Rightarrow> fail_at FACET_CONFIG_DIAGNOSTIC_SCHEMA line column key ''unknown authentication source key''
      | Some flag \<Rightarrow>
          if au_present source AND flag \<noteq> 0
          then fail_at FACET_CONFIG_DIAGNOSTIC_DUPLICATE line column key
                 ''duplicate authentication source key''
          else let source' = source\<lparr>au_present := au_present source OR flag\<rparr> in
          if flag = AUTH_NAME then bindE (take_string key v) (\<lambda>s. Inr (source'\<lparr>au_name := Some s\<rparr>))
          else if flag = AUTH_TYPE then
            bindE (take_string key v) (\<lambda>s.
              if s \<noteq> ''local''
              then fail_at FACET_CONFIG_DIAGNOSTIC_SCHEMA line column key
                     ''authentication source type must be local''
              else Inr (source'\<lparr>au_type := Some s\<rparr>))
          else if flag = AUTH_REQUIRED then
            bindE (require_kind key v as_bool ''boolean'') (\<lambda>b. Inr (source'\<lparr>au_required := b\<rparr>))
          else bindE (require_kind key v as_integer ''non-negative integer'') (\<lambda>n.
            if n < 0
            then fail_at FACET_CONFIG_DIAGNOSTIC_SCHEMA (v_line v) (v_column v) key
                   ''provider domain must be non-negative''
            else Inr (source'\<lparr>au_provider_domain_id := nat n\<rparr>)))"

definition apply_user ::
  "string \<Rightarrow> Value \<Rightarrow> nat \<Rightarrow> nat \<Rightarrow> FacetConfigUser \<Rightarrow> FacetConfigUser cfg" where
  "apply_user key v line column u =
     (case user_key_bit key of
        None \<Rightarrow> fail_at FACET_CONFIG_DIAGNOSTIC_SCHEMA line column key ''unknown user key''
      | Some flag \<Rightarrow>
          if us_present u AND flag \<noteq> 0
          then fail_at FACET_CONFIG_DIAGNOSTIC_DUPLICATE line column key ''duplicate user key''
          else let u' = u\<lparr>us_present := us_present u OR flag\<rparr> in
          if user_string_bit flag then bindE (take_string key v) (\<lambda>s. Inr (set_user_string flag s u'))
          else if flag = USER_ADMIN then
            bindE (require_kind key v as_bool ''boolean'') (\<lambda>b. Inr (u'\<lparr>us_admin := b\<rparr>))
          else bindE (require_kind key v as_integer ''non-negative integer'') (\<lambda>n.
            if n < 0 \<or> n > UINT32_MAX
            then fail_at FACET_CONFIG_DIAGNOSTIC_SCHEMA (v_line v) (v_column v) key
                   ''uid and gid must fit in u32''
            else Inr (set_user_number flag n u')))"

definition seat_key_bit :: "string \<Rightarrow> u32 option" where
  "seat_key_bit key =
     (if key = ''name'' then Some SEAT_NAME else if key = ''type'' then Some SEAT_TYPE
      else if key = ''server'' then Some SEAT_SERVER
      else if key = ''terminals'' then Some SEAT_TERMINALS else None)"

definition apply_seat ::
  "string \<Rightarrow> Value \<Rightarrow> nat \<Rightarrow> nat \<Rightarrow> FacetConfigSeatDefinition \<Rightarrow> Parser
   \<Rightarrow> (FacetConfigSeatDefinition \<times> Parser) cfg" where
  "apply_seat key v line column seat p =
     (case seat_key_bit key of
        None \<Rightarrow> fail_at FACET_CONFIG_DIAGNOSTIC_SCHEMA line column key ''unknown seat key''
      | Some flag \<Rightarrow>
          if st_present seat AND flag \<noteq> 0
          then fail_at FACET_CONFIG_DIAGNOSTIC_DUPLICATE line column key ''duplicate seat key''
          else let seat' = seat\<lparr>st_present := st_present seat OR flag\<rparr> in
          if flag = SEAT_NAME then bindE (take_string key v) (\<lambda>s. Inr (seat'\<lparr>st_name := Some s\<rparr>, p))
          else if flag = SEAT_SERVER then bindE (take_string key v) (\<lambda>s. Inr (seat'\<lparr>st_server := Some s\<rparr>, p))
          else if flag = SEAT_TERMINALS then
            bindE (strings_from_array p key v) (\<lambda>(ts, p'). Inr (seat'\<lparr>st_terminals := ts\<rparr>, p'))
          else bindE (require_kind key v as_string ''string'') (\<lambda>s.
            if s = ''serial'' then Inr (seat'\<lparr>st_type := FACET_CONFIG_SEAT_SERIAL\<rparr>, p)
            else if s = ''local'' then Inr (seat'\<lparr>st_type := FACET_CONFIG_SEAT_LOCAL\<rparr>, p)
            else fail_at FACET_CONFIG_DIAGNOSTIC_SCHEMA (v_line v) (v_column v) key
                   ''seat type must be serial or local''))"

definition domain_key_bit :: "string \<Rightarrow> u32 option" where
  "domain_key_bit key =
     (if key = ''id'' then Some DOMAIN_ID else if key = ''name'' then Some DOMAIN_NAME
      else if key = ''personality'' then Some DOMAIN_PERSONALITY
      else if key = ''domain_manager'' then Some DOMAIN_MANAGER
      else if key = ''logging_sinks'' then Some DOMAIN_SINKS
      else if key = ''terminals'' then Some DOMAIN_TERMINALS
      else if key = ''authentication_source'' then Some DOMAIN_AUTHENTICATION_SOURCE
      else if key = ''pid1'' then Some DOMAIN_PID1 else if key = ''initrd'' then Some DOMAIN_INITRD
      else if key = ''users'' then Some DOMAIN_USERS else None)"

definition domain_enum ::
  "string \<Rightarrow> Value \<Rightarrow> u32 \<Rightarrow> FacetConfigDomain \<Rightarrow> FacetConfigDomain cfg" where
  "domain_enum key v flag d =
     bindE (require_kind key v as_string ''string'') (\<lambda>s.
     if flag = DOMAIN_PERSONALITY then
       if s = ''native'' then Inr (d\<lparr>dm_personality := FACET_CONFIG_PERSONALITY_NATIVE\<rparr>)
       else if s = ''posix'' then Inr (d\<lparr>dm_personality := FACET_CONFIG_PERSONALITY_POSIX\<rparr>)
       else if s = ''vm'' then Inr (d\<lparr>dm_personality := FACET_CONFIG_PERSONALITY_VM\<rparr>)
       else fail_at FACET_CONFIG_DIAGNOSTIC_SCHEMA (v_line v) (v_column v) key ''invalid domain personality''
     else
       if s = ''none'' then Inr (d\<lparr>dm_domain_manager := FACET_CONFIG_DOMAIN_MANAGER_NONE\<rparr>)
       else if s = ''local'' then Inr (d\<lparr>dm_domain_manager := FACET_CONFIG_DOMAIN_MANAGER_LOCAL\<rparr>)
       else if s = ''parent'' then Inr (d\<lparr>dm_domain_manager := FACET_CONFIG_DOMAIN_MANAGER_PARENT\<rparr>)
       else fail_at FACET_CONFIG_DIAGNOSTIC_SCHEMA (v_line v) (v_column v) key ''invalid domain manager mode'')"

definition apply_domain ::
  "string \<Rightarrow> Value \<Rightarrow> nat \<Rightarrow> nat \<Rightarrow> FacetConfigDomain \<Rightarrow> Parser \<Rightarrow> (FacetConfigDomain \<times> Parser) cfg" where
  "apply_domain key v line column domain p =
     (case domain_key_bit key of
        None \<Rightarrow> fail_at FACET_CONFIG_DIAGNOSTIC_SCHEMA line column key ''unknown domain key''
      | Some flag \<Rightarrow>
          if dm_present domain AND flag \<noteq> 0
          then fail_at FACET_CONFIG_DIAGNOSTIC_DUPLICATE line column key ''duplicate domain key''
          else let d = domain\<lparr>dm_present := dm_present domain OR flag\<rparr> in
          if flag = DOMAIN_NAME then bindE (take_string key v) (\<lambda>s. Inr (d\<lparr>dm_name := Some s\<rparr>, p))
          else if flag = DOMAIN_SINKS then domain_sinks_from_array p v d
          else if flag = DOMAIN_TERMINALS then domain_terminals_from_array p v d
          else if flag = DOMAIN_USERS then domain_users_from_array p v d
          else if flag = DOMAIN_AUTHENTICATION_SOURCE then
            bindE (take_string key v) (\<lambda>s. Inr (d\<lparr>dm_authentication_source := Some s\<rparr>, p))
          else if flag = DOMAIN_PID1 then bindE (take_string key v) (\<lambda>s. Inr (d\<lparr>dm_pid1 := Some s\<rparr>, p))
          else if flag = DOMAIN_INITRD then bindE (take_string key v) (\<lambda>s. Inr (d\<lparr>dm_initrd := Some s\<rparr>, p))
          else if flag = DOMAIN_ID then
            bindE (require_kind key v as_integer ''non-negative integer'') (\<lambda>n.
            if n < 0
            then fail_at FACET_CONFIG_DIAGNOSTIC_SCHEMA (v_line v) (v_column v) key
                   ''domain id must be non-negative''
            else Inr (d\<lparr>dm_id := nat n\<rparr>, p))
          else bindE (domain_enum key v flag d) (\<lambda>d'. Inr (d', p)))"

definition apply_section :: "string \<Rightarrow> Value \<Rightarrow> nat \<Rightarrow> nat \<Rightarrow> Parser \<Rightarrow> Parser cfg" where
  "apply_section key v line column p =
     (let c = p_config p; i = p_section_index p in
     case p_section p of
       SECTION_FACET \<Rightarrow> apply_facet key v line column p
     | SECTION_LOGGING_SINK \<Rightarrow>
         bindE (apply_sink key v line column (sc_logging_sinks c ! i)) (\<lambda>x.
         Inr (p\<lparr>p_config := c\<lparr>sc_logging_sinks := (sc_logging_sinks c)[i := x]\<rparr>\<rparr>))
     | SECTION_AUTHENTICATION_SOURCE \<Rightarrow>
         bindE (apply_source key v line column (sc_authentication_sources c ! i)) (\<lambda>x.
         Inr (p\<lparr>p_config := c\<lparr>sc_authentication_sources := (sc_authentication_sources c)[i := x]\<rparr>\<rparr>))
     | SECTION_USER \<Rightarrow>
         bindE (apply_user key v line column (sc_users c ! i)) (\<lambda>x.
         Inr (p\<lparr>p_config := c\<lparr>sc_users := (sc_users c)[i := x]\<rparr>\<rparr>))
     | SECTION_SEAT \<Rightarrow>
         bindE (apply_seat key v line column (sc_seats c ! i) p) (\<lambda>(x, p').
         Inr (p'\<lparr>p_config := c\<lparr>sc_seats := (sc_seats c)[i := x]\<rparr>\<rparr>))
     | SECTION_DOMAIN \<Rightarrow>
         bindE (apply_domain key v line column (sc_domains c ! i) p) (\<lambda>(x, p').
         Inr (p'\<lparr>p_config := c\<lparr>sc_domains := (sc_domains c)[i := x]\<rparr>\<rparr>))
     | SECTION_NONE \<Rightarrow>
         fail_at FACET_CONFIG_DIAGNOSTIC_SCHEMA line column key
           ''assignment appears before a table header'')"

definition apply_value :: "Parser \<Rightarrow> string \<Rightarrow> Value \<Rightarrow> nat \<Rightarrow> nat \<Rightarrow> Parser cfg" where
  "apply_value p key v line column =
     bindE (consume_entry p line column key) (apply_section key v line column)"

section \<open>Validation\<close>

text \<open>Reading a string field; C leaves the NULL case undefined.\<close>

definition deref :: "string option \<Rightarrow> string cfg" where
  "deref s = (case s of None \<Rightarrow> Inl NullDeref | Some x \<Rightarrow> Inr x)"

definition strcmp_eq :: "string option \<Rightarrow> string option \<Rightarrow> bool cfg" where
  "strcmp_eq a b = bindE (deref a) (\<lambda>x. bindE (deref b) (\<lambda>y. Inr (x = y)))"

text \<open>
  The recurring inner loop \<open>for (j = 0; j < i; j++) if (strcmp(...) == 0) return
  fail_at(...)\<close> over the fields of earlier elements.
\<close>

definition reject_equal :: "unit cfg \<Rightarrow> string option \<Rightarrow> string option list \<Rightarrow> unit cfg" where
  "reject_equal failure s others =
     checkE (\<lambda>t. bindE (strcmp_eq s t) (\<lambda>same.
       if same then failure else Inr ())) others"

definition schema_error :: "string \<Rightarrow> string \<Rightarrow> 'a cfg" where
  "schema_error context message = fail_at FACET_CONFIG_DIAGNOSTIC_SCHEMA 0 0 context message"

definition duplicate_error :: "string option \<Rightarrow> string \<Rightarrow> 'a cfg" where
  "duplicate_error context message =
     bindE (deref context) (\<lambda>c. fail_at FACET_CONFIG_DIAGNOSTIC_DUPLICATE 0 0 c message)"

definition unresolved_error :: "string option \<Rightarrow> string \<Rightarrow> 'a cfg" where
  "unresolved_error context message =
     bindE (deref context) (\<lambda>c. fail_at FACET_CONFIG_DIAGNOSTIC_UNRESOLVED_REFERENCE 0 0 c message)"

definition valid_password_hash :: "string option \<Rightarrow> bool" where
  "valid_password_hash text =
     (case text of
        None \<Rightarrow> False
      | Some t \<Rightarrow>
          List.take 3 t = ''$5$'' \<and>
          (let salt = takeWhile ((\<noteq>) CHR ''$'') (drop 3 t);
               digest = dropWhile ((\<noteq>) CHR ''$'') (drop 3 t)
           in digest \<noteq> [] \<and> salt \<noteq> [] \<and> length digest > 1))"

definition absolute :: "string \<Rightarrow> bool" where
  "absolute s \<longleftrightarrow> s \<noteq> [] \<and> hd s = CHR ''/''"

lemma pred_option_code [code]: "pred_option P None = True" "pred_option P (Some x) = P x"
  by simp_all

definition validate_user :: "FacetConfigUser \<Rightarrow> string \<Rightarrow> unit cfg" where
  "validate_user u context =
     (let required = USER_NAME OR USER_PASSWORD_HASH OR USER_ADMIN OR USER_UID OR USER_GID OR USER_HOME_PATH in
      if us_present u AND required \<noteq> required \<or> us_name u = None \<or> us_password_hash u = None \<or>
         us_name u = Some [] \<or> \<not> valid_password_hash (us_password_hash u)
      then schema_error context
        ''user requires name, supported crypt password_hash, admin, uid, gid, and home_path''
      else bindE (deref (us_home_path u)) (\<lambda>home.
        if \<not> absolute home then schema_error (the (us_name u)) ''home_path must be absolute''
        else if \<not> pred_option absolute (us_native_shell u) \<or> \<not> pred_option absolute (us_posix_shell u)
        then schema_error (the (us_name u)) ''shell paths must be absolute''
        else Inr ()))"

text \<open>Searches of a name in an array of names.\<close>

fun find_strcmp :: "string option \<Rightarrow> string option list \<Rightarrow> nat option cfg" where
  "find_strcmp s [] = Inr None"
| "find_strcmp s (t # ts) =
     bindE (strcmp_eq s t) (\<lambda>same.
       if same then Inr (Some 0) else bindE (find_strcmp s ts) (\<lambda>r. Inr (map_option Suc r)))"

definition any_strcmp :: "string option \<Rightarrow> string option list \<Rightarrow> bool cfg" where
  "any_strcmp s ts =
     foldE (\<lambda>t found. bindE (strcmp_eq s t) (\<lambda>same. Inr (found \<or> same))) ts False"

definition check_sink ::
  "FacetConfigLoggingSinkDefinition list \<Rightarrow> FacetConfigLoggingSinkDefinition
   \<Rightarrow> FacetConfigLoggingSinkDefinition cfg" where
  "check_sink prev sink =
     (let required = SINK_NAME OR SINK_TYPE OR SINK_REQUIRED in
      if ls_present sink AND required \<noteq> required
      then schema_error ''logging_sinks'' ''sink requires name, type, and required''
      else
      bindE (deref (ls_name sink)) (\<lambda>name.
      bindE (if name = [] then Inr [] else deref (ls_type sink)) (\<lambda>type.
      if name = [] \<or> type = []
      then schema_error ''logging_sinks'' ''sink name and type must not be empty''
      else
      bindE (reject_equal (duplicate_error (ls_name sink) ''duplicate logging sink name'')
               (ls_name sink) (map ls_name prev)) (\<lambda>_.
      Inr sink))))"

definition check_seat_terminal :: "string \<Rightarrow> string list \<Rightarrow> string \<Rightarrow> string cfg" where
  "check_seat_terminal seat_name prev t =
     (if t = [] \<or> CHR ''.'' \<in> set t
      then schema_error seat_name ''terminal name must be nonempty and contain no dot''
      else if t \<in> set prev
      then fail_at FACET_CONFIG_DIAGNOSTIC_DUPLICATE 0 0 t ''duplicate terminal in seat''
      else Inr t)"

definition check_seat ::
  "FacetConfigSeatDefinition list \<Rightarrow> FacetConfigSeatDefinition \<Rightarrow> FacetConfigSeatDefinition cfg" where
  "check_seat prev seat =
     (let required = SEAT_NAME OR SEAT_TYPE OR SEAT_SERVER OR SEAT_TERMINALS in
      if st_present seat AND required \<noteq> required
      then schema_error ''seats'' ''seat requires name, type, server, and terminals''
      else
      bindE (deref (st_name seat)) (\<lambda>name.
      bindE (if name = [] then Inr [] else deref (st_server seat)) (\<lambda>server.
      if name = [] \<or> \<not> absolute server \<or> CHR ''.'' \<in> set name
      then schema_error ''seats''
             ''seat name must contain no dot and server must be an absolute path''
      else
      bindE (reject_equal (duplicate_error (st_name seat) ''duplicate seat name'')
               (st_name seat) (map st_name prev)) (\<lambda>_.
      bindE (scanE (check_seat_terminal name) (st_terminals seat)) (\<lambda>_.
      Inr seat)))))"

definition check_source ::
  "FacetConfigAuthenticationSource list \<Rightarrow> FacetConfigAuthenticationSource
   \<Rightarrow> FacetConfigAuthenticationSource cfg" where
  "check_source prev source =
     (let required = AUTH_NAME OR AUTH_PROVIDER_DOMAIN OR AUTH_TYPE OR AUTH_REQUIRED in
      if au_present source AND required \<noteq> required
      then schema_error ''authentication_sources''
             ''source requires name, provider_domain, type, and required''
      else
      bindE (deref (au_name source)) (\<lambda>name.
      bindE (if name = [] then Inr [] else deref (au_type source)) (\<lambda>type.
      if name = [] \<or> type = []
      then schema_error ''authentication_sources'' ''source name and type must not be empty''
      else
      bindE (reject_equal (duplicate_error (au_name source) ''duplicate authentication source name'')
               (au_name source) (map au_name prev)) (\<lambda>_.
      Inr source))))"

definition root_password_hash :: string where
  "root_password_hash = ''$5$facet$j7FgoXidvJl10CTaW0nguGP3ZnvKnqS3/IHmDVliPQ9''"

definition check_global_user ::
  "FacetConfigUser \<Rightarrow> FacetConfigUser list \<times> bool \<Rightarrow> (FacetConfigUser list \<times> bool) cfg" where
  "check_global_user u acc =
     (case acc of (prev, root_found) \<Rightarrow>
      bindE (validate_user u ''users'') (\<lambda>_.
      bindE (reject_equal (duplicate_error (us_name u) ''duplicate global user'')
               (us_name u) (map us_name prev)) (\<lambda>_.
      bindE (deref (us_name u)) (\<lambda>name.
      if name = ''root'' then
        if \<not> us_admin u \<or> us_uid u \<noteq> 0 \<or> us_gid u \<noteq> 0 \<or>
           us_password_hash u \<noteq> Some root_password_hash
        then schema_error ''root''
               ''root must be uid/gid 0, admin, with the required development password hash''
        else Inr (prev @ [u], True)
      else Inr (prev @ [u], root_found)))))"

definition check_domain_user ::
  "FacetSystemConfig \<Rightarrow> string \<Rightarrow> FacetConfigUser list \<Rightarrow> FacetConfigUser \<Rightarrow> FacetConfigUser cfg" where
  "check_domain_user c domain_name prev u =
     bindE (validate_user u domain_name) (\<lambda>_.
     bindE (reject_equal (duplicate_error (us_name u) ''domain user duplicates global user'')
              (us_name u) (map us_name (sc_users c))) (\<lambda>_.
     bindE (reject_equal (duplicate_error (us_name u) ''duplicate domain user'')
              (us_name u) (map us_name prev)) (\<lambda>_.
     Inr u)))"

definition check_domain_identity :: "FacetConfigDomain \<Rightarrow> FacetConfigDomain \<Rightarrow> unit cfg" where
  "check_domain_identity domain other =
     (if dm_id domain = dm_id other
      then duplicate_error (dm_name domain) ''duplicate domain id''
      else bindE (strcmp_eq (dm_name domain) (dm_name other)) (\<lambda>same.
        if same then duplicate_error (dm_name domain) ''duplicate domain name'' else Inr ()))"

definition resolve_sink_use ::
  "FacetSystemConfig \<Rightarrow> FacetConfigDomainSink list \<Rightarrow> FacetConfigDomainSink \<Rightarrow> FacetConfigDomainSink cfg" where
  "resolve_sink_use c prev sink_use =
     bindE (find_strcmp (dk_name sink_use) (map ls_name (sc_logging_sinks c))) (\<lambda>found.
     case found of
       None \<Rightarrow> unresolved_error (dk_name sink_use) ''unknown logging sink''
     | Some k \<Rightarrow>
         bindE (reject_equal (duplicate_error (dk_name sink_use) ''domain references a logging sink twice'')
                  (dk_name sink_use) (map dk_name prev)) (\<lambda>_.
         Inr (sink_use\<lparr>dk_sink_definition_index := k\<rparr>)))"

definition expected_terminal_bits :: "FacetConfigPersonality \<Rightarrow> u32" where
  "expected_terminal_bits personality =
     (if personality = FACET_CONFIG_PERSONALITY_NATIVE
      then TERMINAL_REFERENCE OR TERMINAL_VIEW OR TERMINAL_INITIAL_PROCESS
      else TERMINAL_REFERENCE OR TERMINAL_DEVICE)"

definition check_run_as ::
  "FacetSystemConfig \<Rightarrow> FacetConfigDomain \<Rightarrow> FacetConfigTerminalAssignment \<Rightarrow> unit cfg" where
  "check_run_as c domain a =
     (if ta_run_as a = None then Inr ()
      else bindE (any_strcmp (ta_run_as a) (map us_name (sc_users c))) (\<lambda>global.
           bindE (any_strcmp (ta_run_as a) (map us_name (dm_users domain))) (\<lambda>local_user.
           if global \<or> local_user then Inr ()
           else unresolved_error (ta_run_as a) ''unknown run_as user'')))"

text \<open>
  \<open>seat.terminal\<close>: the parts around the only dot, and the seat and terminal
  they name.  The seat loop has no break, so a later seat would win.
\<close>

definition split_reference :: "string \<Rightarrow> (string \<times> string) option" where
  "split_reference r =
     (let seat = takeWhile ((\<noteq>) CHR ''.'') r; dot = dropWhile ((\<noteq>) CHR ''.'') r in
      if dot = [] \<or> seat = [] \<or> tl dot = [] \<or> CHR ''.'' \<in> set (tl dot) then None
      else Some (seat, tl dot))"

definition find_terminal :: "FacetSystemConfig \<Rightarrow> string \<Rightarrow> string \<Rightarrow> (nat \<times> nat) option cfg" where
  "find_terminal c seat_name terminal =
     foldE (\<lambda>(k, seat) found.
       bindE (deref (st_name seat)) (\<lambda>name.
       if name \<noteq> seat_name then Inr found
       else case first_index ((=) terminal) (st_terminals seat) of
              None \<Rightarrow> Inr found
            | Some m \<Rightarrow> Inr (Some (k, m))))
       (List.enumerate 0 (sc_seats c)) None"

definition check_device ::
  "FacetConfigDomain \<Rightarrow> FacetConfigTerminalAssignment list \<Rightarrow> FacetConfigTerminalAssignment \<Rightarrow> unit cfg" where
  "check_device domain prev a =
     (if dm_personality domain = FACET_CONFIG_PERSONALITY_POSIX
      then reject_equal
             (duplicate_error (ta_device_name a) ''duplicate posix domain-local device name'')
             (ta_device_name a) (map ta_device_name prev)
      else Inr ())"

definition assign_terminal ::
  "FacetSystemConfig \<Rightarrow> FacetConfigDomain list \<Rightarrow> FacetConfigTerminalAssignment list
   \<Rightarrow> FacetConfigTerminalAssignment \<Rightarrow> FacetConfigTerminalAssignment cfg" where
  "assign_terminal c domains prev a =
     bindE (deref (ta_reference a)) (\<lambda>reference.
     case split_reference reference of
       None \<Rightarrow> schema_error reference ''terminal reference must be seat.terminal''
     | Some (seat_name, terminal) \<Rightarrow>
         bindE (find_terminal c seat_name terminal) (\<lambda>found.
         case found of
           None \<Rightarrow> unresolved_error (ta_reference a) ''unknown seat terminal''
         | Some (k, m) \<Rightarrow>
             if list_ex (\<lambda>other. ta_seat_index other = k \<and> ta_terminal_index other = m)
                  (concat (map dm_terminals domains) @ prev)
             then duplicate_error (ta_reference a) ''terminal is assigned to more than one domain''
             else Inr (a\<lparr>ta_seat_index := k, ta_terminal_index := m\<rparr>)))"

definition resolve_terminal ::
  "FacetSystemConfig \<Rightarrow> FacetConfigDomain list \<Rightarrow> FacetConfigDomain
   \<Rightarrow> FacetConfigTerminalAssignment list \<Rightarrow> FacetConfigTerminalAssignment
   \<Rightarrow> FacetConfigTerminalAssignment cfg" where
  "resolve_terminal c domains domain prev a =
     (let expected = expected_terminal_bits (dm_personality domain) in
      bindE (deref (dm_name domain)) (\<lambda>domain_name.
      if ta_present a \<noteq> expected \<and> ta_present a \<noteq> (expected OR TERMINAL_RUN_AS)
      then schema_error domain_name
        (if dm_personality domain = FACET_CONFIG_PERSONALITY_NATIVE
         then ''native terminal requires terminal, view, and initial_process''
         else ''posix terminal requires terminal and device'')
      else
      bindE (deref (ta_reference a)) (\<lambda>reference.
      if reference = [] \<or> ta_initial_process a = Some [] \<or> ta_device_name a = Some []
      then schema_error domain_name ''terminal assignment strings must not be empty''
      else
      bindE (check_run_as c domain a) (\<lambda>_.
      bindE (check_device domain prev a) (\<lambda>_.
      assign_terminal c domains prev a)))))"

definition resolve_authentication :: "FacetSystemConfig \<Rightarrow> FacetConfigDomain \<Rightarrow> FacetConfigDomain cfg" where
  "resolve_authentication c domain =
     (if dm_authentication_source domain = None then Inr domain
      else bindE (find_strcmp (dm_authentication_source domain)
                    (map au_name (sc_authentication_sources c))) (\<lambda>found.
        case found of
          None \<Rightarrow> unresolved_error (dm_authentication_source domain) ''unknown authentication source''
        | Some j \<Rightarrow> Inr (domain\<lparr>dm_authentication_source_index := j\<rparr>)))"

text \<open>The checks of one domain up to its terminals, in source order.\<close>

definition check_domain_fields ::
  "FacetSystemConfig \<Rightarrow> FacetConfigDomain list \<Rightarrow> FacetConfigDomain \<Rightarrow> unit cfg" where
  "check_domain_fields c prev domain =
     (let required = DOMAIN_ID OR DOMAIN_NAME OR DOMAIN_PERSONALITY OR DOMAIN_MANAGER OR
                     DOMAIN_SINKS OR DOMAIN_TERMINALS OR DOMAIN_INITRD in
      if dm_present domain AND required \<noteq> required
      then schema_error ''domains'' ''domain is missing a required key''
      else
      bindE (deref (dm_name domain)) (\<lambda>name.
      if name = [] then schema_error ''domains.name'' ''domain name must not be empty''
      else if dm_initrd domain = None \<or> dm_initrd domain = Some [] \<or>
              CHR ''/'' \<in> set (the (dm_initrd domain))
      then schema_error name ''domain initrd must be a multiboot module name''
      else
      bindE (reject_equal (duplicate_error (dm_initrd domain) ''initrd may be assigned to only one domain'')
               (dm_initrd domain) (map dm_initrd prev)) (\<lambda>_.
      bindE (scanE (check_domain_user c name) (dm_users domain)) (\<lambda>_.
      if dm_personality domain = FACET_CONFIG_PERSONALITY_VM
      then schema_error name ''vm domains are not supported by this configuration schema''
      else checkE (check_domain_identity domain) prev))))"

definition check_domain_shape :: "FacetConfigDomain \<Rightarrow> unit cfg" where
  "check_domain_shape domain =
     bindE (deref (dm_name domain)) (\<lambda>name.
     if dm_logging_sinks domain = [] \<or> dm_terminals domain = []
     then schema_error name ''domain requires at least one logging sink and terminal''
     else if dm_personality domain = FACET_CONFIG_PERSONALITY_NATIVE \<and>
             dm_present domain AND DOMAIN_PID1 \<noteq> 0
     then schema_error name ''native domain must not specify pid1''
     else if dm_personality domain = FACET_CONFIG_PERSONALITY_POSIX then
       if dm_present domain AND DOMAIN_PID1 = 0
       then schema_error name ''posix domain requires pid1''
       else bindE (deref (dm_pid1 domain)) (\<lambda>pid1.
         if pid1 = [] then schema_error name ''posix domain requires pid1'' else Inr ())
     else Inr ())"

definition check_domain ::
  "FacetSystemConfig \<Rightarrow> FacetConfigDomain list \<Rightarrow> FacetConfigDomain \<Rightarrow> FacetConfigDomain cfg" where
  "check_domain c prev domain =
     bindE (check_domain_fields c prev domain) (\<lambda>_.
     bindE (scanE (resolve_sink_use c) (dm_logging_sinks domain)) (\<lambda>sinks.
     bindE (check_domain_shape (domain\<lparr>dm_logging_sinks := sinks\<rparr>)) (\<lambda>_.
     bindE (scanE (resolve_terminal c prev domain) (dm_terminals domain)) (\<lambda>terminals.
     resolve_authentication c (domain\<lparr>dm_logging_sinks := sinks, dm_terminals := terminals\<rparr>)))))"

text \<open>roots and root_index, which the domain loop maintains.\<close>

definition count_roots :: "FacetConfigDomain list \<Rightarrow> nat" where
  "count_roots domains = length (filter (\<lambda>d. dm_id d = 0) domains)"

fun last_root :: "nat \<Rightarrow> nat \<Rightarrow> FacetConfigDomain list \<Rightarrow> nat" where
  "last_root i root_index [] = root_index"
| "last_root i root_index (d # ds) = last_root (i + 1) (if dm_id d = 0 then i else root_index) ds"

definition resolve_provider ::
  "FacetConfigDomain list \<Rightarrow> FacetConfigAuthenticationSource \<Rightarrow> FacetConfigAuthenticationSource cfg" where
  "resolve_provider domains source =
     (case first_index (\<lambda>d. dm_id d = au_provider_domain_id source) domains of
        None \<Rightarrow> unresolved_error (au_name source) ''authentication provider domain does not exist''
      | Some j \<Rightarrow> Inr (source\<lparr>au_provider_domain_index := j\<rparr>))"

definition validate_required :: "bool \<Rightarrow> FacetSystemConfig \<Rightarrow> FacetSystemConfig cfg" where
  "validate_required facet_seen c =
     (if \<not> facet_seen \<or> sc_version c \<noteq> 1
      then schema_error ''facet.version'' ''[facet] version = 1 is required''
      else
      bindE (scanE check_sink (sc_logging_sinks c)) (\<lambda>_.
      bindE (scanE check_seat (sc_seats c)) (\<lambda>_.
      bindE (scanE check_source (sc_authentication_sources c)) (\<lambda>_.
      bindE (foldE check_global_user (sc_users c) ([], False)) (\<lambda>(_, root_found).
      if \<not> root_found then schema_error ''users'' ''a global root user is required''
      else if sc_domains c = [] then schema_error ''domains'' ''at least one domain is required''
      else
      bindE (scanE (check_domain c) (sc_domains c)) (\<lambda>domains.
      if count_roots domains \<noteq> 1
      then schema_error ''domains'' ''exactly one domain must have id 0''
      else
      bindE (scanE (\<lambda>_. resolve_provider domains) (sc_authentication_sources c)) (\<lambda>sources.
      if sc_seat_initrd c = None \<or> sc_seat_initrd c = Some []
      then schema_error ''facet.seat_initrd''
             ''[facet] seat_initrd is required and must not be empty''
      else Inr (c\<lparr>sc_domains := domains, sc_authentication_sources := sources,
                   sc_root_index := last_root 0 (sc_root_index c) domains\<rparr>))))))))"

section \<open>The parser\<close>

definition parse_assignment :: "nat \<Rightarrow> Parser \<Rightarrow> Parser cfg" where
  "parse_assignment fuel p =
     bindE (parse_key p) (\<lambda>(key, p1).
     case take_char (skip_space_and_comments False p1) of (c, p2) \<Rightarrow>
     if c \<noteq> Some CHR ''=''
     then fail_at FACET_CONFIG_DIAGNOSTIC_SYNTAX (p_line p) (p_column p) ''assignment''
            (''expected '='' @ [APOS])
     else
     bindE (parse_value fuel (skip_space_and_comments False p2) 0) (\<lambda>(v, p3).
     apply_value p3 key v (p_line p) (p_column p)))"

definition end_of_line :: "Parser \<Rightarrow> Parser cfg" where
  "end_of_line p =
     (let p1 = skip_space_and_comments False p;
          p2 = (if current p1 = Some CHR ''#'' then skip_space_and_comments False p1 else p1) in
      if current p2 \<noteq> None \<and> current p2 \<noteq> Some LF
      then fail p2 FACET_CONFIG_DIAGNOSTIC_SYNTAX ''line'' ''unexpected data after value or table header''
      else Inr (skip_space_and_comments True p2))"

definition parse_statement :: "nat \<Rightarrow> Parser \<Rightarrow> Parser cfg" where
  "parse_statement fuel p =
     bindE (if current p = Some CHR ''['' then parse_header p else parse_assignment fuel p) end_of_line"

fun statement_loop :: "nat \<Rightarrow> nat \<Rightarrow> Parser \<Rightarrow> Parser cfg" where
  "statement_loop 0 fuel p = Inl OutOfFuel"
| "statement_loop (Suc n) fuel p =
     (if current p = None then Inr p
      else bindE (parse_statement fuel p) (statement_loop n fuel))"

declare statement_loop.simps [simp del]

definition initial_parser :: "heap \<Rightarrow> string \<Rightarrow> Parser" where
  "initial_parser h data =
     \<lparr>p_rest = data, p_line = 1, p_column = 1, p_entry_count = 0, p_section = SECTION_NONE,
      p_section_index = 0, p_facet_seen = False, p_config = zero_config, p_heap = h\<rparr>"

fun position :: "nat \<Rightarrow> nat \<Rightarrow> string \<Rightarrow> nat \<times> nat" where
  "position line column [] = (line, column)"
| "position line column (c # cs) =
     (if c = LF then position (line + 1) 1 cs else position line (column + 1) cs)"

definition config_parse :: "heap \<Rightarrow> string \<Rightarrow> FacetSystemConfig cfg" where
  "config_parse h data =
     (let p = initial_parser h data in
      if length data > FACET_CONFIG_MAX_BYTES
      then fail p FACET_CONFIG_DIAGNOSTIC_LIMIT ''file'' ''configuration exceeds 1 MiB limit''
      else case utf8_validate data of
        Inl bad_offset \<Rightarrow>
          (case position 1 1 (List.take bad_offset data) of (line, column) \<Rightarrow>
           fail_at FACET_CONFIG_DIAGNOSTIC_UTF8 line column ''file'' ''configuration is not valid UTF-8'')
      | Inr _ \<Rightarrow>
          bindE (statement_loop (length data + 1) (2 * length data + 2) (skip_space_and_comments True p))
            (\<lambda>p'. validate_required (p_facet_seen p') (p_config p')))"

text \<open>
  facet_config_parse also writes \<open>*config\<close>: on an error the structure has been
  destroyed and is all zero again.
\<close>

definition facet_config_destroy :: "FacetSystemConfig \<Rightarrow> FacetSystemConfig" where
  "facet_config_destroy c = zero_config"

definition facet_config_parse :: "heap \<Rightarrow> string \<Rightarrow> (ConfigError + unit) \<times> FacetSystemConfig" where
  "facet_config_parse h data =
     (case config_parse h data of
        Inl e \<Rightarrow> (Inl e, facet_config_destroy zero_config)
      | Inr c \<Rightarrow> (Inr (), c))"

fun facet_config_diagnostic_category_name :: "FacetConfigDiagnosticCategory \<Rightarrow> string" where
  "facet_config_diagnostic_category_name FACET_CONFIG_DIAGNOSTIC_NONE = ''none''"
| "facet_config_diagnostic_category_name FACET_CONFIG_DIAGNOSTIC_SYNTAX = ''syntax''"
| "facet_config_diagnostic_category_name FACET_CONFIG_DIAGNOSTIC_UTF8 = ''utf8''"
| "facet_config_diagnostic_category_name FACET_CONFIG_DIAGNOSTIC_LIMIT = ''limit''"
| "facet_config_diagnostic_category_name FACET_CONFIG_DIAGNOSTIC_UNSUPPORTED_VERSION = ''unsupported-version''"
| "facet_config_diagnostic_category_name FACET_CONFIG_DIAGNOSTIC_SCHEMA = ''schema''"
| "facet_config_diagnostic_category_name FACET_CONFIG_DIAGNOSTIC_DUPLICATE = ''duplicate''"
| "facet_config_diagnostic_category_name FACET_CONFIG_DIAGNOSTIC_UNRESOLVED_REFERENCE = ''unresolved-reference''"
| "facet_config_diagnostic_category_name FACET_CONFIG_DIAGNOSTIC_OUT_OF_MEMORY = ''out-of-memory''"

end
