(* ===== verification/ConfigParse.thy ===== *)
theory ConfigParse
  imports ConfigSchema
begin

text \<open>
  The parser half of src/config.c: every step consumes input, so the fuel of
  facet_config_parse is enough; the growing string buffers never overflow; the
  strings it builds are valid UTF-8 without NUL; integers are exactly the int64
  range.
\<close>

section \<open>Consumption\<close>

text \<open>
  \<open>p'\<close> is a parser state that the lexer can reach from \<open>p\<close>: less input,
  the same configuration and section.
\<close>

definition lexed :: "Parser \<Rightarrow> Parser \<Rightarrow> bool" where
  "lexed p p' \<longleftrightarrow>
     length (p_rest p') \<le> length (p_rest p) \<and> p_config p' = p_config p \<and>
     p_section p' = p_section p \<and> p_section_index p' = p_section_index p \<and>
     p_facet_seen p' = p_facet_seen p"

lemma lexed_refl [simp]: "lexed p p"
  by (simp add: lexed_def)

lemma lexed_trans [trans]: "lexed p q \<Longrightarrow> lexed q r \<Longrightarrow> lexed p r"
  by (auto simp: lexed_def)

lemma lexed_advance [simp]: "lexed p (advance p)"
  by (auto simp: lexed_def advance_def split: list.split)

lemma lexed_heap [simp]: "lexed p (p\<lparr>p_heap := h\<rparr>)" "lexed p (p\<lparr>p_entry_count := n\<rparr>)"
  by (simp_all add: lexed_def)

lemma lexed_skip_comment: "lexed p (skip_comment p)"
proof (induction p rule: skip_comment.induct)
  case (1 p)
  then show ?case by (subst skip_comment.simps) (auto intro: lexed_trans [OF lexed_advance])
qed

lemma lexed_skip [simp]: "lexed p (skip_space_and_comments b p)"
proof (induction b p rule: skip_space_and_comments.induct)
  case (1 b p)
  then show ?case
    by (subst skip_space_and_comments.simps)
      (auto simp: Let_def lexed_skip_comment split: option.split
        intro: lexed_trans [OF lexed_advance] lexed_trans [OF lexed_skip_comment])
qed

text \<open>
  The contract of a lexing function: a failure is a diagnostic, a success leaves
  a lexed state, with at least \<open>k\<close> bytes consumed.
\<close>

definition reported :: "ConfigError \<Rightarrow> bool" where
  "reported e \<longleftrightarrow> (\<exists>d. e = Diag d \<and> length (dg_context d) \<le> 95 \<and> length (dg_message d) \<le> 191)"

lemma reported_Diag [simp]: "reported (Diag d) \<longleftrightarrow> length (dg_context d) \<le> 95 \<and> length (dg_message d) \<le> 191"
  by (simp add: reported_def)

definition lexes :: "nat \<Rightarrow> Parser \<Rightarrow> ('a \<times> Parser) cfg \<Rightarrow> bool" where
  "lexes k p r =
     (case r of Inl e \<Rightarrow> reported e
      | Inr (x, p') \<Rightarrow> lexed p p' \<and> length (p_rest p') + k \<le> length (p_rest p))"

lemma lexes_fail [simp]: "lexes k p (fail q c s m)" "lexes k p (fail_at c l col s m)"
  by (simp_all add: lexes_def fail_def fail_at_def)

lemma lexes_Inr: "lexes k p (Inr (x, p')) \<longleftrightarrow> lexed p p' \<and> length (p_rest p') + k \<le> length (p_rest p)"
  by (simp add: lexes_def)

lemma lexes_InrD:
  "lexes k p r \<Longrightarrow> r = Inr (x, p') \<Longrightarrow> lexed p p' \<and> length (p_rest p') + k \<le> length (p_rest p)"
  by (simp add: lexes_def)

lemma lexes_bind:
  assumes "lexes j p r" and "\<And>x p'. r = Inr (x, p') \<Longrightarrow> lexes k p' (f (x, p'))" and "i \<le> j + k"
  shows "lexes i p (bindE r f)"
proof (cases r)
  case (Inr y)
  obtain x p' where y: "y = (x, p')" by (cases y)
  have 1: "lexed p p'" "length (p_rest p') + j \<le> length (p_rest p)"
    using lexes_InrD [OF assms(1)] Inr y by auto
  show ?thesis
  proof (cases "f (x, p')")
    case (Inl e)
    then show ?thesis using assms(2) Inr y by (auto simp: lexes_def)
  next
    case (Inr z)
    obtain x' p'' where z: "z = (x', p'')" by (cases z)
    have "lexed p' p''" "length (p_rest p'') + k \<le> length (p_rest p')"
      using assms(2) \<open>r = Inr y\<close> y Inr z by (auto simp: lexes_def)
    then show ?thesis using 1 assms(3) \<open>r = Inr y\<close> y Inr z by (auto simp: lexes_def intro: lexed_trans)
  qed
qed (use assms in \<open>auto simp: lexes_def\<close>)

lemma lexes_weaken: "lexes j p r \<Longrightarrow> i \<le> j \<Longrightarrow> lexes i p r"
  by (auto simp: lexes_def split: sum.splits)

lemma lexes_from:
  assumes "lexes k q r" and "lexed p q" and "i + length (p_rest q) \<le> k + length (p_rest p)"
  shows "lexes i p r"
  using assms by (auto simp: lexes_def split: sum.splits intro: lexed_trans)

lemma lexes_lexed: "lexes k q r \<Longrightarrow> lexed p q \<Longrightarrow> lexes k p r"
  by (erule lexes_from) (auto simp: lexed_def)

lemma lexes_advance: "lexes k (advance p) r \<Longrightarrow> lexes k p r"
  by (rule lexes_from [OF _ lexed_advance]) (auto simp: length_advance)

lemma lexes_alloc [simp]: "lexes 0 p (bindE (parser_alloc p c) (\<lambda>p'. Inr (x, p')))"
  by (simp add: parser_alloc_def lexes_def fail_def fail_at_def)

lemma length_advance_Some: "current p = Some c \<Longrightarrow> length (p_rest (advance p)) + 1 = length (p_rest p)"
  using current_SomeD [of p c] length_advance [of p] by linarith

lemma lexes_duplicate_bytes: "lexes 0 p (duplicate_bytes p s)"
  by (simp add: duplicate_bytes_def)

lemma lexes_append_utf8: "lexes 0 p (append_utf8 p buf v)"
  by (auto simp: append_utf8_def Let_def lexes_Inr parser_alloc_def fail_def fail_at_def lexes_def
      split: sum.split)

lemma lexes_append_raw_byte: "lexes 0 p (append_raw_byte p buf v)"
  by (auto simp: append_raw_byte_def Let_def lexes_Inr parser_alloc_def fail_def fail_at_def lexes_def
      split: sum.split)

lemma lexes_append_scalar: "lexes 0 p (append_scalar e v p buf)"
  by (simp add: append_scalar_def lexes_append_utf8 lexes_append_raw_byte)

lemma lexes_unicode_digits: "lexes 0 p (unicode_digits n v p)"
proof (induction n v p rule: unicode_digits.induct)
  case (2 n v p)
  then show ?case
    by (auto simp: take_char_def split: option.split intro: lexes_advance)
qed (simp add: lexes_Inr)

lemma lexes_parse_escape: "lexes 0 p (parse_escape p)"
  by (auto simp: parse_escape_def take_char_def lexes_Inr length_advance
      intro: lexes_from [OF lexes_unicode_digits])

lemma lexes_quoted_step:
  assumes "current p = Some c"
  shows "lexes (Suc 0) p (quoted_step quote p buf c)"
proof -
  have adv: "lexes 0 (advance p) r \<Longrightarrow> lexes (Suc 0) p r" for r :: "(Buffer \<times> Parser) cfg"
    using length_advance_Some [OF assms] by (auto elim: lexes_from)
  show ?thesis
    unfolding quoted_step_def Let_def
    by (auto intro!: adv lexes_bind [OF lexes_parse_escape, where k = 0] lexes_append_scalar)
qed

lemma lexes_quoted_loop: "lexes 0 p (quoted_loop quote p buf)"
proof (induction quote p buf rule: quoted_loop.induct)
  case (1 quote p buf)
  then show ?case
    by (subst quoted_loop.simps)
      (auto simp: lexes_Inr split: option.split intro!: lexes_bind [OF lexes_quoted_step, where k = 0])
qed

lemma lexes_parse_quoted_string: "lexes (Suc 0) p (parse_quoted_string p)"
proof (cases "current p")
  case (Some q)
  show ?thesis
    unfolding parse_quoted_string_def Some option.case
    apply (rule lexes_from [OF lexes_bind [OF lexes_quoted_loop, where k = 0 and i = 0]])
    apply (auto simp: take_char_def lexes_Inr length_advance intro!: lexes_from [OF lexes_duplicate_bytes])
    using length_advance_Some [OF Some] by simp
qed (simp add: parse_quoted_string_def)

lemma lexed_take_bare_key:
  "take_bare_key p = (s, p') \<Longrightarrow> lexed p p' \<and> length (p_rest p') + length s = length (p_rest p)"
proof (induction p arbitrary: s p' rule: take_bare_key.induct)
  case (1 p)
  show ?case
  proof (cases "\<exists>c. current p = Some c \<and> bare_key_character c")
    case True
    then obtain c where c: "current p = Some c" "bare_key_character c" by auto
    obtain t q where tq: "take_bare_key (advance p) = (t, q)" by (cases "take_bare_key (advance p)")
    then have "s = c # t" "p' = q" using 1(2) c by (auto simp: take_bare_key.simps [of p])
    with 1(1) [OF c tq] length_advance_Some [OF c(1)] show ?thesis
      using lexed_trans [OF lexed_advance] by auto
  next
    case False
    then show ?thesis using 1(2) by (auto simp: take_bare_key.simps [of p] split: option.splits)
  qed
qed

lemma lexes_parse_key: "lexes (Suc 0) p (parse_key p)"
proof -
  obtain s p' where s: "take_bare_key p = (s, p')" by (cases "take_bare_key p")
  then show ?thesis
    using lexed_take_bare_key [OF s]
    by (cases s) (auto simp: parse_key_def lexes_parse_quoted_string
        intro!: lexes_from [OF lexes_duplicate_bytes])
qed

section \<open>Values: enough fuel\<close>

lemma lexes_array_append: "lexes 0 p (array_append p xs x)"
  by (simp add: array_append_def)

lemma lexes_table_append: "lexes 0 p (table_append p xs x)"
  by (simp add: table_append_def)

lemma lexed_skip_length: "length (p_rest (skip_space_and_comments b p)) \<le> length (p_rest p)"
  using lexed_skip [of p b] by (simp add: lexed_def)

lemma lexed_skip_advance: "lexed p (skip_space_and_comments b (advance p))"
  by (rule lexed_trans [OF lexed_advance lexed_skip])

lemma lexed_advance_skip: "lexed p (advance (skip_space_and_comments b p))"
  by (rule lexed_trans [OF lexed_skip lexed_advance])

lemma lexes_array_next: "lexes 0 p (array_next p)"
  using lexed_skip_length [of True p] lexed_skip_length [of True "advance (skip_space_and_comments True p)"]
  by (auto simp: array_next_def take_char_def Let_def lexes_Inr length_advance
      intro: lexed_trans [OF lexed_advance_skip] lexed_advance_skip lexed_trans [OF lexed_skip lexed_skip_advance])

lemma lexes_table_next: "lexes 0 p (table_next p)"
  using lexed_skip_length [of False p] lexed_skip_length [of False "advance (skip_space_and_comments False p)"]
  by (auto simp: table_next_def take_char_def Let_def lexes_Inr length_advance
      intro: lexed_advance_skip lexed_trans [OF lexed_skip lexed_skip_advance])

lemma lexes_array_open:
  assumes "array_open p = (closed, p')" and "current p = Some c"
  shows "lexed p p'" and "length (p_rest p') < length (p_rest p)"
  using assms lexed_skip_length [of True "advance p"] current_SomeD [OF assms(2)]
  by (auto simp: array_open_def Let_def length_advance lexed_skip_advance split: if_splits
      intro: lexed_trans [OF lexed_skip_advance lexed_advance])

lemma lexes_table_open:
  assumes "table_open p = (closed, p')" and "current p = Some c"
  shows "lexed p p'" and "length (p_rest p') < length (p_rest p)"
  using assms lexed_skip_length [of False "advance p"] current_SomeD [OF assms(2)]
  by (auto simp: table_open_def Let_def length_advance lexed_skip_advance split: if_splits
      intro: lexed_trans [OF lexed_skip_advance lexed_advance])

lemma consume_entry_cases:
  obtains d where "consume_entry p l c s = Inl d" "reported d"
  | "consume_entry p l c s = Inr (p\<lparr>p_entry_count := p_entry_count p + 1\<rparr>)"
  by (cases "p_entry_count p \<ge> FACET_CONFIG_MAX_ENTRIES") (simp_all add: consume_entry_def fail_at_def)

lemma lexes_table_equals:
  "lexes 0 p2 (case take_char (skip_space_and_comments False p2) of (c, p3) \<Rightarrow>
     if c \<noteq> Some CHR ''='' then
       fail p3 FACET_CONFIG_DIAGNOSTIC_SYNTAX ''inline table'' (''expected '='' @ [APOS])
     else bindE (parser_alloc (skip_space_and_comments False p3) ''allocation'') (\<lambda>p4. Inr (key, p4)))"
proof -
  let ?t = "skip_space_and_comments False (advance (skip_space_and_comments False p2))"
  have t: "lexed p2 ?t" by (rule lexed_trans [OF lexed_skip lexed_skip_advance])
  have "lexes 0 p2 (bindE (parser_alloc ?t ''allocation'') (\<lambda>p4. Inr (key, p4)))"
    by (rule lexes_lexed [OF lexes_alloc t])
  then show ?thesis by (simp add: take_char_def)
qed

lemma lexes_table_key: "lexes (Suc 0) p (table_key p)"
proof (cases rule: consume_entry_cases [of p "p_line p" "p_column p" "''inline table''"])
  case (1 d)
  then show ?thesis by (simp add: table_key_def lexes_def)
next
  case 2
  let ?p1 = "p\<lparr>p_entry_count := p_entry_count p + 1\<rparr>"
  have "lexes (Suc 0) ?p1 (table_key p)"
    unfolding table_key_def 2 bindE_Inr
    by (rule lexes_bind [OF lexes_parse_key, where k = 0]) (simp_all only: prod.case lexes_table_equals)
  then show ?thesis using lexed_heap(2) by (rule lexes_lexed)
qed

lemma length_integer_digits: "lexes 0 p (integer_digits neg m p)"
proof (induction neg m p rule: integer_digits.induct)
  case (1 neg m p)
  show ?case
  proof (cases "is_digit (current p)")
    case True
    note eq = integer_digits.simps [of neg m p, unfolded take_char_def prod.case Let_def]
    show ?thesis
      using True 1 [of "current p" "advance p"]
      by (subst eq) (simp add: take_char_def lexes_advance)
  qed (simp add: integer_digits.simps [of neg m p] lexes_Inr)
qed

lemma lexes_parse_integer: "lexes (Suc 0) p (parse_integer p)"
proof -
  define q where "q = (if current p = Some CHR ''+'' \<or> current p = Some CHR ''-'' then advance p else p)"
  have q: "lexed p q" by (simp add: q_def)
  have "lexes (Suc 0) q (parse_integer p)"
  proof (cases "integer_digits (current p = Some CHR ''-'') 0 q")
    case (Inl e)
    then show ?thesis
      using length_integer_digits [of q "current p = Some CHR ''-''" 0]
      by (simp add: parse_integer_def Let_def q_def [symmetric] lexes_def)
  next
    case (Inr r)
    obtain m p' where r: "r = (m, p')" by (cases r)
    then show ?thesis
      using Inr length_integer_digits [of q "current p = Some CHR ''-''" 0]
      by (auto simp: parse_integer_def Let_def q_def [symmetric] lexes_Inr)
  qed
  then show ?thesis using q by (auto simp: lexed_def elim: lexes_from)
qed

lemma lexes_advance_by:
  assumes "take k (p_rest p) = s" and "0 < length s"
  shows "lexes (Suc 0) p (Inr (x, advance_by k p))"
proof -
  have "0 < k" "p_rest p \<noteq> []" using assms by auto
  then show ?thesis by (auto simp: lexes_Inr lexed_def advance_by_def neq_Nil_conv)
qed

lemma lexes_parse_scalar: "lexes (Suc 0) p (parse_scalar p)"
proof -
  have "lexes (Suc 0) p (bindE (parse_integer p) (\<lambda>(n, p'). Inr (VALUE_INTEGER n, p')))"
    by (rule lexes_bind [OF lexes_parse_integer, where k = 0]) (auto simp: lexes_Inr)
  moreover note lexes_advance_by [of 4 p "''true''" "VALUE_BOOL True"]
    lexes_advance_by [of 5 p "''false''" "VALUE_BOOL False"]
  ultimately show ?thesis unfolding parse_scalar_def by (auto split: if_split)
qed

lemma lexes_too_deep [simp]: "lexes k p (too_deep q)"
  by (simp add: too_deep_def)

lemma parse_value_consumes:
  "2 * length (p_rest p) < fuel \<Longrightarrow> lexes (Suc 0) p (parse_value fuel p depth)"
  "2 * length (p_rest p) + 1 < fuel \<Longrightarrow> lexes (Suc 0) p (array_loop fuel p depth items)"
  "2 * length (p_rest p) + 1 < fuel \<Longrightarrow> lexes (Suc 0) p (table_loop fuel p depth entries)"
proof (induction fuel p depth and fuel p depth items and fuel p depth entries
    rule: parse_value_array_loop_table_loop.induct)
  case (2 fuel p depth)
  have val: "lexes (Suc 0) p (bindE r (\<lambda>(x, p'). Inr (g x, p')))" if "lexes (Suc 0) p r"
    for r :: "('a \<times> Parser) cfg" and g :: "'a \<Rightarrow> Value"
    using that by (rule lexes_bind [where k = 0]) (auto simp: lexes_Inr)
  have array: "lexes (Suc 0) p (case array_open p of (closed, p1) \<Rightarrow>
      if closed then Inr ([], p1) else array_loop fuel p1 depth [])"
    if "current p = Some CHR ''[''" "\<not> depth > FACET_CONFIG_MAX_DEPTH"
  proof (cases "array_open p")
    case (Pair closed p1)
    note o = lexes_array_open [OF Pair that(1)]
    have "\<not> closed \<Longrightarrow> lexes (Suc 0) p1 (array_loop fuel p1 depth [])"
      using 2 o that Pair by simp
    then show ?thesis using o Pair by (auto simp: lexes_Inr intro: lexes_lexed)
  qed
  have table: "lexes (Suc 0) p (case table_open p of (closed, p1) \<Rightarrow>
      if closed then Inr ([], p1) else table_loop fuel p1 depth [])"
    if "current p = Some CHR ''{''" "\<not> depth > FACET_CONFIG_MAX_DEPTH"
  proof (cases "table_open p")
    case (Pair closed p1)
    note o = lexes_table_open [OF Pair that(1)]
    have "\<not> closed \<Longrightarrow> lexes (Suc 0) p1 (table_loop fuel p1 depth [])"
      using 2 o that Pair by simp
    then show ?thesis using o Pair by (auto simp: lexes_Inr intro: lexes_lexed)
  qed
  consider "depth > FACET_CONFIG_MAX_DEPTH" | "current p = Some QUOTE \<or> current p = Some APOS"
    | "\<not> depth > FACET_CONFIG_MAX_DEPTH" "current p = Some CHR ''[''"
    | "\<not> depth > FACET_CONFIG_MAX_DEPTH" "current p = Some CHR ''{''"
    | "current p \<notin> {Some QUOTE, Some APOS, Some CHR ''['', Some CHR ''{''}"
    by auto
  then show ?case
  proof cases
    case 1
    then show ?thesis by (simp add: parse_value.simps(2))
  next
    case 2
    then show ?thesis by (simp add: parse_value.simps(2) val [OF lexes_parse_quoted_string])
  next
    case 3
    then show ?thesis by (simp add: parse_value.simps(2) val [OF array])
  next
    case 4
    then show ?thesis by (simp add: parse_value.simps(2) val [OF table])
  next
    case 5
    then show ?thesis by (simp add: parse_value.simps(2) val [OF lexes_parse_scalar])
  qed
next
  case (4 fuel p depth items)
  have v: "lexes (Suc 0) p (parse_value fuel p (depth + 1))" using 4 by simp
  show ?case
    unfolding array_loop.simps
  proof (rule lexes_bind [OF v, where k = 0])
    fix item p1 assume p1: "parse_value fuel p (depth + 1) = Inr (item, p1)"
    have less: "length (p_rest p1) < length (p_rest p)" using lexes_InrD [OF v p1] by simp
    show "lexes 0 p1 (case (item, p1) of (item, p1) \<Rightarrow>
        bindE (array_append p1 items item) (\<lambda>(items', p2).
        bindE (array_next p2) (\<lambda>(closed, p3).
        if closed then Inr (items', p3) else array_loop fuel p3 depth items')))"
      unfolding prod.case
    proof (rule lexes_bind [OF lexes_array_append, where k = 0])
      fix items' p2 assume p2: "array_append p1 items item = Inr (items', p2)"
      show "lexes 0 p2 (case (items', p2) of (items', p2) \<Rightarrow>
          bindE (array_next p2) (\<lambda>(closed, p3).
          if closed then Inr (items', p3) else array_loop fuel p3 depth items'))"
        unfolding prod.case
      proof (rule lexes_bind [OF lexes_array_next, where k = 0])
        fix closed p3 assume p3: "array_next p2 = Inr (closed, p3)"
        have "length (p_rest p3) < length (p_rest p)"
          using less lexes_InrD [OF lexes_array_append p2] lexes_InrD [OF lexes_array_next p3] by simp
        then have "\<not> closed \<Longrightarrow> lexes (Suc 0) p3 (array_loop fuel p3 depth items')"
          using 4 p1 p2 p3 by simp
        then show "lexes 0 p3 (case (closed, p3) of (closed, p3) \<Rightarrow>
            if closed then Inr (items', p3) else array_loop fuel p3 depth items')"
          by (auto simp: lexes_Inr intro: lexes_weaken)
      qed simp
    qed simp
  qed simp
next
  case (6 fuel p depth entries)
  show ?case
    unfolding table_loop.simps
  proof (rule lexes_bind [OF lexes_table_key, where k = 0])
    fix key p1 assume p1: "table_key p = Inr (key, p1)"
    have less1: "length (p_rest p1) < length (p_rest p)" using lexes_InrD [OF lexes_table_key p1] by simp
    then have v: "lexes (Suc 0) p1 (parse_value fuel p1 (depth + 1))" using 6 p1 by simp
    show "lexes 0 p1 (case (key, p1) of (key, p1) \<Rightarrow>
        bindE (parse_value fuel p1 (depth + 1)) (\<lambda>(v, p2).
        bindE (table_append p2 entries (ValueEntry key (p_line p) (p_column p) v)) (\<lambda>(entries', p3).
        bindE (table_next p3) (\<lambda>(closed, p4).
        if closed then Inr (entries', p4) else table_loop fuel p4 depth entries'))))"
      unfolding prod.case
    proof (rule lexes_bind [OF v, where k = 0])
      fix x p2 assume p2: "parse_value fuel p1 (depth + 1) = Inr (x, p2)"
      let ?e = "ValueEntry key (p_line p) (p_column p) x"
      show "lexes 0 p2 (case (x, p2) of (v, p2) \<Rightarrow>
          bindE (table_append p2 entries (ValueEntry key (p_line p) (p_column p) v)) (\<lambda>(entries', p3).
          bindE (table_next p3) (\<lambda>(closed, p4).
          if closed then Inr (entries', p4) else table_loop fuel p4 depth entries')))"
        unfolding prod.case
      proof (rule lexes_bind [OF lexes_table_append, where k = 0])
        fix entries' p3 assume p3: "table_append p2 entries ?e = Inr (entries', p3)"
        show "lexes 0 p3 (case (entries', p3) of (entries', p3) \<Rightarrow>
            bindE (table_next p3) (\<lambda>(closed, p4).
            if closed then Inr (entries', p4) else table_loop fuel p4 depth entries'))"
          unfolding prod.case
        proof (rule lexes_bind [OF lexes_table_next, where k = 0])
          fix closed p4 assume p4: "table_next p3 = Inr (closed, p4)"
          have "length (p_rest p4) < length (p_rest p)"
            using less1 lexes_InrD [OF v p2] lexes_InrD [OF lexes_table_append p3]
              lexes_InrD [OF lexes_table_next p4] by simp
          then have "\<not> closed \<Longrightarrow> lexes (Suc 0) p4 (table_loop fuel p4 depth entries')"
            using 6 p1 p2 p3 p4 by simp
          then show "lexes 0 p4 (case (closed, p4) of (closed, p4) \<Rightarrow>
              if closed then Inr (entries', p4) else table_loop fuel p4 depth entries')"
            by (auto simp: lexes_Inr intro: lexes_weaken)
        qed simp
      qed simp
    qed simp
  qed simp
qed simp_all

section \<open>Statements: the parser terminates with a diagnostic or a configuration\<close>

definition diag_only :: "'a cfg \<Rightarrow> bool" where
  "diag_only r \<longleftrightarrow> (\<forall>e. r = Inl e \<longrightarrow> reported e)"

lemma diag_only_simps [simp]:
  "diag_only (Inr x)" "diag_only (fail p c s m)" "diag_only (fail_at c l col s m)"
  by (simp_all add: diag_only_def fail_def fail_at_def)

lemma bindE_fail [simp]:
  "bindE (fail p c s m) f = fail p c s m" "bindE (fail_at c l col s m) f = fail_at c l col s m"
  by (simp_all add: fail_def fail_at_def)

lemma diag_only_bind:
  "diag_only r \<Longrightarrow> (\<And>x. r = Inr x \<Longrightarrow> diag_only (f x)) \<Longrightarrow> diag_only (bindE r f)"
  by (cases r) (auto simp: diag_only_def)

lemma diag_only_require_kind [simp]: "diag_only (require_kind key v sel t)"
  by (simp add: require_kind_def split: option.split)

lemma diag_only_take_string [simp]: "diag_only (take_string key v)"
  by (simp add: take_string_def)

lemma diag_only_parse_log_level [simp]: "diag_only (parse_log_level key v)"
  by (auto simp: parse_log_level_def split: option.split intro: diag_only_bind)

lemma lexes_bind_pure:
  "diag_only r \<Longrightarrow> (\<And>x. r = Inr x \<Longrightarrow> lexes k p (f x)) \<Longrightarrow> lexes k p (bindE r f)"
  by (cases r) (auto simp: diag_only_def lexes_def)

lemma lexes_bind_alloc:
  assumes "\<And>p'. p' = p\<lparr>p_heap := p_heap p - 1\<rparr> \<Longrightarrow> lexes 0 p' (f p')"
  shows "lexes 0 p (bindE (parser_alloc p c) f)"
  using assms by (auto simp: parser_alloc_def intro: lexes_lexed)

lemma lexes_bind_alloc_if:
  assumes "\<And>p'. lexed p p' \<Longrightarrow> lexes 0 p' (f p')"
  shows "lexes 0 p (bindE (if b then Inr p else parser_alloc p c) f)"
  using assms by (cases b) (auto intro: lexes_bind_alloc)

lemma lexes_foldE:
  assumes "\<And>x acc q. lexes 0 q (f x (acc, q))"
  shows "lexes 0 p (foldE f xs (acc, p))"
proof (induction xs arbitrary: acc p)
  case (Cons x xs)
  show ?case by (simp, rule lexes_bind [OF assms, where k = 0]) (simp_all add: Cons.IH)
qed (simp add: lexes_Inr)

lemma lexes_Inr0 [simp]: "lexes 0 p (Inr (x, p))"
  by (simp add: lexes_Inr)

lemma lexes_strings_from_array: "lexes 0 p (strings_from_array p key v)"
proof -
  have fold: "diag_only (foldE (\<lambda>item acc. bindE (require_kind key item as_string ''string array'')
      (\<lambda>s. Inr (acc @ [s]))) items acc)" for items :: "Value list" and acc :: "string list"
    by (induction items arbitrary: acc) (auto intro!: diag_only_bind)
  show ?thesis
    unfolding strings_from_array_def
    by (intro lexes_bind_pure lexes_bind_alloc_if fold diag_only_require_kind) simp
qed

lemma lexes_domain_sink_item: "lexes 0 q (domain_sink_item item (acc, q))"
  unfolding domain_sink_item_def
  by (auto split: option.split bool.split intro!: lexes_bind_pure lexes_bind [OF lexes_duplicate_bytes, where k = 0])

lemma lexes_domain_sinks: "lexes 0 p (domain_sinks_from_array p v d)"
  unfolding domain_sinks_from_array_def
  by (intro lexes_bind_pure lexes_bind_alloc_if lexes_bind [OF lexes_foldE [OF lexes_domain_sink_item], where k = 0]
      diag_only_require_kind) auto

lemma lexes_terminal_entry: "lexes 0 q (terminal_entry e (a, q))"
  unfolding terminal_entry_def Let_def
  by (auto split: option.split intro!: lexes_bind_pure lexes_bind [OF lexes_duplicate_bytes, where k = 0])

lemma lexes_domain_terminal_item: "lexes 0 q (domain_terminal_item item (acc, q))"
  unfolding domain_terminal_item_def
  by (auto intro!: lexes_bind_pure lexes_bind [OF lexes_foldE [OF lexes_terminal_entry], where k = 0])

lemma lexes_domain_terminals: "lexes 0 p (domain_terminals_from_array p v d)"
  unfolding domain_terminals_from_array_def
  by (intro lexes_bind_pure lexes_bind_alloc_if lexes_bind [OF lexes_foldE [OF lexes_domain_terminal_item], where k = 0]
      diag_only_require_kind) auto

lemma lexes_user_entry: "lexes 0 q (user_entry e (u, q))"
  unfolding user_entry_def Let_def
  by (auto split: option.split intro!: lexes_bind_pure lexes_bind [OF lexes_duplicate_bytes, where k = 0])

lemma lexes_user_from_table: "lexes 0 p (user_from_table v p)"
  unfolding user_from_table_def by (intro lexes_bind_pure lexes_foldE lexes_user_entry) simp

lemma lexes_domain_users: "lexes 0 p (domain_users_from_array p v d)"
proof -
  have item: "lexes 0 q (case (acc, q) of (users, p) \<Rightarrow>
      bindE (user_from_table item p) (\<lambda>(u, p'). Inr (users @ [u], p')))"
    for item q and acc :: "FacetConfigUser list"
    by (simp, rule lexes_bind [OF lexes_user_from_table, where k = 0]) auto
  show ?thesis
    unfolding domain_users_from_array_def
    by (intro lexes_bind_pure lexes_bind_alloc_if lexes_bind [OF lexes_foldE [OF item], where k = 0]
        diag_only_require_kind) auto
qed

lemma lexes_apply_seat: "lexes 0 p (apply_seat key v l c seat p)"
  unfolding apply_seat_def Let_def
  by (auto split: option.split intro!: lexes_bind_pure lexes_bind [OF lexes_strings_from_array, where k = 0])

lemma diag_only_domain_enum: "diag_only (domain_enum key v flag d)"
  unfolding domain_enum_def by (auto intro!: diag_only_bind)

lemma lexes_apply_domain: "lexes 0 p (apply_domain key v l c d p)"
  unfolding apply_domain_def Let_def
  by (auto split: option.split simp: lexes_domain_sinks lexes_domain_terminals lexes_domain_users
      intro!: lexes_bind_pure diag_only_domain_enum)

lemma diag_only_apply:
  "diag_only (apply_sink key v l c sink)" "diag_only (apply_source key v l c source)"
  "diag_only (apply_user key v l c user)"
  unfolding apply_sink_def apply_source_def apply_user_def Let_def
  by (auto split: option.split intro!: diag_only_bind)

text \<open>A statement fails with a diagnostic or consumes at least \<open>k\<close> bytes.\<close>

definition steps :: "nat \<Rightarrow> Parser \<Rightarrow> Parser cfg \<Rightarrow> bool" where
  "steps k p r =
     (case r of Inl e \<Rightarrow> reported e | Inr p' \<Rightarrow> length (p_rest p') + k \<le> length (p_rest p))"

lemma steps_fail [simp]: "steps k p (fail q c s m)" "steps k p (fail_at c l col s m)"
  by (simp_all add: steps_def fail_def fail_at_def)

lemma steps_Inr [simp]: "steps k p (Inr p') \<longleftrightarrow> length (p_rest p') + k \<le> length (p_rest p)"
  by (simp add: steps_def)

lemma steps_bind_pure:
  "diag_only r \<Longrightarrow> (\<And>x. r = Inr x \<Longrightarrow> steps k p (f x)) \<Longrightarrow> steps k p (bindE r f)"
  by (cases r) (auto simp: diag_only_def steps_def)

lemma steps_bind_lexes:
  assumes "lexes j p r" and "\<And>x p'. r = Inr (x, p') \<Longrightarrow> lexed p p' \<Longrightarrow> steps k p' (f (x, p'))" and "i \<le> j + k"
  shows "steps i p (bindE r f)"
proof (cases r)
  case (Inr y)
  obtain x p' where y: "y = (x, p')" by (cases y)
  have "lexed p p'" "length (p_rest p') + j \<le> length (p_rest p)"
    using lexes_InrD [OF assms(1)] Inr y by auto
  with assms(2) [of x p'] assms(3) Inr y show ?thesis
    by (auto simp: steps_def split: sum.splits)
qed (use assms in \<open>auto simp: lexes_def steps_def\<close>)

lemma steps_bind:
  assumes "steps j p r" and "\<And>p'. r = Inr p' \<Longrightarrow> steps k p' (f p')" and "i \<le> j + k"
  shows "steps i p (bindE r f)"
  using assms by (cases r) (fastforce simp: steps_def split: sum.splits)+

lemma steps_lexed: "steps k q r \<Longrightarrow> lexed p q \<Longrightarrow> steps k p r"
  by (auto simp: steps_def lexed_def split: sum.splits)

lemma steps_consume_entry: "steps 0 p (consume_entry p l c s)"
  by (simp add: consume_entry_def)

lemma steps_apply_facet: "steps 0 p (apply_facet key v l c p)"
  by (simp add: apply_facet_def Let_def steps_bind_pure)

lemma steps_apply_section: "steps 0 p (apply_section key v l c p)"
proof -
  have seat: "steps 0 p (bindE (apply_seat key v l c x p) (\<lambda>(x, p'). Inr (p'\<lparr>p_config := h x\<rparr>)))" for x h
    by (rule steps_bind_lexes [OF lexes_apply_seat, where k = 0]) auto
  have domain: "steps 0 p (bindE (apply_domain key v l c x p) (\<lambda>(x, p'). Inr (p'\<lparr>p_config := h x\<rparr>)))" for x h
    by (rule steps_bind_lexes [OF lexes_apply_domain, where k = 0]) auto
  show ?thesis
    by (cases "p_section p")
      (simp_all add: apply_section_def Let_def steps_apply_facet seat domain steps_bind_pure diag_only_apply)
qed

lemma steps_apply_value: "steps 0 p (apply_value p key v l c)"
  unfolding apply_value_def by (rule steps_bind [OF steps_consume_entry steps_apply_section]) simp

lemma lexes_grow_array: "lexes 0 p (grow_array p xs z)"
  by (simp add: grow_array_def)

lemma steps_bind_grow:
  assumes "\<And>ys p'. p_rest (h ys p') = p_rest p'"
  shows "steps 0 p (bindE (grow_array p xs z) (\<lambda>(ys, p'). Inr (h ys p')))"
  by (rule steps_bind_lexes [OF lexes_grow_array, where k = 0]) (auto simp: assms)

lemma steps_enter_section: "steps 0 p (enter_section a n l c p)"
  unfolding enter_section_def Let_def by (simp add: steps_bind_grow)

lemma lexed_close_header: "close_header a p = (b, p') \<Longrightarrow> lexed p p'"
  by (auto simp: close_header_def take_char_def split: if_splits intro: lexed_trans [OF lexed_advance])

lemma lexed_header_start: "lexed p (skip_space_and_comments b (if a then advance (advance p) else advance p))"
  by (auto intro: lexed_trans [OF lexed_advance] lexed_skip_advance)

lemma steps_parse_header: "steps (Suc 0) p (parse_header p)"
proof -
  define a where "a = (current (advance p) = Some CHR ''['')"
  define p2 where "p2 = skip_space_and_comments False (if a then advance (advance p) else advance p)"
  have "lexed p p2" unfolding p2_def by (rule lexed_header_start)
  moreover have "steps (Suc 0) p2 (parse_header p)"
    unfolding parse_header_def Let_def a_def [symmetric] p2_def [symmetric]
  proof (rule steps_bind_lexes [OF lexes_parse_key, where k = 0])
    fix name p3
    obtain b p4 where c: "close_header a (skip_space_and_comments False p3) = (b, p4)"
      by (cases "close_header a (skip_space_and_comments False p3)")
    have p4: "lexed p3 p4" by (rule lexed_trans [OF lexed_skip lexed_close_header [OF c]])
    have "steps 0 p4 (bindE (consume_entry p4 l col name) (enter_section a name l col))" for l col
      by (rule steps_bind [OF steps_consume_entry steps_enter_section]) simp
    note this [THEN steps_lexed, OF p4]
    then show "steps 0 p3 (case (name, p3) of (name, p3) \<Rightarrow>
      case close_header a (skip_space_and_comments False p3) of (closed, p4) \<Rightarrow>
      if \<not> closed then
        fail_at FACET_CONFIG_DIAGNOSTIC_SYNTAX (p_line p2) (p_column p2) ''table'' ''malformed table header''
      else if \<not> p_facet_seen p4 \<and> (a \<or> name \<noteq> ''facet'') then
        fail_at FACET_CONFIG_DIAGNOSTIC_SCHEMA (p_line p2) (p_column p2) ''facet'' ''[facet] must be the first table''
      else bindE (consume_entry p4 (p_line p2) (p_column p2) name)
             (enter_section a name (p_line p2) (p_column p2)))"
      by (auto simp: c)
  qed simp
  ultimately show ?thesis using steps_lexed by blast
qed

lemma steps_end_of_line: "steps 0 p (end_of_line p)"
proof -
  have "lexed p (skip_space_and_comments True (if b then skip_space_and_comments False
      (skip_space_and_comments False p) else skip_space_and_comments False p))" for b
    by (auto intro: lexed_trans [OF lexed_skip] lexed_trans [OF lexed_skip lexed_skip])
  then show ?thesis by (auto simp: end_of_line_def Let_def lexed_def)
qed

lemma steps_parse_assignment:
  assumes "2 * length (p_rest p) < fuel"
  shows "steps (Suc 0) p (parse_assignment fuel p)"
  unfolding parse_assignment_def
proof (rule steps_bind_lexes [OF lexes_parse_key, where k = 0])
  fix key p1 assume "lexed p p1"
  let ?q = "skip_space_and_comments False (advance (skip_space_and_comments False p1))"
  have q: "lexed p1 ?q" by (rule lexed_trans [OF lexed_skip lexed_skip_advance])
  with \<open>lexed p p1\<close> have "2 * length (p_rest ?q) < fuel" using assms by (auto simp: lexed_def)
  note v = parse_value_consumes(1) [OF this, of 0]
  have "steps 0 ?q (bindE (parse_value fuel ?q 0) (\<lambda>(v, p3). apply_value p3 key v (p_line p) (p_column p)))"
    by (rule steps_bind_lexes [OF v, where k = 0]) (auto simp: steps_apply_value)
  from steps_lexed [OF this q] show "steps 0 p1 (case (key, p1) of (key, p1) \<Rightarrow>
     case take_char (skip_space_and_comments False p1) of (c, p2) \<Rightarrow>
     if c \<noteq> Some CHR ''=''
     then fail_at FACET_CONFIG_DIAGNOSTIC_SYNTAX (p_line p) (p_column p) ''assignment''
            (''expected '='' @ [APOS])
     else bindE (parse_value fuel (skip_space_and_comments False p2) 0) (\<lambda>(v, p3).
       apply_value p3 key v (p_line p) (p_column p)))"
    by (simp add: take_char_def)
qed simp

lemma steps_parse_statement:
  assumes "2 * length (p_rest p) < fuel"
  shows "steps (Suc 0) p (parse_statement fuel p)"
  unfolding parse_statement_def
  by (rule steps_bind [where j = "Suc 0" and k = 0])
    (auto simp: steps_parse_header steps_parse_assignment [OF assms] steps_end_of_line)

lemma diag_only_statement_loop:
  assumes "length (p_rest p) < n" and "2 * length (p_rest p) < fuel"
  shows "diag_only (statement_loop n fuel p)"
  using assms
proof (induction n arbitrary: p)
  case (Suc n)
  note s = steps_parse_statement [OF Suc.prems(2)]
  show ?case
  proof (cases "parse_statement fuel p")
    case (Inl e)
    then show ?thesis using s by (auto simp: statement_loop.simps steps_def diag_only_def)
  next
    case (Inr p')
    then have "length (p_rest p') < length (p_rest p)" using s by (simp add: steps_def)
    then have "diag_only (statement_loop n fuel p')" using Suc by simp
    with Inr show ?thesis by (simp add: statement_loop.simps)
  qed
qed simp

end
