(* ===== verification/ConfigFields.thy ===== *)
theory ConfigFields
  imports ConfigParse
begin

text \<open>
  The configuration while it is being built: presence bits and fields agree, the
  current section exists, and therefore the validation of src/config.c never
  reads through a NULL pointer.  Together with the fuel bound of ConfigParse this
  gives totality: facet_config_parse ends with a diagnostic or a configuration.
\<close>

section \<open>The configuration under construction\<close>

text \<open>
  A presence bit is only set together with its field, so a field that the
  validator requires by its bit is not NULL; and the current section names an
  element of its array.
\<close>

definition sink_fields :: "FacetConfigLoggingSinkDefinition \<Rightarrow> bool" where
  "sink_fields s \<longleftrightarrow>
     (ls_present s AND SINK_NAME \<noteq> 0 \<longrightarrow> ls_name s \<noteq> None) \<and>
     (ls_present s AND SINK_TYPE \<noteq> 0 \<longrightarrow> ls_type s \<noteq> None)"

definition source_fields :: "FacetConfigAuthenticationSource \<Rightarrow> bool" where
  "source_fields s \<longleftrightarrow>
     (au_present s AND AUTH_NAME \<noteq> 0 \<longrightarrow> au_name s \<noteq> None) \<and>
     (au_present s AND AUTH_TYPE \<noteq> 0 \<longrightarrow> au_type s \<noteq> None)"

definition user_fields :: "FacetConfigUser \<Rightarrow> bool" where
  "user_fields u \<longleftrightarrow> (us_present u AND USER_HOME_PATH \<noteq> 0 \<longrightarrow> us_home_path u \<noteq> None)"

definition seat_fields :: "FacetConfigSeatDefinition \<Rightarrow> bool" where
  "seat_fields s \<longleftrightarrow>
     (st_present s AND SEAT_NAME \<noteq> 0 \<longrightarrow> st_name s \<noteq> None) \<and>
     (st_present s AND SEAT_SERVER \<noteq> 0 \<longrightarrow> st_server s \<noteq> None)"

definition terminal_fields :: "FacetConfigTerminalAssignment \<Rightarrow> bool" where
  "terminal_fields a \<longleftrightarrow>
     (ta_present a AND TERMINAL_REFERENCE \<noteq> 0 \<longrightarrow> ta_reference a \<noteq> None) \<and>
     (ta_present a AND TERMINAL_DEVICE \<noteq> 0 \<longrightarrow> ta_device_name a \<noteq> None)"

definition domain_fields :: "FacetConfigDomain \<Rightarrow> bool" where
  "domain_fields d \<longleftrightarrow> dm_authentication_source_index d = 0 \<and>
     (dm_present d AND DOMAIN_NAME \<noteq> 0 \<longrightarrow> dm_name d \<noteq> None) \<and>
     (dm_present d AND DOMAIN_PID1 \<noteq> 0 \<longrightarrow> dm_pid1 d \<noteq> None) \<and>
     list_all user_fields (dm_users d) \<and> list_all (\<lambda>s. dk_name s \<noteq> None) (dm_logging_sinks d) \<and>
     list_all terminal_fields (dm_terminals d)"

definition config_fields :: "FacetSystemConfig \<Rightarrow> bool" where
  "config_fields c \<longleftrightarrow>
     list_all sink_fields (sc_logging_sinks c) \<and> list_all source_fields (sc_authentication_sources c) \<and>
     list_all user_fields (sc_users c) \<and> list_all seat_fields (sc_seats c) \<and>
     list_all domain_fields (sc_domains c)"

definition section_in_range :: "Parser \<Rightarrow> bool" where
  "section_in_range p =
     (let c = p_config p; i = p_section_index p in
      case p_section p of
        SECTION_LOGGING_SINK \<Rightarrow> i < length (sc_logging_sinks c)
      | SECTION_AUTHENTICATION_SOURCE \<Rightarrow> i < length (sc_authentication_sources c)
      | SECTION_USER \<Rightarrow> i < length (sc_users c)
      | SECTION_SEAT \<Rightarrow> i < length (sc_seats c)
      | SECTION_DOMAIN \<Rightarrow> i < length (sc_domains c)
      | _ \<Rightarrow> True)"

definition parser_ok :: "Parser \<Rightarrow> bool" where
  "parser_ok p \<longleftrightarrow> config_fields (p_config p) \<and> section_in_range p"

lemma word_or_eq_0: "(x OR y = 0) \<longleftrightarrow> x = 0 \<and> y = (0 :: u32)"
  by (auto simp: bit_eq_iff bit_or_iff)

lemma or_flag_simps:
  "(p OR b) AND f = 0 \<longleftrightarrow> p AND f = 0 \<and> b AND f = (0 :: u32)"
  by (simp add: bit.conj_disj_distrib2 word_or_eq_0)

lemma apply_sink_fields:
  "apply_sink key v l c s = Inr s' \<Longrightarrow> sink_fields s \<Longrightarrow> sink_fields s'"
  by (auto simp: apply_sink_def sink_key_bit_def Let_def error_monad sink_fields_def or_flag_simps
      split: option.splits if_splits)

lemma apply_source_fields:
  "apply_source key v l c s = Inr s' \<Longrightarrow> source_fields s \<Longrightarrow> source_fields s'"
  by (auto simp: apply_source_def source_key_bit_def Let_def error_monad source_fields_def or_flag_simps
      split: option.splits if_splits)

lemma set_user_string_fields:
  "user_key_bit key = Some f \<Longrightarrow> user_string_bit f \<Longrightarrow> user_fields u \<Longrightarrow>
   user_fields (set_user_string f s (u\<lparr>us_present := us_present u OR f\<rparr>))"
  by (auto simp: user_key_bit_def user_string_bit_def set_user_string_def user_fields_def or_flag_simps
      split: if_splits)

lemma set_user_other_fields:
  "user_key_bit key = Some f \<Longrightarrow> \<not> user_string_bit f \<Longrightarrow> user_fields u \<Longrightarrow>
   user_fields (set_user_number f n (u\<lparr>us_present := us_present u OR f\<rparr>)) \<and>
   user_fields (u\<lparr>us_present := us_present u OR f, us_admin := b\<rparr>)"
  by (auto simp: user_key_bit_def user_string_bit_def set_user_number_def user_fields_def or_flag_simps
      split: if_splits)

lemma apply_user_fields:
  "apply_user key v l c u = Inr u' \<Longrightarrow> user_fields u \<Longrightarrow> user_fields u'"
  by (auto simp: apply_user_def Let_def error_monad set_user_string_fields set_user_other_fields
      split: option.splits if_splits)

lemma user_entry_fields:
  "user_entry e (u, p) = Inr (u', p') \<Longrightarrow> user_fields u \<Longrightarrow> user_fields u'"
  by (auto simp: user_entry_def Let_def error_monad set_user_string_fields set_user_other_fields
      split: option.splits if_splits)

lemma apply_seat_fields:
  "apply_seat key v l c s p = Inr (s', p') \<Longrightarrow> seat_fields s \<Longrightarrow> seat_fields s'"
  by (auto simp: apply_seat_def seat_key_bit_def Let_def error_monad seat_fields_def or_flag_simps
      split: option.splits if_splits)

lemma terminal_entry_fields:
  "terminal_entry e (a, p) = Inr (a', p') \<Longrightarrow> terminal_fields a \<Longrightarrow> terminal_fields a'"
  by (auto simp: terminal_entry_def terminal_key_bit_def set_terminal_string_def Let_def error_monad
      terminal_fields_def or_flag_simps split: option.splits if_splits)

lemma foldE_state_invariant:
  assumes "foldE f xs (a, p) = Inr (b, q)" and "P a"
    and "\<And>x a p b q. f x (a, p) = Inr (b, q) \<Longrightarrow> P a \<Longrightarrow> P b"
  shows "P b"
proof -
  have "P (fst (b, q))"
    by (rule foldE_invariant [OF assms(1), of "\<lambda>_ s. P (fst s)"]) (use assms in fastforce)+
  then show ?thesis by simp
qed

lemma zero_fields [simp]:
  "sink_fields zero_sink" "source_fields zero_source" "user_fields zero_user" "seat_fields zero_seat"
  "terminal_fields zero_assignment" "domain_fields zero_domain" "config_fields zero_config"
  by (simp_all add: sink_fields_def zero_sink_def source_fields_def zero_source_def user_fields_def
      zero_user_def seat_fields_def zero_seat_def terminal_fields_def zero_assignment_def
      domain_fields_def zero_domain_def config_fields_def zero_config_def)

lemma user_from_table_fields: "user_from_table v p = Inr (u, p') \<Longrightarrow> user_fields u"
  by (auto simp: user_from_table_def error_monad elim!: foldE_state_invariant [where P = user_fields]
      dest: user_entry_fields)

lemma domain_terminal_item_fields:
  "domain_terminal_item item (acc, p) = Inr (acc', p') \<Longrightarrow> list_all terminal_fields acc \<Longrightarrow>
   list_all terminal_fields acc'"
  by (auto simp: domain_terminal_item_def error_monad
      elim!: foldE_state_invariant [where P = terminal_fields] dest: terminal_entry_fields)

lemma domain_sink_item_fields:
  assumes "domain_sink_item item (acc, p) = Inr (acc', p')" and "list_all (\<lambda>s. dk_name s \<noteq> None) acc"
  shows "list_all (\<lambda>s. dk_name s \<noteq> None) acc'"
proof -
  obtain es where es: "require_kind ''logging_sinks'' item as_table ''inline table'' = Inr es"
    using assms(1) by (auto simp: domain_sink_item_def error_monad)
  show ?thesis
    using assms es
    by (cases "table_value es ''name''"; cases "table_value es ''level''"; cases "length es = 2")
      (auto simp: domain_sink_item_def error_monad)
qed
lemma domain_arrays_fields:
  "domain_sinks_from_array p v d = Inr (d', p') \<Longrightarrow> domain_fields d \<Longrightarrow> domain_fields d'"
  "domain_terminals_from_array p v d = Inr (d', p') \<Longrightarrow> domain_fields d \<Longrightarrow> domain_fields d'"
  "domain_users_from_array p v d = Inr (d', p') \<Longrightarrow> domain_fields d \<Longrightarrow> domain_fields d'"
proof -
  assume d: "domain_fields d"
  show "domain_fields d'" if sinks: "domain_sinks_from_array p v d = Inr (d', p')"
  proof -
    obtain items p1 sinks where s: "foldE domain_sink_item items ([], p1) = Inr (sinks, p')"
      and d': "d' = d\<lparr>dm_logging_sinks := sinks\<rparr>"
      using sinks by (auto simp: domain_sinks_from_array_def error_monad)
    have "list_all (\<lambda>s. dk_name s \<noteq> None) sinks"
      by (rule foldE_state_invariant [OF s]) (simp, rule domain_sink_item_fields)
    with d d' show ?thesis by (simp add: domain_fields_def)
  qed
  show "domain_fields d'" if terminals: "domain_terminals_from_array p v d = Inr (d', p')"
  proof -
    obtain items p1 ts where s: "foldE domain_terminal_item items ([], p1) = Inr (ts, p')"
      and d': "d' = d\<lparr>dm_terminals := ts\<rparr>"
      using terminals by (auto simp: domain_terminals_from_array_def error_monad)
    have "list_all terminal_fields ts"
      by (rule foldE_state_invariant [OF s]) (simp, rule domain_terminal_item_fields)
    with d d' show ?thesis by (simp add: domain_fields_def)
  qed
  show "domain_fields d'" if users: "domain_users_from_array p v d = Inr (d', p')"
  proof -
    obtain items p1 us where s: "foldE (\<lambda>item (users, p).
        bindE (user_from_table item p) (\<lambda>(u, p'). Inr (users @ [u], p'))) items ([], p1) = Inr (us, p')"
      and d': "d' = d\<lparr>dm_users := us\<rparr>"
      using users by (auto simp: domain_users_from_array_def error_monad)
    have "list_all user_fields us"
      by (rule foldE_state_invariant [OF s]) (auto simp: error_monad dest: user_from_table_fields)
    with d d' show ?thesis by (simp add: domain_fields_def)
  qed
qed

lemma domain_fields_present:
  "domain_fields d \<Longrightarrow> f AND DOMAIN_NAME = 0 \<Longrightarrow> f AND DOMAIN_PID1 = 0 \<Longrightarrow>
   domain_fields (d\<lparr>dm_present := dm_present d OR f\<rparr>)"
  by (auto simp: domain_fields_def or_flag_simps)

lemma domain_enum_fields: "domain_enum key v f d = Inr d' \<Longrightarrow> domain_fields d \<Longrightarrow> domain_fields d'"
  by (auto simp: domain_enum_def error_monad domain_fields_def split: if_splits)

lemma apply_domain_fields:
  assumes "apply_domain key v l c d p = Inr (d', p')" and "domain_fields d"
  shows "domain_fields d'"
proof -
  obtain f where f: "domain_key_bit key = Some f"
    using assms(1) by (auto simp: apply_domain_def split: option.splits)
  show ?thesis
  proof (cases "f = DOMAIN_NAME \<or> f = DOMAIN_PID1")
    case True
    then show ?thesis
      using assms f by (auto simp: apply_domain_def Let_def error_monad domain_fields_def or_flag_simps
          split: if_splits)
  next
    case False
    then have "f AND DOMAIN_NAME = 0" "f AND DOMAIN_PID1 = 0"
      using f by (auto simp: domain_key_bit_def split: if_splits)
    then have d: "domain_fields (d\<lparr>dm_present := dm_present d OR f\<rparr>)"
      using assms(2) by (rule domain_fields_present [rotated])
    have keep: "domain_fields (e\<lparr>dm_authentication_source := a\<rparr>) = domain_fields e"
      "domain_fields (e\<lparr>dm_initrd := a\<rparr>) = domain_fields e"
      "domain_fields (e\<lparr>dm_id := n\<rparr>) = domain_fields e" for e a n
      by (simp_all add: domain_fields_def)
    show ?thesis
      using False assms(1) f d
      by (auto simp: apply_domain_def Let_def error_monad keep
          dest: domain_arrays_fields domain_enum_fields split: if_splits)
  qed
qed

lemma list_all_update: "list_all P xs \<Longrightarrow> P x \<Longrightarrow> list_all P (xs[i := x])"
  by (auto simp: list_all_iff dest!: set_update_subset_insert [THEN subsetD])

lemma list_all_nth: "list_all P xs \<Longrightarrow> i < length xs \<Longrightarrow> P (xs ! i)"
  by (simp add: list_all_length)

lemma lexes_keeps_config:
  "lexes k p r \<Longrightarrow> r = Inr (x, p') \<Longrightarrow>
   p_config p' = p_config p \<and> p_section p' = p_section p \<and> p_section_index p' = p_section_index p"
  by (auto dest: lexes_InrD simp: lexed_def)

lemma apply_section_ok:
  assumes "apply_section key v l c p = Inr p'" and "parser_ok p"
  shows "parser_ok p'"
proof -
  let ?c = "p_config p" and ?i = "p_section_index p"
  have c: "config_fields ?c" and i: "section_in_range p" using assms(2) by (auto simp: parser_ok_def)
  show ?thesis
  proof (cases "p_section p")
    case SECTION_FACET
    then show ?thesis
      using assms(1) c by (auto simp: apply_section_def apply_facet_def Let_def error_monad parser_ok_def
          section_in_range_def config_fields_def split: if_splits)
  next
    case SECTION_LOGGING_SINK
    then obtain x where "apply_sink key v l c (sc_logging_sinks ?c ! ?i) = Inr x"
      "p' = p\<lparr>p_config := ?c\<lparr>sc_logging_sinks := (sc_logging_sinks ?c)[?i := x]\<rparr>\<rparr>"
      using assms(1) by (auto simp: apply_section_def Let_def error_monad)
    with SECTION_LOGGING_SINK c i show ?thesis
      by (auto simp: parser_ok_def config_fields_def section_in_range_def
          intro!: list_all_update dest: apply_sink_fields list_all_nth)
  next
    case SECTION_AUTHENTICATION_SOURCE
    then obtain x where "apply_source key v l c (sc_authentication_sources ?c ! ?i) = Inr x"
      "p' = p\<lparr>p_config := ?c\<lparr>sc_authentication_sources := (sc_authentication_sources ?c)[?i := x]\<rparr>\<rparr>"
      using assms(1) by (auto simp: apply_section_def Let_def error_monad)
    with SECTION_AUTHENTICATION_SOURCE c i show ?thesis
      by (auto simp: parser_ok_def config_fields_def section_in_range_def
          intro!: list_all_update dest: apply_source_fields list_all_nth)
  next
    case SECTION_USER
    then obtain x where "apply_user key v l c (sc_users ?c ! ?i) = Inr x"
      "p' = p\<lparr>p_config := ?c\<lparr>sc_users := (sc_users ?c)[?i := x]\<rparr>\<rparr>"
      using assms(1) by (auto simp: apply_section_def Let_def error_monad)
    with SECTION_USER c i show ?thesis
      by (auto simp: parser_ok_def config_fields_def section_in_range_def
          intro!: list_all_update dest: apply_user_fields list_all_nth)
  next
    case SECTION_SEAT
    then obtain x q where x: "apply_seat key v l c (sc_seats ?c ! ?i) p = Inr (x, q)"
      "p' = q\<lparr>p_config := ?c\<lparr>sc_seats := (sc_seats ?c)[?i := x]\<rparr>\<rparr>"
      using assms(1) by (auto simp: apply_section_def Let_def error_monad)
    with SECTION_SEAT c i lexes_keeps_config [OF lexes_apply_seat x(1)] show ?thesis
      by (auto simp: parser_ok_def config_fields_def section_in_range_def
          intro!: list_all_update dest: apply_seat_fields list_all_nth)
  next
    case SECTION_DOMAIN
    then obtain x q where x: "apply_domain key v l c (sc_domains ?c ! ?i) p = Inr (x, q)"
      "p' = q\<lparr>p_config := ?c\<lparr>sc_domains := (sc_domains ?c)[?i := x]\<rparr>\<rparr>"
      using assms(1) by (auto simp: apply_section_def Let_def error_monad)
    with SECTION_DOMAIN c i lexes_keeps_config [OF lexes_apply_domain x(1)] show ?thesis
      by (auto simp: parser_ok_def config_fields_def section_in_range_def
          intro!: list_all_update dest: apply_domain_fields list_all_nth)
  qed (use assms(1) in \<open>simp add: apply_section_def Let_def\<close>)
qed
lemma enter_section_ok:
  assumes "enter_section a n l c p = Inr p'" and "parser_ok p"
  shows "parser_ok p'"
  using assms
  by (auto simp: enter_section_def Let_def grow_array_def error_monad parser_ok_def config_fields_def
      section_in_range_def dest!: parser_alloc_InrD split: if_splits)

lemma parser_ok_lexed: "lexed p p' \<Longrightarrow> parser_ok p \<Longrightarrow> parser_ok p'"
  by (simp add: lexed_def parser_ok_def section_in_range_def)

lemma consume_entry_ok: "consume_entry p l c s = Inr p' \<Longrightarrow> parser_ok p \<Longrightarrow> parser_ok p'"
  by (auto simp: consume_entry_def parser_ok_def section_in_range_def split: if_splits)

lemma parse_header_ok:
  assumes "parse_header p = Inr p'" and "parser_ok p"
  shows "parser_ok p'"
proof -
  define a where "a = (current (advance p) = Some CHR ''['')"
  define p2 where "p2 = skip_space_and_comments False (if a then advance (advance p) else advance p)"
  have p2: "lexed p p2" unfolding p2_def by (rule lexed_header_start)
  obtain name p3 where key: "parse_key p2 = Inr (name, p3)"
    using assms(1) unfolding parse_header_def Let_def a_def [symmetric] p2_def [symmetric]
    by (auto simp: bindE_eq_Inr)
  obtain b p4 where close: "close_header a (skip_space_and_comments False p3) = (b, p4)"
    by (cases "close_header a (skip_space_and_comments False p3)")
  have "bindE (consume_entry p4 (p_line p2) (p_column p2) name)
      (enter_section a name (p_line p2) (p_column p2)) = Inr p'"
    using assms(1) key close unfolding parse_header_def Let_def a_def [symmetric] p2_def [symmetric]
    by (simp split: if_splits)
  moreover have "lexed p p4"
    using p2 lexes_InrD [OF lexes_parse_key key] lexed_close_header [OF close] lexed_skip lexed_trans by blast
  ultimately show ?thesis
    using assms(2) by (auto simp: bindE_eq_Inr dest: parser_ok_lexed consume_entry_ok enter_section_ok)
qed

lemma parse_assignment_ok:
  assumes "parse_assignment fuel p = Inr p'" and "parser_ok p" and "2 * length (p_rest p) < fuel"
  shows "parser_ok p'"
proof -
  obtain key p1 q v p3 where key: "parse_key p = Inr (key, p1)"
    and q: "q = skip_space_and_comments False (advance (skip_space_and_comments False p1))"
    and v: "parse_value fuel q 0 = Inr (v, p3)"
    and ap: "apply_value p3 key v (p_line p) (p_column p) = Inr p'"
    using assms(1) by (auto simp: parse_assignment_def take_char_def error_monad split: if_splits)
  have pq: "lexed p q"
    using lexes_InrD [OF lexes_parse_key key] lexed_trans [OF lexed_skip lexed_skip_advance] lexed_trans
    unfolding q by blast
  then have "2 * length (p_rest q) < fuel" using assms(3) by (auto simp: lexed_def)
  from lexes_InrD [OF parse_value_consumes(1) [OF this] v] have "lexed p p3"
    using pq lexed_trans by blast
  then show ?thesis
    using ap assms(2) by (auto simp: apply_value_def error_monad
        dest: parser_ok_lexed consume_entry_ok apply_section_ok)
qed

lemma end_of_line_lexed: "end_of_line p = Inr p' \<Longrightarrow> lexed p p'"
  by (auto simp: end_of_line_def Let_def split: if_splits
      intro: lexed_trans [OF lexed_skip] lexed_trans [OF lexed_skip lexed_skip])

lemma parse_statement_ok:
  assumes "parse_statement fuel p = Inr p'" and "parser_ok p" and "2 * length (p_rest p) < fuel"
  shows "parser_ok p'"
  using assms
  by (auto simp: parse_statement_def error_monad split: if_splits
      dest!: end_of_line_lexed dest: parse_header_ok parse_assignment_ok parser_ok_lexed)

lemma statement_loop_ok:
  assumes "statement_loop n fuel p = Inr p'" and "parser_ok p" and "2 * length (p_rest p) < fuel"
  shows "parser_ok p'"
  using assms
proof (induction n arbitrary: p)
  case (Suc n)
  show ?case
  proof (cases "current p")
    case (Some c)
    then obtain q where q: "parse_statement fuel p = Inr q" "statement_loop n fuel q = Inr p'"
      using Suc.prems(1) by (auto simp: statement_loop.simps error_monad)
    have "length (p_rest q) < length (p_rest p)"
      using steps_parse_statement [OF Suc.prems(3)] q(1) by (simp add: steps_def)
    with Suc.IH [OF q(2)] Suc.prems q parse_statement_ok show ?thesis by fastforce
  qed (use Suc.prems in \<open>simp add: statement_loop.simps\<close>)
qed (simp add: statement_loop.simps)

section \<open>Validation dereferences no NULL pointer\<close>

lemma deref_Some [simp]: "deref (Some s) = Inr s"
  by (simp add: deref_def)

lemma strcmp_eq_Some [simp]: "strcmp_eq (Some a) (Some b) = Inr (a = b)"
  by (simp add: strcmp_eq_def)

lemma diag_only_errors [simp]:
  "diag_only (schema_error c m)" "diag_only (duplicate_error (Some s) m)" "diag_only (unresolved_error (Some s) m)"
  by (simp_all add: schema_error_def duplicate_error_def unresolved_error_def)

lemma diag_only_foldE:
  assumes "P s" and "\<And>x s. x \<in> set xs \<Longrightarrow> P s \<Longrightarrow> diag_only (f x s)"
    and "\<And>x s s'. x \<in> set xs \<Longrightarrow> P s \<Longrightarrow> f x s = Inr s' \<Longrightarrow> P s'"
  shows "diag_only (foldE f xs s)"
  using assms
proof (induction xs arbitrary: s)
  case (Cons x xs)
  show ?case
    unfolding foldE.simps
  proof (rule diag_only_bind)
    show "diag_only (f x s)" using Cons.prems by simp
    fix s' assume "f x s = Inr s'"
    then have "P s'" using Cons.prems(3) [of x s s'] Cons.prems(1) by simp
    then show "diag_only (foldE f xs s')" by (rule Cons.IH) (auto intro: Cons.prems)
  qed
qed simp

lemma diag_only_checkE:
  "(\<And>x. x \<in> set xs \<Longrightarrow> diag_only (f x)) \<Longrightarrow> diag_only (checkE f xs)"
  unfolding checkE_def by (rule diag_only_foldE [where P = "\<lambda>_. True"]) auto

lemma mem_SomeE:
  assumes "t \<in> set ts" and "None \<notin> set ts"
  obtains b where "t = Some b"
proof (cases t)
  case None
  with assms show ?thesis by simp
qed

lemma diag_only_reject_equal:
  assumes "diag_only failure" and "s \<noteq> None" and "None \<notin> set ts"
  shows "diag_only (reject_equal failure s ts)"
  unfolding reject_equal_def
proof (rule diag_only_checkE)
  fix t assume "t \<in> set ts"
  then obtain a b where "s = Some a" "t = Some b" using assms(2,3) by (auto elim: mem_SomeE)
  then show "diag_only (bindE (strcmp_eq s t) (\<lambda>same. if same then failure else Inr ()))"
    using assms(1) by simp
qed

lemma diag_only_scanE:
  assumes "\<And>ys x. set ys \<subseteq> {y. Q y} \<Longrightarrow> x \<in> set xs \<Longrightarrow> diag_only (f ys x)"
    and "\<And>ys x y. set ys \<subseteq> {y. Q y} \<Longrightarrow> x \<in> set xs \<Longrightarrow> f ys x = Inr y \<Longrightarrow> Q y"
  shows "diag_only (scanE f xs)"
  unfolding scanE_def
  by (rule diag_only_foldE [where P = "\<lambda>ys. set ys \<subseteq> {y. Q y}"])
    (use assms in \<open>auto simp: error_monad intro!: diag_only_bind\<close>)

lemma scanE_all:
  assumes "scanE f xs = Inr ys" and "\<And>zs x y. f zs x = Inr y \<Longrightarrow> x \<in> set xs \<Longrightarrow> Q y"
  shows "\<forall>y \<in> set ys. Q y"
  using scanE_InrD [OF assms(1)] assms(2) by (metis in_set_conv_nth nth_mem)

lemma required_bit:
  assumes "p AND m = m" and "m AND b = b" and "b \<noteq> (0 :: u32)"
  shows "p AND b \<noteq> 0"
  using word_and_mask_subset [OF assms(1,2)] assms(3) by simp

lemma diag_only_find_strcmp:
  assumes "s \<noteq> None" and "None \<notin> set ts"
  shows "diag_only (find_strcmp s ts)"
  using assms(2)
proof (induction ts)
  case (Cons t ts)
  then obtain a b where "s = Some a" "t = Some b" using assms(1) by (cases t) auto
  with Cons show ?case by (auto intro!: diag_only_bind)
qed simp

lemma diag_only_any_strcmp:
  assumes "s \<noteq> None" and "None \<notin> set ts"
  shows "diag_only (any_strcmp s ts)"
  unfolding any_strcmp_def
proof (rule diag_only_foldE [where P = "\<lambda>_. True"])
  fix t found assume "t \<in> set ts"
  then obtain a b where "s = Some a" "t = Some b" using assms by (auto elim: mem_SomeE)
  then show "diag_only (bindE (strcmp_eq s t) (\<lambda>same. Inr (found \<or> same)))" by simp
qed simp_all

lemma names_neq_None: "set ys \<subseteq> {y. name y \<noteq> None} \<Longrightarrow> None \<notin> set (map name ys)"
  by force

lemma check_sink_diag:
  assumes "sink_fields s" and "set prev \<subseteq> {y. ls_name y \<noteq> None}"
  shows "diag_only (check_sink prev s)"
proof (cases "ls_present s AND (SINK_NAME OR SINK_TYPE OR SINK_REQUIRED) = SINK_NAME OR SINK_TYPE OR SINK_REQUIRED")
  case True
  note bits = required_bit [OF True, of SINK_NAME] required_bit [OF True, of SINK_TYPE]
  then obtain n t where nt: "ls_name s = Some n" "ls_type s = Some t"
    using assms(1) by (auto simp: sink_fields_def)
  then show ?thesis
    using True diag_only_reject_equal [OF _ _ names_neq_None [OF assms(2)]]
    by (auto simp: check_sink_def intro!: diag_only_bind)
qed (simp add: check_sink_def)

lemma check_sink_InrD: "check_sink prev s = Inr s' \<Longrightarrow> s' = s \<and> ls_name s \<noteq> None"
  by (auto simp: check_sink_def Let_def error_monad deref_def schema_error_def split: if_splits option.splits)

lemma check_source_diag:
  assumes "source_fields s" and "set prev \<subseteq> {y. au_name y \<noteq> None}"
  shows "diag_only (check_source prev s)"
proof (cases "au_present s AND (AUTH_NAME OR AUTH_PROVIDER_DOMAIN OR AUTH_TYPE OR AUTH_REQUIRED) =
    AUTH_NAME OR AUTH_PROVIDER_DOMAIN OR AUTH_TYPE OR AUTH_REQUIRED")
  case True
  note bits = required_bit [OF True, of AUTH_NAME] required_bit [OF True, of AUTH_TYPE]
  then obtain n t where nt: "au_name s = Some n" "au_type s = Some t"
    using assms(1) by (auto simp: source_fields_def)
  then show ?thesis
    using True diag_only_reject_equal [OF _ _ names_neq_None [OF assms(2)]]
    by (auto simp: check_source_def intro!: diag_only_bind)
qed (simp add: check_source_def)

lemma check_source_InrD: "check_source prev s = Inr s' \<Longrightarrow> s' = s \<and> au_name s \<noteq> None"
  by (auto simp: check_source_def Let_def error_monad deref_def schema_error_def split: if_splits option.splits)

lemma check_seat_terminal_diag: "diag_only (check_seat_terminal n prev t)"
  by (simp add: check_seat_terminal_def)

lemma check_seat_diag:
  assumes "seat_fields s" and "set prev \<subseteq> {y. st_name y \<noteq> None}"
  shows "diag_only (check_seat prev s)"
proof (cases "st_present s AND (SEAT_NAME OR SEAT_TYPE OR SEAT_SERVER OR SEAT_TERMINALS) =
    SEAT_NAME OR SEAT_TYPE OR SEAT_SERVER OR SEAT_TERMINALS")
  case True
  note bits = required_bit [OF True, of SEAT_NAME] required_bit [OF True, of SEAT_SERVER]
  then obtain n t where nt: "st_name s = Some n" "st_server s = Some t"
    using assms(1) by (auto simp: seat_fields_def)
  have "diag_only (scanE (check_seat_terminal n) (st_terminals s))"
    by (rule diag_only_scanE [where Q = "\<lambda>_. True"]) (auto simp: check_seat_terminal_diag)
  with nt show ?thesis
    using True diag_only_reject_equal [OF _ _ names_neq_None [OF assms(2)]]
    by (auto simp: check_seat_def intro!: diag_only_bind)
qed (simp add: check_seat_def)

lemma check_seat_InrD: "check_seat prev s = Inr s' \<Longrightarrow> s' = s \<and> st_name s \<noteq> None"
  by (auto simp: check_seat_def Let_def error_monad deref_def schema_error_def split: if_splits option.splits)

lemma validate_user_diag:
  assumes "user_fields u"
  shows "diag_only (validate_user u c)"
proof (cases "us_present u AND (USER_NAME OR USER_PASSWORD_HASH OR USER_ADMIN OR USER_UID OR USER_GID OR USER_HOME_PATH)
   = USER_NAME OR USER_PASSWORD_HASH OR USER_ADMIN OR USER_UID OR USER_GID OR USER_HOME_PATH")
  case True
  from required_bit [OF True, of USER_HOME_PATH] obtain h where "us_home_path u = Some h"
    using assms by (auto simp: user_fields_def)
  with True show ?thesis by (simp add: validate_user_def)
qed (simp add: validate_user_def)

lemma validate_user_InrD: "validate_user u c = Inr x \<Longrightarrow> us_name u \<noteq> None"
  by (auto simp: validate_user_def Let_def schema_error_def split: if_splits)

lemma check_global_user_diag:
  assumes "user_fields u" and "set (fst acc) \<subseteq> {y. us_name y \<noteq> None}"
  shows "diag_only (check_global_user u acc)"
proof -
  obtain prev found where acc: "acc = (prev, found)" by (cases acc)
  show ?thesis
    unfolding acc check_global_user_def prod.case
  proof (rule diag_only_bind [OF validate_user_diag [OF assms(1)]])
    fix x assume "validate_user u ''users'' = Inr x"
    then obtain n where n: "us_name u = Some n" by (auto dest: validate_user_InrD)
    with assms(2) diag_only_reject_equal [OF _ _ names_neq_None, of _ "Some n" prev us_name]
    show "diag_only (bindE (reject_equal (duplicate_error (us_name u) ''duplicate global user'')
        (us_name u) (map us_name prev)) (\<lambda>_. bindE (deref (us_name u)) (\<lambda>name.
        if name = ''root'' then
          if \<not> us_admin u \<or> us_uid u \<noteq> 0 \<or> us_gid u \<noteq> 0 \<or> us_password_hash u \<noteq> Some root_password_hash
          then schema_error ''root''
               ''root must be uid/gid 0, admin, with the required development password hash''
          else Inr (prev @ [u], True)
        else Inr (prev @ [u], found))))"
      by (auto simp: acc intro!: diag_only_bind)
  qed
qed

lemma check_global_user_InrD:
  "check_global_user u (prev, found) = Inr (prev', found') \<Longrightarrow> prev' = prev @ [u] \<and> us_name u \<noteq> None"
  by (auto simp: check_global_user_def error_monad schema_error_def dest: validate_user_InrD split: if_splits)

lemma check_domain_user_diag:
  assumes "user_fields u" and "set prev \<subseteq> {y. us_name y \<noteq> None}" and "None \<notin> set (map us_name (sc_users c))"
  shows "diag_only (check_domain_user c d prev u)"
  unfolding check_domain_user_def
proof (rule diag_only_bind [OF validate_user_diag [OF assms(1)]])
  fix x assume "validate_user u d = Inr x"
  then obtain n where n: "us_name u = Some n" by (auto dest: validate_user_InrD)
  show "diag_only (bindE (reject_equal (duplicate_error (us_name u) ''domain user duplicates global user'')
      (us_name u) (map us_name (sc_users c))) (\<lambda>_.
     bindE (reject_equal (duplicate_error (us_name u) ''duplicate domain user'')
              (us_name u) (map us_name prev)) (\<lambda>_. Inr u)))"
    using n assms(3) names_neq_None [OF assms(2)]
    by (intro diag_only_bind diag_only_reject_equal) auto
qed

lemma check_domain_user_InrD: "check_domain_user c d prev u = Inr u' \<Longrightarrow> u' = u \<and> us_name u \<noteq> None"
  by (auto simp: check_domain_user_def error_monad dest: validate_user_InrD)

lemma resolve_sink_use_diag:
  assumes "dk_name s \<noteq> None" and "set prev \<subseteq> {y. dk_name y \<noteq> None}"
    and "None \<notin> set (map ls_name (sc_logging_sinks c))"
  shows "diag_only (resolve_sink_use c prev s)"
  unfolding resolve_sink_use_def
  using assms(1) names_neq_None [OF assms(2)]
  by (intro diag_only_bind diag_only_find_strcmp [OF assms(1,3)])
    (auto split: option.split intro!: diag_only_bind diag_only_reject_equal)

lemma resolve_sink_use_InrD: "resolve_sink_use c prev s = Inr s' \<Longrightarrow> \<exists>k. s' = s\<lparr>dk_sink_definition_index := k\<rparr>"
  by (auto simp: resolve_sink_use_def error_monad unresolved_error_def split: option.splits)

lemma check_run_as_diag:
  assumes "None \<notin> set (map us_name (sc_users c))" and "None \<notin> set (map us_name (dm_users d))"
  shows "diag_only (check_run_as c d a)"
proof (cases "ta_run_as a")
  case (Some r)
  then have "ta_run_as a \<noteq> None" by simp
  from diag_only_any_strcmp [OF this assms(1)] diag_only_any_strcmp [OF this assms(2)] Some
  show ?thesis unfolding check_run_as_def by (auto intro!: diag_only_bind)
qed (simp add: check_run_as_def)

lemma find_terminal_diag:
  assumes "None \<notin> set (map st_name (sc_seats c))"
  shows "diag_only (find_terminal c n t)"
  unfolding find_terminal_def
proof (rule diag_only_foldE [where P = "\<lambda>_. True"])
  fix x found assume "x \<in> set (List.enumerate 0 (sc_seats c))"
  then have "snd x \<in> set (sc_seats c)"
    using nth_mem [of "fst x" "sc_seats c"] by (simp add: in_set_enumerate_eq)
  then have "st_name (snd x) \<noteq> None" using assms by force
  then show "diag_only ((case x of (k, seat) \<Rightarrow> \<lambda>found. bindE (deref (st_name seat)) (\<lambda>name.
      if name \<noteq> n then Inr found
      else case first_index ((=) t) (st_terminals seat) of None \<Rightarrow> Inr found
        | Some m \<Rightarrow> Inr (Some (k, m)))) found)"
    by (cases x) (auto split: option.split)
qed simp_all

lemma expected_reference: "expected_terminal_bits q AND TERMINAL_REFERENCE = TERMINAL_REFERENCE"
  by (simp add: expected_terminal_bits_def)

lemma expected_bits_subset:
  assumes "p = e \<or> p = (e OR r)" and "e AND b = b" and "b \<noteq> (0 :: u32)"
  shows "p AND b \<noteq> 0"
  using assms by (auto simp: or_flag_simps)

lemma assign_terminal_diag:
  assumes "None \<notin> set (map st_name (sc_seats c))" and "ta_reference a \<noteq> None"
  shows "diag_only (assign_terminal c ds prev a)"
proof -
  obtain r where r: "ta_reference a = Some r" using assms(2) by auto
  have "diag_only (bindE (find_terminal c s t) f)" if "\<And>x. diag_only (f x)"
    for s t and f :: "(nat \<times> nat) option \<Rightarrow> FacetConfigTerminalAssignment cfg"
    using that by (intro diag_only_bind find_terminal_diag assms(1))
  then show ?thesis by (auto simp: assign_terminal_def r split: option.split)
qed

lemma resolve_terminal_diag:
  assumes a: "terminal_fields a" and name: "dm_name d \<noteq> None"
    and prev: "dm_personality d = FACET_CONFIG_PERSONALITY_POSIX \<Longrightarrow> set prev \<subseteq> {y. ta_device_name y \<noteq> None}"
    and users: "None \<notin> set (map us_name (sc_users c))" "None \<notin> set (map us_name (dm_users d))"
    and seats: "None \<notin> set (map st_name (sc_seats c))"
  shows "diag_only (resolve_terminal c ds d prev a)"
proof -
  let ?e = "expected_terminal_bits (dm_personality d)"
  obtain n where n: "dm_name d = Some n" using name by auto
  show ?thesis
  proof (cases "ta_present a = ?e \<or> ta_present a = (?e OR TERMINAL_RUN_AS)")
    case True
    from expected_bits_subset [OF True expected_reference] obtain r where r: "ta_reference a = Some r"
      using a by (auto simp: terminal_fields_def)
    have dev: "ta_device_name a \<noteq> None" if "dm_personality d = FACET_CONFIG_PERSONALITY_POSIX"
      using expected_bits_subset [OF True, of TERMINAL_DEVICE] that a
      by (simp add: expected_terminal_bits_def terminal_fields_def)
    have "diag_only (check_device d prev a)"
      using dev names_neq_None [OF prev] by (auto simp: check_device_def intro!: diag_only_reject_equal)
    then have "diag_only (bindE (check_run_as c d a) (\<lambda>_. bindE (check_device d prev a)
        (\<lambda>_. assign_terminal c ds prev a)))"
      using r by (intro diag_only_bind check_run_as_diag users assign_terminal_diag seats) auto
    with True r show ?thesis by (simp add: resolve_terminal_def Let_def n)
  next
    case False
    then show ?thesis by (simp add: resolve_terminal_def Let_def n)
  qed
qed

lemma assign_terminal_InrE:
  assumes "assign_terminal c ds prev a = Inr a'"
  obtains r s t k m where "ta_reference a = Some r" "split_reference r = Some (s, t)"
    "find_terminal c s t = Inr (Some (k, m))"
    "\<not> list_ex (\<lambda>other. ta_seat_index other = k \<and> ta_terminal_index other = m)
       (concat (map dm_terminals ds) @ prev)"
    "a' = a\<lparr>ta_seat_index := k, ta_terminal_index := m\<rparr>"
proof -
  obtain r where r: "ta_reference a = Some r"
    using assms by (auto simp: assign_terminal_def error_monad deref_def split: option.splits)
  obtain s t where st: "split_reference r = Some (s, t)"
    using assms r by (cases "split_reference r") (auto simp: assign_terminal_def schema_error_def)
  obtain found where found: "find_terminal c s t = Inr found"
    using assms r st by (auto simp: assign_terminal_def error_monad)
  with assms r st obtain k m where "found = Some (k, m)"
    by (cases found) (auto simp: assign_terminal_def unresolved_error_def)
  with assms r st found show ?thesis
    by (intro that [of r s t k m]) (auto simp: assign_terminal_def duplicate_error_def split: if_splits)
qed

lemma resolve_terminal_InrD:
  assumes "resolve_terminal c ds d prev a = Inr a'" and "terminal_fields a"
  shows "dm_personality d = FACET_CONFIG_PERSONALITY_POSIX \<longrightarrow> ta_device_name a' \<noteq> None"
    and "\<exists>k m. a' = a\<lparr>ta_seat_index := k, ta_terminal_index := m\<rparr>"
proof -
  let ?e = "expected_terminal_bits (dm_personality d)"
  have bits: "ta_present a = ?e \<or> ta_present a = (?e OR TERMINAL_RUN_AS)"
    using assms(1) by (auto simp: resolve_terminal_def Let_def error_monad schema_error_def split: if_splits)
  show a': "\<exists>k m. a' = a\<lparr>ta_seat_index := k, ta_terminal_index := m\<rparr>"
    using assms(1) by (auto simp: resolve_terminal_def Let_def error_monad schema_error_def
        split: if_splits elim!: assign_terminal_InrE)
  show "dm_personality d = FACET_CONFIG_PERSONALITY_POSIX \<longrightarrow> ta_device_name a' \<noteq> None"
    using expected_bits_subset [OF bits, of TERMINAL_DEVICE] a' assms(2)
    by (auto simp: expected_terminal_bits_def terminal_fields_def)
qed

lemma check_domain_identity_diag:
  "dm_name d \<noteq> None \<Longrightarrow> dm_name e \<noteq> None \<Longrightarrow> diag_only (check_domain_identity d e)"
  by (auto simp: check_domain_identity_def)

definition named_domain :: "FacetConfigDomain \<Rightarrow> bool" where
  "named_domain d \<longleftrightarrow> dm_name d \<noteq> None \<and> dm_initrd d \<noteq> None"

lemma check_domain_fields_diag:
  assumes "domain_fields d" and "set prev \<subseteq> {y. named_domain y}"
    and "None \<notin> set (map us_name (sc_users c))"
  shows "diag_only (check_domain_fields c prev d)"
proof (cases "dm_present d AND (DOMAIN_ID OR DOMAIN_NAME OR DOMAIN_PERSONALITY OR DOMAIN_MANAGER OR
    DOMAIN_SINKS OR DOMAIN_TERMINALS OR DOMAIN_INITRD) = DOMAIN_ID OR DOMAIN_NAME OR DOMAIN_PERSONALITY OR
    DOMAIN_MANAGER OR DOMAIN_SINKS OR DOMAIN_TERMINALS OR DOMAIN_INITRD")
  case True
  from required_bit [OF True, of DOMAIN_NAME] obtain n where n: "dm_name d = Some n"
    using assms(1) by (auto simp: domain_fields_def)
  have "diag_only (scanE (check_domain_user c n) (dm_users d))"
  proof (rule diag_only_scanE [where Q = "\<lambda>u. us_name u \<noteq> None"])
    show "diag_only (check_domain_user c n ys x)" if "set ys \<subseteq> {y. us_name y \<noteq> None}" "x \<in> set (dm_users d)"
      for ys x
      using that assms by (intro check_domain_user_diag) (auto simp: domain_fields_def list_all_iff)
  qed (auto dest: check_domain_user_InrD)
  moreover have "diag_only (checkE (check_domain_identity d) prev)"
    using n assms(2) by (intro diag_only_checkE check_domain_identity_diag) (auto simp: named_domain_def)
  moreover have "None \<notin> set (map dm_initrd prev)"
    using assms(2) by (intro names_neq_None) (auto simp: named_domain_def)
  ultimately have "dm_initrd d \<noteq> None \<Longrightarrow>
      diag_only (bindE (reject_equal (duplicate_error (dm_initrd d) m) (dm_initrd d) (map dm_initrd prev)) (\<lambda>_.
      bindE (scanE (check_domain_user c n) (dm_users d)) (\<lambda>_.
      if dm_personality d = FACET_CONFIG_PERSONALITY_VM then schema_error n m' 
      else checkE (check_domain_identity d) prev)))" for m m'
    by (intro diag_only_bind diag_only_reject_equal) auto
  with True n show ?thesis by (simp add: check_domain_fields_def)
qed (simp add: check_domain_fields_def)

lemma check_domain_fields_InrD:
  assumes "check_domain_fields c prev d = Inr u"
  shows "named_domain d" and "None \<notin> set (map us_name (dm_users d))"
    and "dm_present d AND DOMAIN_NAME \<noteq> 0"
proof -
  let ?r = "DOMAIN_ID OR DOMAIN_NAME OR DOMAIN_PERSONALITY OR DOMAIN_MANAGER OR
    DOMAIN_SINKS OR DOMAIN_TERMINALS OR DOMAIN_INITRD"
  have r: "dm_present d AND ?r = ?r"
    using assms by (auto simp: check_domain_fields_def schema_error_def split: if_splits)
  show "dm_present d AND DOMAIN_NAME \<noteq> 0" by (rule required_bit [OF r]) simp_all
  obtain n us where n: "dm_name d = Some n" "dm_initrd d \<noteq> None"
    and us: "scanE (check_domain_user c n) (dm_users d) = Inr us"
    using assms by (auto simp: check_domain_fields_def error_monad deref_def schema_error_def
        split: if_splits option.splits)
  then show "named_domain d" by (simp add: named_domain_def)
  have "\<forall>i < length (dm_users d). us_name (dm_users d ! i) \<noteq> None"
    using scanE_InrD(2) [OF us] by (auto dest!: check_domain_user_InrD)
  then show "None \<notin> set (map us_name (dm_users d))" by (fastforce simp: in_set_conv_nth)
qed

lemma check_domain_shape_diag:
  assumes "domain_fields d" and "dm_name d \<noteq> None"
  shows "diag_only (check_domain_shape d)"
proof -
  obtain n where "dm_name d = Some n" using assms(2) by auto
  with assms(1) show ?thesis
    by (cases "dm_present d AND DOMAIN_PID1 = 0") (auto simp: check_domain_shape_def domain_fields_def)
qed

lemma resolve_authentication_diag:
  assumes "None \<notin> set (map au_name (sc_authentication_sources c))"
  shows "diag_only (resolve_authentication c d)"
proof (cases "dm_authentication_source d")
  case (Some s)
  then have "diag_only (find_strcmp (dm_authentication_source d) (map au_name (sc_authentication_sources c)))"
    using assms by (intro diag_only_find_strcmp) simp_all
  then show ?thesis
    using Some by (auto simp: resolve_authentication_def split: option.split intro!: diag_only_bind)
qed (simp add: resolve_authentication_def)

lemma resolve_authentication_InrD:
  "resolve_authentication c d = Inr d' \<Longrightarrow> \<exists>j. d' = d \<or> d' = d\<lparr>dm_authentication_source_index := j\<rparr>"
  by (auto simp: resolve_authentication_def error_monad unresolved_error_def split: if_splits option.splits)

text \<open>What the earlier phases have established of the other tables.\<close>

definition named_tables :: "FacetSystemConfig \<Rightarrow> bool" where
  "named_tables c \<longleftrightarrow>
     None \<notin> set (map ls_name (sc_logging_sinks c)) \<and> None \<notin> set (map st_name (sc_seats c)) \<and>
     None \<notin> set (map au_name (sc_authentication_sources c)) \<and> None \<notin> set (map us_name (sc_users c))"

lemma check_domain_diag:
  assumes d: "domain_fields d" and prev: "set prev \<subseteq> {y. named_domain y}" and c: "named_tables c"
  shows "diag_only (check_domain c prev d)"
  unfolding check_domain_def
proof (rule diag_only_bind)
  show "diag_only (check_domain_fields c prev d)"
    using d prev c by (intro check_domain_fields_diag) (auto simp: named_tables_def)
  fix u assume fields: "check_domain_fields c prev d = Inr u"
  note fd = check_domain_fields_InrD [OF fields]
  have sinks: "diag_only (scanE (resolve_sink_use c) (dm_logging_sinks d))"
    by (rule diag_only_scanE [where Q = "\<lambda>s. dk_name s \<noteq> None"])
      (use d c in \<open>auto simp: domain_fields_def list_all_iff named_tables_def
        intro!: resolve_sink_use_diag dest!: resolve_sink_use_InrD\<close>)
  have terminals: "diag_only (scanE (resolve_terminal c prev d) (dm_terminals d))"
    by (rule diag_only_scanE [where Q = "\<lambda>a. dm_personality d = FACET_CONFIG_PERSONALITY_POSIX \<longrightarrow>
          ta_device_name a \<noteq> None"])
      (use d c fd in \<open>auto simp: domain_fields_def list_all_iff named_tables_def named_domain_def
        intro!: resolve_terminal_diag dest!: resolve_terminal_InrD(1)\<close>)
  have shape: "diag_only (check_domain_shape (d\<lparr>dm_logging_sinks := ss\<rparr>))"
    if "scanE (resolve_sink_use c) (dm_logging_sinks d) = Inr ss" for ss
  proof (rule check_domain_shape_diag)
    have "list_all (\<lambda>s. dk_name s \<noteq> None) ss"
      unfolding list_all_iff
      by (rule scanE_all [OF that]) (use d in \<open>auto simp: domain_fields_def list_all_iff dest!: resolve_sink_use_InrD\<close>)
    then show "domain_fields (d\<lparr>dm_logging_sinks := ss\<rparr>)" using d by (simp add: domain_fields_def)
  qed (use fd in \<open>simp add: named_domain_def\<close>)
  show "diag_only (bindE (scanE (resolve_sink_use c) (dm_logging_sinks d)) (\<lambda>sinks.
     bindE (check_domain_shape (d\<lparr>dm_logging_sinks := sinks\<rparr>)) (\<lambda>_.
     bindE (scanE (resolve_terminal c prev d) (dm_terminals d)) (\<lambda>terminals.
     resolve_authentication c (d\<lparr>dm_logging_sinks := sinks, dm_terminals := terminals\<rparr>)))))"
    using c by (intro diag_only_bind sinks shape terminals resolve_authentication_diag)
      (simp_all add: named_tables_def)
qed

lemma check_domain_InrD:
  assumes "check_domain c prev d = Inr d'"
  shows "named_domain d'"
  using assms check_domain_fields_InrD(1)
  by (fastforce simp: check_domain_def error_monad named_domain_def dest!: resolve_authentication_InrD)

lemma scanE_check_map:
  assumes "scanE f xs = Inr ys" and "\<And>zs x y. f zs x = Inr y \<Longrightarrow> y = x \<and> name x \<noteq> None"
  shows "None \<notin> set (map name xs)"
proof -
  have "\<forall>i < length xs. name (xs ! i) \<noteq> None" using scanE_InrD(2) [OF assms(1)] assms(2) by blast
  then show ?thesis by (fastforce simp: in_set_conv_nth)
qed

lemma global_users_named:
  assumes "foldE check_global_user us ([], False) = Inr (prev, found)"
  shows "None \<notin> set (map us_name us)"
proof -
  have "fst (prev, found) = us \<and> None \<notin> set (map us_name us)"
    by (rule foldE_invariant [OF assms, of "\<lambda>xs s. fst s = xs \<and> None \<notin> set (map us_name xs)"])
      (auto dest!: check_global_user_InrD simp: split_paired_all)
  then show ?thesis by simp
qed

lemma diag_only_if:
  "(b \<Longrightarrow> diag_only x) \<Longrightarrow> (\<not> b \<Longrightarrow> diag_only y) \<Longrightarrow> diag_only (if b then x else y)"
  by simp

lemma validate_required_diag:
  assumes "config_fields c"
  shows "diag_only (validate_required seen c)"
proof -
  have sinks: "diag_only (scanE check_sink (sc_logging_sinks c))"
    by (rule diag_only_scanE [where Q = "\<lambda>s. ls_name s \<noteq> None"])
      (use assms in \<open>auto simp: config_fields_def list_all_iff dest: check_sink_InrD intro!: check_sink_diag\<close>)
  have seats: "diag_only (scanE check_seat (sc_seats c))"
    by (rule diag_only_scanE [where Q = "\<lambda>s. st_name s \<noteq> None"])
      (use assms in \<open>auto simp: config_fields_def list_all_iff dest: check_seat_InrD intro!: check_seat_diag\<close>)
  have sources: "diag_only (scanE check_source (sc_authentication_sources c))"
    by (rule diag_only_scanE [where Q = "\<lambda>s. au_name s \<noteq> None"])
      (use assms in \<open>auto simp: config_fields_def list_all_iff dest: check_source_InrD intro!: check_source_diag\<close>)
  have user_step: "set (fst s') \<subseteq> {y. us_name y \<noteq> None}"
    if "check_global_user u s = Inr s'" "set (fst s) \<subseteq> {y. us_name y \<noteq> None}" for u s s'
    using that check_global_user_InrD [of u "fst s" "snd s" "fst s'" "snd s'"] by simp
  have users: "diag_only (foldE check_global_user (sc_users c) ([], False))"
    by (rule diag_only_foldE [where P = "\<lambda>s. set (fst s) \<subseteq> {y. us_name y \<noteq> None}"])
      (use assms user_step in \<open>auto simp: config_fields_def list_all_iff split_paired_all
        intro!: check_global_user_diag\<close>)
  have domains: "diag_only (scanE (check_domain c) (sc_domains c))" if "named_tables c"
    by (rule diag_only_scanE [where Q = named_domain])
      (use assms that in \<open>auto simp: config_fields_def list_all_iff dest: check_domain_InrD intro!: check_domain_diag\<close>)
  have providers: "diag_only (scanE (\<lambda>_. resolve_provider ds) (sc_authentication_sources c))"
    if "named_tables c" for ds
  proof (rule diag_only_scanE [where Q = "\<lambda>_. True"])
    fix s assume "s \<in> set (sc_authentication_sources c)"
    then obtain n where "au_name s = Some n"
      using \<open>named_tables c\<close> by (cases "au_name s") (force simp: named_tables_def)+
    then show "diag_only (resolve_provider ds s)" by (simp add: resolve_provider_def split: option.split)
  qed simp
  have named: "named_tables c"
    if "scanE check_sink (sc_logging_sinks c) = Inr a" "scanE check_seat (sc_seats c) = Inr b"
      "scanE check_source (sc_authentication_sources c) = Inr e"
      "foldE check_global_user (sc_users c) ([], False) = Inr f" for a b e f
    unfolding named_tables_def
    using scanE_check_map [OF that(1) check_sink_InrD] scanE_check_map [OF that(2) check_seat_InrD]
      scanE_check_map [OF that(3) check_source_InrD] global_users_named [of "sc_users c"] that(4)
    by (cases f) auto
  show ?thesis
    unfolding validate_required_def split_beta
    by (intro diag_only_if diag_only_errors diag_only_bind [OF sinks] diag_only_bind [OF seats]
        diag_only_bind [OF sources] diag_only_bind [OF users] diag_only_bind [OF domains]
        diag_only_bind [OF providers]; (rule named; assumption)?; simp)
qed

lemma config_parse_InrD:
  assumes "config_parse h bytes = Inr c"
  obtains p :: Parser where "parser_ok p" and "validate_required (p_facet_seen p) (p_config p) = Inr c"
proof -
  let ?p = "skip_space_and_comments True (initial_parser h bytes)"
  have "length (p_rest ?p) \<le> length bytes"
    using lexed_skip_length [of True "initial_parser h bytes"] by (simp add: initial_parser_def)
  then have fuel: "2 * length (p_rest ?p) < 2 * length bytes + 2" by linarith
  have ok: "parser_ok ?p"
    by (rule parser_ok_lexed [OF lexed_skip])
      (simp add: parser_ok_def section_in_range_def initial_parser_def)
  obtain p' :: Parser where p': "statement_loop (length bytes + 1) (2 * length bytes + 2) ?p = Inr p'"
    "validate_required (p_facet_seen p') (p_config p') = Inr c"
    using assms by (auto simp: config_parse_def Let_def error_monad fail_def fail_at_def
        split: if_splits sum.splits prod.splits)
  with statement_loop_ok [OF p'(1) ok fuel] show ?thesis by (intro that)
qed

text \<open>
  C7. The configuration parser is total.  For every byte string and every
  behaviour of the allocator facet_config_parse returns, either with a
  configuration or with a diagnostic whose texts fit their buffers; it never
  recurses without bound (the fuel of the model is enough for every input) and
  never dereferences a NULL field while it validates.
\<close>

theorem config_parse_total:
  "(\<exists>c. facet_config_parse h bytes = (Inr (), c)) \<or>
   (\<exists>d. facet_config_parse h bytes = (Inl (Diag d), zero_config) \<and>
        length (dg_context d) \<le> 95 \<and> length (dg_message d) \<le> 191)"
proof -
  let ?p = "skip_space_and_comments True (initial_parser h bytes)"
  have len: "length (p_rest ?p) \<le> length bytes"
    using lexed_skip_length [of True "initial_parser h bytes"] by (simp add: initial_parser_def)
  then have fuel: "2 * length (p_rest ?p) < 2 * length bytes + 2" by linarith
  have ok: "parser_ok ?p"
    by (rule parser_ok_lexed [OF lexed_skip])
      (simp add: parser_ok_def section_in_range_def initial_parser_def)
  have "diag_only (bindE (statement_loop (length bytes + 1) (2 * length bytes + 2) ?p)
      (\<lambda>p'. validate_required (p_facet_seen p') (p_config p')))"
  proof (rule diag_only_bind)
    show "diag_only (statement_loop (length bytes + 1) (2 * length bytes + 2) ?p)"
      using len by (intro diag_only_statement_loop) simp_all
    fix p' assume "statement_loop (length bytes + 1) (2 * length bytes + 2) ?p = Inr p'"
    then have "parser_ok p'" by (rule statement_loop_ok [OF _ ok fuel])
    then show "diag_only (validate_required (p_facet_seen p') (p_config p'))"
      by (intro validate_required_diag) (simp add: parser_ok_def)
  qed
  then have "diag_only (config_parse h bytes)"
    by (auto simp: config_parse_def Let_def split: sum.split prod.split)
  then show ?thesis
    by (cases "config_parse h bytes")
      (auto simp: facet_config_parse_def facet_config_destroy_def diag_only_def reported_def)
qed

end
