(* ===== verification/ConfigExample.thy ===== *)
theory ConfigExample
  imports ConfigFields
begin

text \<open>
  A complete small configuration, evaluated by the model: one sink, one user, one
  seat and one native domain.  It is a regression test of the whole parser and
  the example at which the theorems about accepted configurations are applied.
\<close>

section \<open>Evaluation rules\<close>

lemmas fuel_eval =
  statement_loop.simps(2)
  parse_value.simps(2) [of "pred_numeral v", folded numeral_eq_Suc]
  array_loop.simps(2) [of "pred_numeral v", folded numeral_eq_Suc]
  table_loop.simps(2) [of "pred_numeral v", folded numeral_eq_Suc] for v

text \<open>An ordinary byte of a string is copied as it is.\<close>

lemma quoted_step_eval:
  "quoted_step quote p buf c =
     (let p' = advance p in
      if c = LF \<or> c = CR
      then fail p' FACET_CONFIG_DIAGNOSTIC_SYNTAX ''string'' ''multiline strings are not supported''
      else if quote = QUOTE \<and> c = BACKSLASH
      then bindE (parse_escape p') (\<lambda>(scalar, p''). append_scalar True scalar p'' buf)
      else if byte_val c = 0 \<or> (byte_val c < 0x20 \<and> byte_val c \<noteq> 9) \<or> byte_val c = 0x7F
      then append_scalar False (byte_val c) p' buf
      else append_raw_byte p' buf c)"
  by (simp add: quoted_step_def append_scalar_def Let_def)

lemmas lex_eval =
  current_def advance_def take_char_def skip_comment.simps is_blank_def skip_space_and_comments.simps
  duplicate_bytes_def double_until.simps clamp_capacity_def append_raw_byte_def
  quoted_step_eval quoted_loop.simps parse_quoted_string_def bare_key_character_def take_bare_key.simps
  parse_key_def array_append_def table_append_def is_digit_def integer_digits.simps parse_integer_def
  advance_by_def array_next_def table_key_def table_next_def parse_scalar_def array_open_def
  table_open_def parser_alloc_def consume_entry_def

lemmas zero_eval =
  zero_config_def zero_sink_def zero_seat_def zero_source_def zero_user_def zero_domain_def
  zero_domain_sink_def zero_assignment_def

lemmas schema_eval =
  parse_header_def require_kind_def take_string_def parse_log_level_def strings_from_array_def
  table_value_def domain_sinks_from_array_def domain_terminals_from_array_def apply_value_def
  apply_section_def grow_array_def enter_section_def close_header_def log_levels_def
  domain_sink_item_def terminal_key_bit_def set_terminal_string_def terminal_entry_def
  domain_terminal_item_def user_key_bit_def user_string_bit_def set_user_string_def
  set_user_number_def user_entry_def apply_facet_def apply_sink_def sink_key_bit_def apply_user_def
  apply_seat_def seat_key_bit_def apply_domain_def domain_key_bit_def domain_enum_def
  parse_statement_def parse_assignment_def end_of_line_def

section \<open>The text, section by section\<close>

definition quoted :: "string \<Rightarrow> string" where
  "quoted s = QUOTE # s @ [QUOTE]"

definition sample_sink :: FacetConfigLoggingSinkDefinition where
  "sample_sink = \<lparr>ls_name = Some ''l'', ls_type = Some ''t'', ls_required = True, ls_present = 7\<rparr>"

definition sample_user :: FacetConfigUser where
  "sample_user = \<lparr>us_name = Some ''root'', us_password_hash = Some root_password_hash, us_admin = True,
     us_uid = 0, us_gid = 0, us_home_path = Some ''/'', us_native_shell = None, us_posix_shell = None,
     us_present = 231\<rparr>"

definition sample_seat :: FacetConfigSeatDefinition where
  "sample_seat = \<lparr>st_name = Some ''a'', st_server = Some ''/s'', st_type = FACET_CONFIG_SEAT_SERIAL,
     st_terminals = [''t''], st_present = 15\<rparr>"

definition sample_domain :: FacetConfigDomain where
  "sample_domain = \<lparr>dm_id = 0, dm_name = Some ''d'', dm_personality = FACET_CONFIG_PERSONALITY_NATIVE,
     dm_domain_manager = FACET_CONFIG_DOMAIN_MANAGER_LOCAL, dm_authentication_source = None,
     dm_authentication_source_index = 0, dm_pid1 = None, dm_initrd = Some ''i'', dm_users = [],
     dm_logging_sinks = [\<lparr>dk_name = Some ''l'', dk_level = FACET_CONFIG_LOG_DEBUG,
       dk_sink_definition_index = 0\<rparr>],
     dm_terminals = [\<lparr>ta_reference = Some ''a.t'', ta_seat_index = 0, ta_terminal_index = 0,
       ta_view = FACET_CONFIG_TERMINAL_VIEW_NATIVE, ta_initial_process = Some ''/p'',
       ta_device_name = None, ta_run_as = None, ta_present = 7\<rparr>],
     dm_present = 319\<rparr>"

abbreviation at :: "string \<Rightarrow> nat \<Rightarrow> nat \<Rightarrow> SectionKind \<Rightarrow> FacetSystemConfig \<Rightarrow> heap \<Rightarrow> Parser" where
  "at text line entries kind c h \<equiv>
     \<lparr>p_rest = text, p_line = line, p_column = 1, p_entry_count = entries, p_section = kind,
      p_section_index = 0, p_facet_seen = kind \<noteq> SECTION_NONE, p_config = c, p_heap = h\<rparr>"

text \<open>Each section of the text, in front of the sections that follow it.\<close>

definition facet_text :: "string \<Rightarrow> string" where
  "facet_text tail = ''[facet]'' @ LF # ''version=1'' @ LF # ''seat_initrd='' @ quoted ''s'' @ LF # tail"

definition sink_text :: "string \<Rightarrow> string" where
  "sink_text tail = ''[[logging_sinks]]'' @ LF # ''name='' @ quoted ''l'' @ LF #
     ''type='' @ quoted ''t'' @ LF # ''required=true'' @ LF # tail"

definition user_text :: "string \<Rightarrow> string" where
  "user_text tail = ''[[users]]'' @ LF # ''name='' @ quoted ''root'' @ LF #
     ''password_hash='' @ quoted root_password_hash @ LF # ''admin=true'' @ LF # ''uid=0'' @ LF #
     ''gid=0'' @ LF # ''home_path='' @ quoted ''/'' @ LF # tail"

definition seat_text :: "string \<Rightarrow> string" where
  "seat_text tail = ''[[seats]]'' @ LF # ''name='' @ quoted ''a'' @ LF # ''type='' @ quoted ''serial'' @ LF #
     ''server='' @ quoted ''/s'' @ LF # ''terminals=['' @ quoted ''t'' @ '']'' @ LF # tail"

definition domain_text :: string where
  "domain_text = ''[[domains]]'' @ LF # ''id=0'' @ LF # ''name='' @ quoted ''d'' @ LF #
     ''personality='' @ quoted ''native'' @ LF # ''domain_manager='' @ quoted ''local'' @ LF #
     ''initrd='' @ quoted ''i'' @ LF #
     ''logging_sinks=[{name='' @ quoted ''l'' @ '',level='' @ quoted ''debug'' @ ''}]'' @ LF #
     ''terminals=[{terminal='' @ quoted ''a.t'' @ '',view='' @ quoted ''native'' @
     '',initial_process='' @ quoted ''/p'' @ ''}]'' @ [LF]"

definition sample_text :: string where
  "sample_text = facet_text (sink_text (user_text (seat_text domain_text)))"

definition sample_config :: FacetSystemConfig where
  "sample_config = \<lparr>sc_version = 1, sc_seat_initrd = Some ''s'', sc_logging_sinks = [sample_sink],
     sc_authentication_sources = [], sc_users = [sample_user], sc_seats = [sample_seat],
     sc_domains = [sample_domain], sc_root_index = 0\<rparr>"

lemma facet_section:
  "statement_loop (Suc (Suc (Suc n))) 920 (at (facet_text (CHR ''['' # tail)) 1 0 SECTION_NONE zero_config 100) =
   statement_loop n 920 (at (CHR ''['' # tail) 4 3 SECTION_FACET
     (zero_config\<lparr>sc_version := 1, sc_seat_initrd := Some ''s''\<rparr>) 96)"
  unfolding facet_text_def quoted_def append.simps
  supply One_nat_def [simp del]
  by (simp add: fuel_eval lex_eval zero_eval schema_eval Let_def)

lemma sink_section:
  assumes "sc_logging_sinks c = []"
  shows "statement_loop (Suc (Suc (Suc (Suc n)))) 920 (at (sink_text (CHR ''['' # tail)) 4 3 SECTION_FACET c 96) =
   statement_loop n 920 (at (CHR ''['' # tail) 8 7 SECTION_LOGGING_SINK
     (c\<lparr>sc_logging_sinks := [sample_sink]\<rparr>) 89)"
  unfolding sink_text_def quoted_def append.simps
  supply One_nat_def [simp del]
  using assms by (simp add: fuel_eval lex_eval zero_sink_def schema_eval sample_sink_def Let_def)

lemma user_section:
  assumes "sc_users c = []"
  shows "statement_loop (Suc (Suc (Suc (Suc (Suc (Suc (Suc n))))))) 920
     (at (user_text (CHR ''['' # tail)) 8 7 SECTION_LOGGING_SINK c 89) =
   statement_loop n 920 (at (CHR ''['' # tail) 15 14 SECTION_USER (c\<lparr>sc_users := [sample_user]\<rparr>) 77)"
  unfolding user_text_def quoted_def root_password_hash_def append.simps
  supply One_nat_def [simp del]
  using assms
  by (simp add: fuel_eval lex_eval zero_user_def schema_eval sample_user_def root_password_hash_def Let_def)

lemma seat_section:
  assumes "sc_seats c = []"
  shows "statement_loop (Suc (Suc (Suc (Suc (Suc n))))) 920
     (at (seat_text (CHR ''['' # tail)) 15 14 SECTION_USER c 77) =
   statement_loop n 920 (at (CHR ''['' # tail) 20 19 SECTION_SEAT (c\<lparr>sc_seats := [sample_seat]\<rparr>) 65)"
  unfolding seat_text_def quoted_def append.simps
  supply One_nat_def [simp del]
  using assms by (simp add: fuel_eval lex_eval zero_seat_def schema_eval sample_seat_def Let_def)

lemma domain_section:
  assumes "sc_domains c = []"
  shows "statement_loop (Suc (Suc (Suc (Suc (Suc (Suc (Suc (Suc (Suc n))))))))) 920
     (at domain_text 20 19 SECTION_SEAT c 65) =
   Inr (at [] 28 32 SECTION_DOMAIN (c\<lparr>sc_domains := [sample_domain]\<rparr>) 25)"
  unfolding domain_text_def quoted_def append.simps
  supply One_nat_def [simp del]
  using assms by (simp add: fuel_eval lex_eval zero_domain_def zero_domain_sink_def zero_assignment_def
      schema_eval sample_domain_def Let_def)

lemma open_bracket:
  "\<exists>t. domain_text = CHR ''['' # t" "\<exists>t. seat_text m = CHR ''['' # t" "\<exists>t. user_text m = CHR ''['' # t"
  "\<exists>t. sink_text m = CHR ''['' # t"
  by (simp_all add: domain_text_def seat_text_def user_text_def sink_text_def)

section \<open>The whole text\<close>

lemma sample_length: "length sample_text = 459"
  by (simp add: sample_text_def facet_text_def sink_text_def user_text_def seat_text_def domain_text_def
      quoted_def root_password_hash_def)

lemma ascii_valid: "list_all (\<lambda>c. byte_val c < 0x80) s \<Longrightarrow> utf8_validate_from i s = Inr ()"
  by (induction s arbitrary: i) simp_all

lemma sample_utf8: "utf8_validate sample_text = Inr ()"
  unfolding utf8_validate_def
  by (rule ascii_valid) (simp add: sample_text_def facet_text_def sink_text_def user_text_def seat_text_def
      domain_text_def quoted_def root_password_hash_def)

lemma sample_statements:
  "statement_loop 460 920 (at sample_text 1 0 SECTION_NONE zero_config 100) =
   Inr (at [] 28 32 SECTION_DOMAIN sample_config 25)"
proof -
  have sections: "statement_loop 460 920 p = statement_loop (Suc (Suc (Suc 457))) 920 p"
    "statement_loop 457 920 p = statement_loop (Suc (Suc (Suc (Suc 453)))) 920 p"
    "statement_loop 453 920 p = statement_loop (Suc (Suc (Suc (Suc (Suc (Suc (Suc 446))))))) 920 p"
    "statement_loop 446 920 p = statement_loop (Suc (Suc (Suc (Suc (Suc 441))))) 920 p"
    "statement_loop 441 920 p = statement_loop (Suc (Suc (Suc (Suc (Suc (Suc (Suc (Suc (Suc 432))))))))) 920 p"
    for p by simp_all
  obtain t1 t2 t3 t4 where t: "domain_text = CHR ''['' # t1" "seat_text domain_text = CHR ''['' # t2"
    "user_text (seat_text domain_text) = CHR ''['' # t3"
    "sink_text (user_text (seat_text domain_text)) = CHR ''['' # t4"
    using open_bracket by metis
  show ?thesis
    unfolding sample_text_def
    apply (subst t(4), subst sections(1), subst facet_section, subst t(4) [symmetric])
    apply (subst t(3), subst sections(2), subst sink_section, simp add: zero_config_def, subst t(3) [symmetric])
    apply (subst t(2), subst sections(3), subst user_section, simp add: zero_config_def, subst t(2) [symmetric])
    apply (subst t(1), subst sections(4), subst seat_section, simp add: zero_config_def, subst t(1) [symmetric])
    apply (subst sections(5), subst domain_section, simp add: zero_config_def)
    apply (simp add: sample_config_def zero_config_def)
    done
qed

lemma sample_skip: "skip_space_and_comments True (initial_parser 100 sample_text) = at sample_text 1 0 SECTION_NONE zero_config 100"
  by (simp add: sample_text_def facet_text_def initial_parser_def skip_space_and_comments.simps current_def is_blank_def)

lemmas check_eval =
  scanE_def checkE_def reject_equal_def strcmp_eq_def deref_def check_sink_def check_seat_def
  check_seat_terminal_def check_global_user_def validate_user_def valid_password_hash_def absolute_def
  check_domain_def check_domain_fields_def check_domain_shape_def resolve_sink_use_def resolve_terminal_def
  expected_terminal_bits_def check_run_as_def check_device_def assign_terminal_def split_reference_def
  find_terminal_def resolve_authentication_def Let_def

lemma sample_checks:
  "scanE check_sink [sample_sink] = Inr [sample_sink]"
  "scanE check_seat [sample_seat] = Inr [sample_seat]"
  "foldE check_global_user [sample_user] ([], False) = Inr ([sample_user], True)"
  by (simp_all add: check_eval sample_sink_def sample_seat_def sample_user_def root_password_hash_def)

lemma sample_domain_checks: "scanE (check_domain sample_config) [sample_domain] = Inr [sample_domain]"
  by (simp add: check_eval sample_domain_def sample_config_def sample_sink_def sample_seat_def
      enumerate_eq_zip)

lemma sample_validates: "validate_required True sample_config = Inr sample_config"
proof -
  have "sc_version sample_config = 1" "sc_logging_sinks sample_config = [sample_sink]"
    "sc_seats sample_config = [sample_seat]" "sc_authentication_sources sample_config = []"
    "sc_users sample_config = [sample_user]" "sc_domains sample_config = [sample_domain]"
    "sc_seat_initrd sample_config = Some ''s''" "sc_root_index sample_config = 0"
    by (simp_all add: sample_config_def)
  moreover have "count_roots [sample_domain] = 1" "last_root 0 0 [sample_domain] = 0"
    by (simp_all add: count_roots_def sample_domain_def)
  ultimately show ?thesis
    unfolding validate_required_def sample_checks sample_domain_checks
    by (simp add: sample_checks sample_domain_checks del: foldE.simps)
qed

lemma sample_parses: "facet_config_parse 100 sample_text = (Inr (), sample_config)"
  using sample_statements sample_validates
  by (simp add: facet_config_parse_def config_parse_def Let_def sample_length sample_utf8 sample_skip)

end
