(* ===== verification/ConfigValid.thy ===== *)
theory ConfigValid
  imports ConfigExample
begin

text \<open>
  What an accepted configuration promises to the rest of the kernel: names and
  identifiers are unique, every reference is resolved to an index in range that
  names the right object, no terminal is assigned twice, and there is exactly one
  root domain and an administrative root user.
\<close>

section \<open>The contract\<close>

definition valid_seat :: "FacetConfigSeatDefinition \<Rightarrow> bool" where
  "valid_seat s \<longleftrightarrow>
     st_name s \<notin> {None, Some []} \<and> CHR ''.'' \<notin> set (the (st_name s)) \<and>
     distinct (st_terminals s) \<and> list_all (\<lambda>t. t \<noteq> [] \<and> CHR ''.'' \<notin> set t) (st_terminals s)"

definition valid_sink_use :: "FacetSystemConfig \<Rightarrow> FacetConfigDomainSink \<Rightarrow> bool" where
  "valid_sink_use c s \<longleftrightarrow>
     dk_sink_definition_index s < length (sc_logging_sinks c) \<and>
     ls_name (sc_logging_sinks c ! dk_sink_definition_index s) = dk_name s"

definition valid_terminal :: "FacetSystemConfig \<Rightarrow> FacetConfigTerminalAssignment \<Rightarrow> bool" where
  "valid_terminal c a \<longleftrightarrow>
     ta_seat_index a < length (sc_seats c) \<and>
     (let seat = sc_seats c ! ta_seat_index a in
      ta_terminal_index a < length (st_terminals seat) \<and>
      ta_reference a = map_option (\<lambda>n. n @ ''.'' @ st_terminals seat ! ta_terminal_index a) (st_name seat))"

definition valid_run_as :: "FacetSystemConfig \<Rightarrow> FacetConfigDomain \<Rightarrow> FacetConfigTerminalAssignment \<Rightarrow> bool" where
  "valid_run_as c d a \<longleftrightarrow>
     ta_run_as a \<noteq> None \<longrightarrow> ta_run_as a \<in> set (map us_name (sc_users c @ dm_users d))"

definition valid_authentication :: "FacetSystemConfig \<Rightarrow> FacetConfigDomain \<Rightarrow> bool" where
  "valid_authentication c d \<longleftrightarrow>
     dm_authentication_source d \<noteq> None \<longrightarrow>
     dm_authentication_source_index d < length (sc_authentication_sources c) \<and>
     au_name (sc_authentication_sources c ! dm_authentication_source_index d) = dm_authentication_source d"

definition valid_user :: "FacetConfigUser \<Rightarrow> bool" where
  "valid_user u \<longleftrightarrow>
     us_name u \<notin> {None, Some []} \<and> valid_password_hash (us_password_hash u) \<and>
     (\<exists>home. us_home_path u = Some home \<and> absolute home) \<and>
     pred_option absolute (us_native_shell u) \<and> pred_option absolute (us_posix_shell u)"

definition valid_domain :: "FacetSystemConfig \<Rightarrow> FacetConfigDomain \<Rightarrow> bool" where
  "valid_domain c d \<longleftrightarrow>
     dm_name d \<notin> {None, Some []} \<and> dm_initrd d \<notin> {None, Some []} \<and>
     CHR ''/'' \<notin> set (the (dm_initrd d)) \<and> dm_personality d \<noteq> FACET_CONFIG_PERSONALITY_VM \<and>
     dm_logging_sinks d \<noteq> [] \<and> list_all (valid_sink_use c) (dm_logging_sinks d) \<and>
     distinct (map dk_name (dm_logging_sinks d)) \<and>
     dm_terminals d \<noteq> [] \<and> list_all (valid_terminal c) (dm_terminals d) \<and>
     list_all (valid_run_as c d) (dm_terminals d) \<and>
     distinct (map us_name (sc_users c @ dm_users d)) \<and> list_all valid_user (dm_users d) \<and>
     (dm_personality d = FACET_CONFIG_PERSONALITY_POSIX \<longrightarrow> dm_pid1 d \<notin> {None, Some []}) \<and>
     valid_authentication c d"

definition root_user :: "FacetConfigUser \<Rightarrow> bool" where
  "root_user u \<longleftrightarrow> us_name u = Some ''root'' \<and> us_admin u \<and> us_uid u = 0 \<and> us_gid u = 0"

abbreviation terminal_slot :: "FacetConfigTerminalAssignment \<Rightarrow> nat \<times> nat" where
  "terminal_slot a \<equiv> (ta_seat_index a, ta_terminal_index a)"

definition valid_provider :: "FacetSystemConfig \<Rightarrow> FacetConfigAuthenticationSource \<Rightarrow> bool" where
  "valid_provider c s \<longleftrightarrow>
     au_provider_domain_index s < length (sc_domains c) \<and>
     dm_id (sc_domains c ! au_provider_domain_index s) = au_provider_domain_id s"

definition valid_config :: "FacetSystemConfig \<Rightarrow> bool" where
  "valid_config c \<longleftrightarrow>
     sc_version c = 1 \<and> sc_seat_initrd c \<notin> {None, Some []} \<and>
     distinct (map ls_name (sc_logging_sinks c)) \<and>
     distinct (map st_name (sc_seats c)) \<and> list_all valid_seat (sc_seats c) \<and>
     distinct (map au_name (sc_authentication_sources c)) \<and>
     list_all (valid_provider c) (sc_authentication_sources c) \<and>
     distinct (map us_name (sc_users c)) \<and> list_all valid_user (sc_users c) \<and>
     list_ex root_user (sc_users c) \<and>
     distinct (map dm_id (sc_domains c)) \<and> distinct (map dm_name (sc_domains c)) \<and>
     distinct (map dm_initrd (sc_domains c)) \<and> list_all (valid_domain c) (sc_domains c) \<and>
     distinct (map terminal_slot (concat (map dm_terminals (sc_domains c)))) \<and>
     sc_root_index c < length (sc_domains c) \<and> dm_id (sc_domains c ! sc_root_index c) = 0"

section \<open>What the loops establish\<close>

lemma scanE_distinct:
  assumes "scanE f xs = Inr ys" and "\<And>zs x y. x \<in> set xs \<Longrightarrow> f zs x = Inr y \<Longrightarrow> key y \<notin> set (map key zs)"
  shows "distinct (map key ys)"
proof -
  note len = scanE_InrD(1) [OF assms(1)] and step = scanE_InrD(2) [OF assms(1)]
  have "key (ys ! i) \<noteq> key (ys ! j)" if "i < length ys" "j < i" for i j
  proof -
    have "ys ! j \<in> set (take i ys)" using that by (auto simp: in_set_conv_nth intro: exI [of _ j])
    moreover have "key (ys ! i) \<notin> set (map key (take i ys))"
      using assms(2) [OF _ step] that len by simp
    ultimately show ?thesis by force
  qed
  then show ?thesis
    unfolding distinct_conv_nth by (metis length_map linorder_neqE_nat nth_map)
qed

lemma scanE_same:
  assumes "scanE f xs = Inr ys" and "\<And>zs x y. f zs x = Inr y \<Longrightarrow> g y = g x"
  shows "map g ys = map g xs"
  using scanE_InrD [OF assms(1)] assms(2) by (intro nth_equalityI) auto

lemma scanE_id:
  assumes "scanE f xs = Inr ys" and "\<And>zs x y. f zs x = Inr y \<Longrightarrow> y = x"
  shows "ys = xs"
  using scanE_same [OF assms(1), of id] assms(2) by simp

lemma no_error_Inr [simp]:
  "schema_error c m \<noteq> Inr x" "duplicate_error s m \<noteq> Inr x" "unresolved_error s m \<noteq> Inr x"
  by (auto simp: schema_error_def duplicate_error_def unresolved_error_def fail_at_def error_monad)

lemma reject_equal_InrD:
  assumes "reject_equal (duplicate_error a m) s ts = Inr u"
  shows "s \<notin> set ts"
proof
  assume "s \<in> set ts"
  with assms have "bindE (strcmp_eq s s) (\<lambda>same. if same then duplicate_error a m else Inr ()) = Inr ()"
    by (auto simp: reject_equal_def checkE_eq_Inr)
  then show False by (cases s) (auto simp: strcmp_eq_def deref_def)
qed

lemma check_sink_fresh: "check_sink prev s = Inr s' \<Longrightarrow> s' = s \<and> ls_name s \<notin> set (map ls_name prev)"
  by (auto simp: check_sink_def Let_def error_monad split: if_splits dest!: reject_equal_InrD)

lemma check_source_fresh: "check_source prev s = Inr s' \<Longrightarrow> s' = s \<and> au_name s \<notin> set (map au_name prev)"
  by (auto simp: check_source_def Let_def error_monad split: if_splits dest!: reject_equal_InrD)

lemma check_seat_terminal_InrD:
  "check_seat_terminal n prev t = Inr t' \<Longrightarrow> t' = t \<and> t \<noteq> [] \<and> CHR ''.'' \<notin> set t \<and> t \<notin> set prev"
  by (auto simp: check_seat_terminal_def fail_at_def split: if_splits)

lemma check_seat_fresh:
  assumes "check_seat prev s = Inr s'"
  shows "s' = s \<and> st_name s \<notin> set (map st_name prev) \<and> valid_seat s"
proof -
  obtain n v ts u where n: "st_name s = Some n" "n \<noteq> []" "CHR ''.'' \<notin> set n"
    and ts: "scanE (check_seat_terminal n) (st_terminals s) = Inr ts" and s': "s' = s"
    and fresh: "reject_equal (duplicate_error (st_name s) v) (st_name s) (map st_name prev) = Inr u"
    using assms by (auto simp: check_seat_def Let_def error_monad deref_def split: if_splits option.splits)
  note same = scanE_id [OF ts] and all = scanE_all [OF ts]
  have "ts = st_terminals s" by (rule same) (blast dest: check_seat_terminal_InrD)
  moreover have "distinct (map id ts)"
    by (rule scanE_distinct [OF ts]) (use check_seat_terminal_InrD in force)
  moreover have "\<forall>t \<in> set ts. t \<noteq> [] \<and> CHR ''.'' \<notin> set t"
    by (rule all) (blast dest: check_seat_terminal_InrD)
  ultimately show ?thesis
    using n s' reject_equal_InrD [OF fresh] by (simp add: valid_seat_def list_all_iff)
qed

lemma validate_user_valid: "validate_user u c = Inr x \<Longrightarrow> valid_user u"
  by (auto simp: validate_user_def valid_user_def Let_def error_monad deref_def
      split: if_splits option.splits)

lemma check_domain_user_fresh:
  "check_domain_user c d prev u = Inr u' \<Longrightarrow>
   u' = u \<and> valid_user u \<and> us_name u \<notin> set (map us_name (sc_users c)) \<and> us_name u \<notin> set (map us_name prev)"
  by (auto simp: check_domain_user_def error_monad dest!: reject_equal_InrD intro: validate_user_valid)

lemma global_users_valid:
  assumes "foldE check_global_user us ([], False) = Inr (prev, found)"
  shows "prev = us" "distinct (map us_name us)" "found \<Longrightarrow> list_ex root_user us"
    "list_all valid_user us"
proof -
  have "fst (prev, found) = us \<and> distinct (map us_name us) \<and> list_all valid_user us \<and> (snd (prev, found) \<longrightarrow> list_ex root_user us)"
  proof (rule foldE_invariant [OF assms,
        of "\<lambda>xs s. fst s = xs \<and> distinct (map us_name xs) \<and> list_all valid_user xs \<and> (snd s \<longrightarrow> list_ex root_user xs)"])
    fix x xs s s' assume s: "fst s = xs \<and> distinct (map us_name xs) \<and> list_all valid_user xs \<and> (snd s \<longrightarrow> list_ex root_user xs)"
      and step: "check_global_user x s = Inr s'"
    then show "fst s' = xs @ [x] \<and> distinct (map us_name (xs @ [x])) \<and>
        list_all valid_user (xs @ [x]) \<and> (snd s' \<longrightarrow> list_ex root_user (xs @ [x]))"
      by (cases s) (auto simp: check_global_user_def error_monad root_user_def deref_def
          split: if_splits option.splits dest!: reject_equal_InrD validate_user_valid)
  qed simp_all
  then show "prev = us" "distinct (map us_name us)" "found \<Longrightarrow> list_ex root_user us" "list_all valid_user us" by auto
qed

section \<open>References\<close>

lemma find_strcmp_InrD:
  "find_strcmp s ts = Inr (Some k) \<Longrightarrow> k < length ts \<and> ts ! k = s"
proof (induction ts arbitrary: k)
  case (Cons t ts)
  then show ?case
    by (cases s; cases t) (auto simp: error_monad strcmp_eq_def deref_def split: if_splits)
qed simp

lemma any_strcmp_InrD:
  assumes "any_strcmp s ts = Inr b"
  shows "b \<longleftrightarrow> s \<in> set ts"
  by (rule foldE_invariant [OF assms [unfolded any_strcmp_def], of "\<lambda>xs b. b \<longleftrightarrow> s \<in> set xs"])
    (auto simp: error_monad strcmp_eq_def deref_def split: option.splits)

lemma resolve_sink_use_valid:
  assumes "resolve_sink_use c prev s = Inr s'"
  shows "valid_sink_use c s'" and "dk_name s' \<notin> set (map dk_name prev)"
proof -
  obtain found where found: "find_strcmp (dk_name s) (map ls_name (sc_logging_sinks c)) = Inr found"
    using assms by (auto simp: resolve_sink_use_def error_monad)
  with assms obtain k where k: "found = Some k" by (cases found) (auto simp: resolve_sink_use_def)
  with assms found have s': "s' = s\<lparr>dk_sink_definition_index := k\<rparr>"
    and "dk_name s \<notin> set (map dk_name prev)"
    by (auto simp: resolve_sink_use_def error_monad dest!: reject_equal_InrD)
  then show "dk_name s' \<notin> set (map dk_name prev)" by simp
  show "valid_sink_use c s'"
    using find_strcmp_InrD [OF found [unfolded k]] by (auto simp: s' valid_sink_use_def)
qed

lemma split_reference_SomeD: "split_reference r = Some (s, t) \<Longrightarrow> r = s @ ''.'' @ t"
proof -
  assume a: "split_reference r = Some (s, t)"
  let ?d = "dropWhile ((\<noteq>) CHR ''.'') r"
  have d: "?d \<noteq> []" "s = takeWhile ((\<noteq>) CHR ''.'') r" "t = tl ?d"
    using a by (auto simp: split_reference_def Let_def split: if_splits)
  have "hd ?d = CHR ''.''" using hd_dropWhile [OF d(1)] by simp
  then have "?d = CHR ''.'' # t" using d by (cases ?d) auto
  then show "r = s @ ''.'' @ t" using takeWhile_dropWhile_id [of "(\<noteq>) CHR ''.''" r] d(2) by simp
qed

lemma find_terminal_InrD:
  assumes "find_terminal c s t = Inr (Some (k, m))"
  shows "k < length (sc_seats c)" and "st_name (sc_seats c ! k) = Some s"
    and "m < length (st_terminals (sc_seats c ! k))" and "st_terminals (sc_seats c ! k) ! m = t"
proof -
  let ?P = "\<lambda>r. \<forall>k m. r = Some (k, m) \<longrightarrow> k < length (sc_seats c) \<and> st_name (sc_seats c ! k) = Some s \<and>
    m < length (st_terminals (sc_seats c ! k)) \<and> st_terminals (sc_seats c ! k) ! m = t"
  have "?P (Some (k, m))"
  proof (rule foldE_invariant [OF assms [unfolded find_terminal_def], of "\<lambda>_. ?P"])
    fix ys :: "(nat \<times> FacetConfigSeatDefinition) list" and x r r'
    assume r: "?P r" and x: "x \<in> set (List.enumerate 0 (sc_seats c))"
      and step: "(case x of (k, seat) \<Rightarrow> \<lambda>found. bindE (deref (st_name seat)) (\<lambda>name.
         if name \<noteq> s then Inr found
         else case first_index ((=) t) (st_terminals seat) of None \<Rightarrow> Inr found
              | Some m \<Rightarrow> Inr (Some (k, m)))) r = Inr r'"
    obtain j seat where js: "x = (j, seat)" "j < length (sc_seats c)" "seat = sc_seats c ! j"
      using x unfolding in_set_enumerate_eq by (cases x) simp
    show "?P r'"
    proof (cases "st_name seat = Some s")
      case True
      with step r js show ?thesis
        by (cases "first_index ((=) t) (st_terminals seat)")
          (auto simp: deref_def dest: first_index_SomeD)
    next
      case False
      then have "r' = r" using step js by (auto simp: error_monad deref_def split: option.splits if_splits)
      with r show ?thesis by simp
    qed
  qed simp
  then show "k < length (sc_seats c)" and "st_name (sc_seats c ! k) = Some s"
    and "m < length (st_terminals (sc_seats c ! k))" and "st_terminals (sc_seats c ! k) ! m = t" by auto
qed

lemma resolve_terminal_valid:
  assumes "resolve_terminal c ds d prev a = Inr a'"
  shows "valid_terminal c a'" and "valid_run_as c d a'"
    and "terminal_slot a' \<notin> set (map terminal_slot (concat (map dm_terminals ds) @ prev))"
proof -
  have assign: "assign_terminal c ds prev a = Inr a'" and run: "check_run_as c d a = Inr ()"
    using assms by (auto simp: resolve_terminal_def Let_def error_monad split: if_splits)
  from assign obtain r s t k m where r: "ta_reference a = Some r" "split_reference r = Some (s, t)"
    and found: "find_terminal c s t = Inr (Some (k, m))"
    and free: "\<not> list_ex (\<lambda>other. ta_seat_index other = k \<and> ta_terminal_index other = m)
       (concat (map dm_terminals ds) @ prev)"
    and a': "a' = a\<lparr>ta_seat_index := k, ta_terminal_index := m\<rparr>"
    by (rule assign_terminal_InrE)
  show "valid_terminal c a'"
    using find_terminal_InrD [OF found] split_reference_SomeD [OF r(2)] r(1)
    by (simp add: a' valid_terminal_def)
  show "terminal_slot a' \<notin> set (map terminal_slot (concat (map dm_terminals ds) @ prev))"
    using free by (force simp: a' list_ex_iff)
  show "valid_run_as c d a'"
    using run by (auto simp: a' check_run_as_def valid_run_as_def error_monad
        split: if_splits dest!: any_strcmp_InrD)
qed

lemma resolve_authentication_valid:
  assumes "resolve_authentication c d = Inr d'"
  shows "valid_authentication c d'" and "\<exists>j. d' = d\<lparr>dm_authentication_source_index := j\<rparr>"
proof -
  show "\<exists>j. d' = d\<lparr>dm_authentication_source_index := j\<rparr>"
    using resolve_authentication_InrD [OF assms] by (metis FacetConfigDomain.surjective FacetConfigDomain.update_convs(6))
  show "valid_authentication c d'"
  proof (cases "dm_authentication_source d = None")
    case False
    then obtain found where found: "find_strcmp (dm_authentication_source d)
        (map au_name (sc_authentication_sources c)) = Inr found"
      using assms by (auto simp: resolve_authentication_def error_monad)
    with assms False obtain k where k: "found = Some k"
      by (cases found) (auto simp: resolve_authentication_def)
    with assms False found find_strcmp_InrD [OF found [unfolded k]] show ?thesis
      by (auto simp: resolve_authentication_def valid_authentication_def)
  qed (use assms in \<open>auto simp: resolve_authentication_def valid_authentication_def\<close>)
qed

section \<open>Domains\<close>

lemma check_domain_fields_valid:
  assumes "check_domain_fields c prev d = Inr u" and "distinct (map us_name (sc_users c))"
  shows "dm_name d \<notin> {None, Some []}" and "dm_initrd d \<notin> {None, Some []}"
    and "CHR ''/'' \<notin> set (the (dm_initrd d))" and "dm_personality d \<noteq> FACET_CONFIG_PERSONALITY_VM"
    and "dm_initrd d \<notin> set (map dm_initrd prev)" and "dm_id d \<notin> set (map dm_id prev)"
    and "dm_name d \<notin> set (map dm_name prev)" and "distinct (map us_name (sc_users c @ dm_users d))"
    and "list_all valid_user (dm_users d)"
proof -
  obtain n where n: "dm_name d = Some n"
    using check_domain_fields_InrD(1) [OF assms(1)] by (auto simp: named_domain_def)
  have initrd: "dm_initrd d \<notin> {None, Some []}" "CHR ''/'' \<notin> set (the (dm_initrd d))" and "n \<noteq> []"
    using assms(1) by (auto simp: check_domain_fields_def Let_def n split: if_splits)
  with assms(1) obtain m u' us where fresh: "reject_equal (duplicate_error (dm_initrd d) m) (dm_initrd d) (map dm_initrd prev) = Inr u'"
    and us: "scanE (check_domain_user c n) (dm_users d) = Inr us"
    and vm: "dm_personality d \<noteq> FACET_CONFIG_PERSONALITY_VM"
    and ids: "checkE (check_domain_identity d) prev = Inr ()"
    by (auto simp: check_domain_fields_def Let_def n bindE_eq_Inr split: if_splits)
  have other: "dm_id d \<noteq> dm_id e \<and> dm_name d \<noteq> dm_name e" if "e \<in> set prev" for e
  proof -
    have e: "check_domain_identity d e = Inr ()" using ids that by (simp add: checkE_eq_Inr)
    then show ?thesis by (cases "dm_name e") (auto simp: check_domain_identity_def n error_monad strcmp_eq_def deref_def split: if_splits)
  qed
  have "us = dm_users d" by (rule scanE_id [OF us]) (blast dest: check_domain_user_fresh)
  moreover have "distinct (map us_name us)"
    by (rule scanE_distinct [OF us]) (blast dest: check_domain_user_fresh)
  moreover have all: "\<forall>u \<in> set us. valid_user u \<and> us_name u \<notin> set (map us_name (sc_users c))"
    by (rule scanE_all [OF us]) (blast dest: check_domain_user_fresh)
  ultimately show "distinct (map us_name (sc_users c @ dm_users d))"
    using assms(2) by (fastforce simp: image_iff)
  show "list_all valid_user (dm_users d)" using all \<open>us = dm_users d\<close> by (simp add: list_all_iff)
  show "dm_name d \<notin> {None, Some []}" using n \<open>n \<noteq> []\<close> by simp
  show "dm_initrd d \<notin> set (map dm_initrd prev)" by (rule reject_equal_InrD [OF fresh])
  show "dm_initrd d \<notin> {None, Some []}" "CHR ''/'' \<notin> set (the (dm_initrd d))"
    "dm_personality d \<noteq> FACET_CONFIG_PERSONALITY_VM" by (fact initrd vm)+
  show "dm_id d \<notin> set (map dm_id prev)" "dm_name d \<notin> set (map dm_name prev)" using other by auto
qed

lemma check_domain_valid:
  assumes "check_domain c prev d = Inr d'" and users: "distinct (map us_name (sc_users c))"
  shows "valid_domain c d'" and "dm_initrd d' \<notin> set (map dm_initrd prev)"
    and "dm_id d' \<notin> set (map dm_id prev)" and "dm_name d' \<notin> set (map dm_name prev)"
    and "distinct (map terminal_slot (dm_terminals d'))"
    and "set (map terminal_slot (dm_terminals d')) \<inter> set (map terminal_slot (concat (map dm_terminals prev))) = {}"
proof -
  obtain u sinks v terminals where fields: "check_domain_fields c prev d = Inr u"
    and sinks: "scanE (resolve_sink_use c) (dm_logging_sinks d) = Inr sinks"
    and shape: "check_domain_shape (d\<lparr>dm_logging_sinks := sinks\<rparr>) = Inr v"
    and terminals: "scanE (resolve_terminal c prev d) (dm_terminals d) = Inr terminals"
    and auth: "resolve_authentication c (d\<lparr>dm_logging_sinks := sinks, dm_terminals := terminals\<rparr>) = Inr d'"
    using assms(1) by (auto simp: check_domain_def error_monad)
  note fd = check_domain_fields_valid [OF fields users]
  obtain j where d': "d' = d\<lparr>dm_logging_sinks := sinks, dm_terminals := terminals,
      dm_authentication_source_index := j\<rparr>"
    using resolve_authentication_valid(2) [OF auth] by auto
  show "dm_initrd d' \<notin> set (map dm_initrd prev)" "dm_id d' \<notin> set (map dm_id prev)"
    "dm_name d' \<notin> set (map dm_name prev)" using fd by (simp_all add: d')
  have ts: "\<forall>a \<in> set terminals. valid_terminal c a \<and> valid_run_as c d a \<and>
      terminal_slot a \<notin> set (map terminal_slot (concat (map dm_terminals prev)))"
    by (rule scanE_all [OF terminals]) (use resolve_terminal_valid in force)
  then show "set (map terminal_slot (dm_terminals d')) \<inter> set (map terminal_slot (concat (map dm_terminals prev))) = {}"
    by (auto simp: d')
  show "distinct (map terminal_slot (dm_terminals d'))"
    unfolding d' by (simp, rule scanE_distinct [OF terminals]) (use resolve_terminal_valid(3) in force)
  have "list_all (valid_sink_use c) sinks"
    unfolding list_all_iff by (rule scanE_all [OF sinks]) (blast dest: resolve_sink_use_valid)
  moreover have "distinct (map dk_name sinks)"
    by (rule scanE_distinct [OF sinks]) (blast dest: resolve_sink_use_valid)
  moreover have "sinks \<noteq> []" "dm_terminals d \<noteq> []"
    "dm_personality d = FACET_CONFIG_PERSONALITY_POSIX \<longrightarrow> dm_pid1 d \<notin> {None, Some []}"
    using shape by (auto simp: check_domain_shape_def error_monad deref_def split: if_splits option.splits)
  moreover have "terminals \<noteq> []" using scanE_InrD(1) [OF terminals] \<open>dm_terminals d \<noteq> []\<close> by auto
  moreover have "valid_authentication c d'" by (rule resolve_authentication_valid(1) [OF auth])
  ultimately show "valid_domain c d'"
    using fd ts by (auto simp: valid_domain_def d' list_all_iff valid_run_as_def)
qed

section \<open>The whole configuration\<close>

lemma domains_slots:
  assumes "scanE (check_domain c) ds = Inr ds'" and "distinct (map us_name (sc_users c))"
  shows "distinct (map terminal_slot (concat (map dm_terminals ds')))"
  using assms(1)
proof (induction ds arbitrary: ds' rule: rev_induct)
  case (snoc d ds)
  then obtain es e where es: "scanE (check_domain c) ds = Inr es" "check_domain c es d = Inr e" "ds' = es @ [e]"
    by (auto simp: scanE_snoc bindE_eq_Inr)
  with snoc.IH [OF es(1)] check_domain_valid(5,6) [OF es(2) assms(2)] show ?case
    by (auto simp: es(3))
qed simp

lemma count_roots_one:
  assumes "count_roots ds = 1"
  shows "last_root i r ds - i < length ds \<and> i \<le> last_root i r ds \<and> dm_id (ds ! (last_root i r ds - i)) = 0"
proof -
  have none: "last_root i r ds = r" if "count_roots ds = 0" for i r ds
    using that by (induction ds arbitrary: i r) (auto simp: count_roots_def split: if_splits)
  show ?thesis
    using assms
  proof (induction ds arbitrary: i r)
    case (Cons d ds)
    show ?case
    proof (cases "dm_id d = 0")
      case True
      with Cons.prems have "count_roots ds = 0" by (simp add: count_roots_def)
      with True none show ?thesis by simp
    next
      case False
      with Cons.prems have "count_roots ds = 1" by (simp add: count_roots_def)
      with Cons.IH [of "i + 1" r] False show ?thesis by (auto simp: nth_Cons' Suc_diff_le)
    qed
  qed (simp add: count_roots_def)
qed

lemma resolve_provider_InrD:
  "resolve_provider ds s = Inr s' \<Longrightarrow> au_provider_domain_index s' < length ds \<and>
     dm_id (ds ! au_provider_domain_index s') = au_provider_domain_id s' \<and> au_name s' = au_name s"
  by (auto simp: resolve_provider_def split: option.splits dest: first_index_SomeD)

lemma valid_domain_cong:
  assumes "map au_name ss = map au_name (sc_authentication_sources c)"
  shows "valid_domain (c\<lparr>sc_domains := ds, sc_authentication_sources := ss, sc_root_index := r\<rparr>) d = valid_domain c d"
proof -
  have "length ss = length (sc_authentication_sources c)" by (metis assms length_map)
  moreover have "i < length ss \<Longrightarrow> au_name (ss ! i) = au_name (sc_authentication_sources c ! i)" for i
    using assms calculation by (metis nth_map)
  ultimately show ?thesis
    by (auto simp: valid_domain_def valid_authentication_def valid_sink_use_def valid_terminal_def
        valid_run_as_def list_all_iff)
qed

lemma validate_required_valid:
  assumes "validate_required seen c = Inr c'"
  shows "valid_config c'"
proof -
  obtain a b e us found ds ss where a: "scanE check_sink (sc_logging_sinks c) = Inr a"
    and b: "scanE check_seat (sc_seats c) = Inr b"
    and e: "scanE check_source (sc_authentication_sources c) = Inr e"
    and us: "foldE check_global_user (sc_users c) ([], False) = Inr (us, found)" and found
    and ds: "scanE (check_domain c) (sc_domains c) = Inr ds" and roots: "count_roots ds = 1"
    and ss: "scanE (\<lambda>_. resolve_provider ds) (sc_authentication_sources c) = Inr ss"
    and c': "c' = c\<lparr>sc_domains := ds, sc_authentication_sources := ss,
                   sc_root_index := last_root 0 (sc_root_index c) ds\<rparr>"
    and top: "sc_version c = 1" "sc_seat_initrd c \<notin> {None, Some []}"
    using assms by (auto simp: validate_required_def bindE_eq_Inr split: if_splits)
  note users = global_users_valid [OF us]
  have ids: "a = sc_logging_sinks c" "b = sc_seats c" "e = sc_authentication_sources c"
    by (rule scanE_id [OF a] scanE_id [OF b] scanE_id [OF e],
        blast dest: check_sink_fresh check_seat_fresh check_source_fresh)+
  have fresh: "distinct (map ls_name a)" "distinct (map st_name b)" "distinct (map au_name e)"
    by (rule scanE_distinct [OF a] scanE_distinct [OF b] scanE_distinct [OF e],
        blast dest: check_sink_fresh check_seat_fresh check_source_fresh)+
  have seats: "\<forall>s \<in> set b. valid_seat s" by (rule scanE_all [OF b]) (blast dest: check_seat_fresh)
  have domains: "distinct (map dm_id ds)" "distinct (map dm_name ds)" "distinct (map dm_initrd ds)"
    by (rule scanE_distinct [OF ds], blast dest: check_domain_valid [OF _ users(2)])+
  have valid: "\<forall>d \<in> set ds. valid_domain c d"
    by (rule scanE_all [OF ds]) (blast dest: check_domain_valid(1) [OF _ users(2)])
  have names: "map au_name ss = map au_name (sc_authentication_sources c)"
    by (rule scanE_same [OF ss]) (blast dest: resolve_provider_InrD)
  have providers: "\<forall>s \<in> set ss. au_provider_domain_index s < length ds \<and>
      dm_id (ds ! au_provider_domain_index s) = au_provider_domain_id s"
    by (rule scanE_all [OF ss]) (blast dest: resolve_provider_InrD)
  have "list_all (valid_domain c') ds" "list_all (valid_provider c') ss"
    using valid providers by (auto simp: list_all_iff c' valid_domain_cong [OF names] valid_provider_def)
  then show ?thesis
    using top ids fresh seats domains names users(2-4) \<open>found\<close> count_roots_one [OF roots, of 0]
      domains_slots [OF ds users(2)]
    by (simp add: valid_config_def c' list_all_iff)
qed

text \<open>A domain without an authentication source keeps the index 0 it was created with.\<close>

lemma config_parse_source_index:
  assumes "facet_config_parse h bytes = (Inr (), c)" and "d \<in> set (sc_domains c)"
    and "dm_authentication_source d = None"
  shows "dm_authentication_source_index d = 0"
proof -
  have "config_parse h bytes = Inr c"
    using assms(1) by (auto simp: facet_config_parse_def split: sum.splits)
  then obtain p :: Parser where p: "parser_ok p" "validate_required (p_facet_seen p) (p_config p) = Inr c"
    by (rule config_parse_InrD)
  then obtain ds where ds: "scanE (check_domain (p_config p)) (sc_domains (p_config p)) = Inr ds" "sc_domains c = ds"
    by (auto simp: validate_required_def bindE_eq_Inr split: if_splits)
  have "dm_authentication_source e' = None \<longrightarrow> dm_authentication_source_index e' = 0"
    if "domain_fields e" "check_domain (p_config p) prev e = Inr e'" for prev e e'
    using that by (auto simp: check_domain_def error_monad domain_fields_def resolve_authentication_def
        split: if_splits option.splits)
  then have "\<forall>e \<in> set ds. dm_authentication_source e = None \<longrightarrow> dm_authentication_source_index e = 0"
    using p(1) by (intro scanE_all [OF ds(1)]) (auto simp: parser_ok_def config_fields_def list_all_iff)
  with assms ds(2) show ?thesis by simp
qed

text \<open>
  C8. An accepted configuration is valid.  When facet_config_parse succeeds the
  version is 1, all names and identifiers of sinks, seats, authentication sources,
  users and domains are unique, every user has a name, a supported password hash and
  absolute paths, initial RAM disks are assigned once, every sink,
  terminal, user and authentication reference of a domain is resolved to an index
  in range of the object it names, no seat terminal is given to two domains, the
  root user is the administrator with uid and gid 0, and root_index selects the
  one domain with id 0.
\<close>

theorem config_parse_valid:
  assumes "facet_config_parse h bytes = (Inr (), c)"
  shows "valid_config c"
proof -
  have "config_parse h bytes = Inr c"
    using assms by (auto simp: facet_config_parse_def split: sum.splits)
  then show ?thesis by (rule config_parse_InrD) (rule validate_required_valid)
qed

theorem config_parse_valid_witness:
  "facet_config_parse 100 sample_text = (Inr (), sample_config) \<and> valid_config sample_config"
  using config_parse_valid [OF sample_parses] sample_parses by simp

end
