(* ===== verification/Sha256.thy ===== *)
theory Sha256
  imports Prelude
begin

text \<open>
  The hash function of libfacet/src/common/sha256.c, which names principals and
  is meant to be SHA-256: the streaming implementation (a 64-byte buffer, any
  split of the input) and, as its specification, the definition of the standard,
  which pads the whole message and folds the compression function over its
  blocks; its compression function is written with the functions of the standard.

  Bytes are characters, 32-bit and 64-bit integers are words.
\<close>

section \<open>The compression function\<close>

definition rr :: "u32 \<Rightarrow> nat \<Rightarrow> u32" where
  "rr x n = drop_bit n x OR push_bit (32 - n) x"

definition constants :: "u32 list" where
  "constants =
    [0x428A2F98, 0x71374491, 0xB5C0FBCF, 0xE9B5DBA5, 0x3956C25B, 0x59F111F1, 0x923F82A4, 0xAB1C5ED5,
     0xD807AA98, 0x12835B01, 0x243185BE, 0x550C7DC3, 0x72BE5D74, 0x80DEB1FE, 0x9BDC06A7, 0xC19BF174,
     0xE49B69C1, 0xEFBE4786, 0x0FC19DC6, 0x240CA1CC, 0x2DE92C6F, 0x4A7484AA, 0x5CB0A9DC, 0x76F988DA,
     0x983E5152, 0xA831C66D, 0xB00327C8, 0xBF597FC7, 0xC6E00BF3, 0xD5A79147, 0x06CA6351, 0x14292967,
     0x27B70A85, 0x2E1B2138, 0x4D2C6DFC, 0x53380D13, 0x650A7354, 0x766A0ABB, 0x81C2C92E, 0x92722C85,
     0xA2BFE8A1, 0xA81A664B, 0xC24B8B70, 0xC76C51A3, 0xD192E819, 0xD6990624, 0xF40E3585, 0x106AA070,
     0x19A4C116, 0x1E376C08, 0x2748774C, 0x34B0BCB5, 0x391C0CB3, 0x4ED8AA4A, 0x5B9CCA4F, 0x682E6FF3,
     0x748F82EE, 0x78A5636F, 0x84C87814, 0x8CC70208, 0x90BEFFFA, 0xA4506CEB, 0xBEF9A3F7, 0xC67178F2]"

definition load_word :: "string \<Rightarrow> nat \<Rightarrow> u32" where
  "load_word p i =
     push_bit 24 (word_of_nat (byte_val (p ! (i * 4)))) OR push_bit 16 (word_of_nat (byte_val (p ! (i * 4 + 1)))) OR
     push_bit 8 (word_of_nat (byte_val (p ! (i * 4 + 2)))) OR word_of_nat (byte_val (p ! (i * 4 + 3)))"

definition schedule_step :: "u32 list \<Rightarrow> nat \<Rightarrow> u32 list" where
  "schedule_step w i =
     w @ [w ! (i - 16) + (rr (w ! (i - 15)) 7 XOR rr (w ! (i - 15)) 18 XOR drop_bit 3 (w ! (i - 15))) +
          w ! (i - 7) + (rr (w ! (i - 2)) 17 XOR rr (w ! (i - 2)) 19 XOR drop_bit 10 (w ! (i - 2)))]"

definition schedule :: "string \<Rightarrow> u32 list" where
  "schedule p = foldl schedule_step (map (load_word p) [0..<16]) [16..<64]"

type_synonym sha_words = "u32 \<times> u32 \<times> u32 \<times> u32 \<times> u32 \<times> u32 \<times> u32 \<times> u32"

fun sha_round :: "sha_words \<Rightarrow> u32 \<times> u32 \<Rightarrow> sha_words" where
  "sha_round (a, b, c, d, e, f, g, h) (k, w) =
     (let x = h + (rr e 6 XOR rr e 11 XOR rr e 25) + ((e AND f) XOR (NOT e AND g)) + k + w;
          y = (rr a 2 XOR rr a 13 XOR rr a 22) + ((a AND b) XOR (a AND c) XOR (b AND c)) in
      (x + y, a, b, c, d + x, e, f, g))"

fun add_words :: "sha_words \<Rightarrow> sha_words \<Rightarrow> sha_words" where
  "add_words (a, b, c, d, e, f, g, h) (a', b', c', d', e', f', g', h') =
     (a + a', b + b', c + c', d + d', e + e', f + f', g + g', h + h')"

definition block :: "sha_words \<Rightarrow> string \<Rightarrow> sha_words" where
  "block h p = add_words h (foldl sha_round h (zip constants (schedule p)))"

section \<open>The streaming implementation\<close>

record State =
  sh_length :: u64
  sh_h :: sha_words
  sh_buffer :: string

definition initial_words :: sha_words where
  "initial_words =
     (0x6A09E667, 0xBB67AE85, 0x3C6EF372, 0xA54FF53A, 0x510E527F, 0x9B05688C, 0x1F83D9AB, 0x5BE0CD19)"

definition init :: State where
  "init = \<lparr>sh_length = 0, sh_h = initial_words, sh_buffer = replicate 64 NUL\<rparr>"

definition store :: "string \<Rightarrow> nat \<Rightarrow> string \<Rightarrow> string" where
  "store buffer offset bytes = take offset buffer @ bytes @ drop (offset + length bytes) buffer"

function absorb :: "sha_words \<Rightarrow> string \<Rightarrow> sha_words \<times> string" where
  "absorb h p = (if length p \<ge> 64 then absorb (block h (take 64 p)) (drop 64 p) else (h, p))"
  by auto
termination
  by (relation "measure (length \<circ> snd)") auto

declare absorb.simps [simp del]

definition update :: "State \<Rightarrow> string \<Rightarrow> State" where
  "update s p =
     (let used = unat (sh_length s mod 64);
          s1 = s\<lparr>sh_length := sh_length s + word_of_nat (length p)\<rparr>;
          (s2, p2) =
            (if used \<noteq> 0
             then (let n = min (64 - used) (length p); buffer = store (sh_buffer s1) used (take n p) in
                   (s1\<lparr>sh_buffer := buffer, sh_h := (if used + n = 64 then block (sh_h s1) buffer else sh_h s1)\<rparr>,
                    drop n p))
             else (s1, p));
          (h, rest) = absorb (sh_h s2) p2 in
      s2\<lparr>sh_h := h, sh_buffer := (if rest \<noteq> [] then store (sh_buffer s2) 0 rest else sh_buffer s2)\<rparr>)"

definition length_bytes :: "u64 \<Rightarrow> string" where
  "length_bytes bits = map (\<lambda>i. char_of (unat (ucast (drop_bit ((7 - i) * 8) bits) :: 8 word))) [0..<8]"

definition word_bytes :: "u32 \<Rightarrow> string" where
  "word_bytes w = map (\<lambda>i. char_of (unat (ucast (drop_bit i w) :: 8 word))) [24, 16, 8, 0]"

fun digest_bytes :: "sha_words \<Rightarrow> string" where
  "digest_bytes (a, b, c, d, e, f, g, h) = concat (map word_bytes [a, b, c, d, e, f, g, h])"

definition finish :: "State \<Rightarrow> string" where
  "finish s =
     (let used = unat (sh_length s mod 64);
          buffer1 = store (sh_buffer s) used [CHR 0x80]; used1 = used + 1;
          (h2, buffer2, used2) =
            (if used1 > 56
             then (let buffer = store buffer1 used1 (replicate (64 - used1) NUL) in (block (sh_h s) buffer, buffer, 0))
             else (sh_h s, buffer1, used1));
          buffer3 = store buffer2 used2 (replicate (56 - used2) NUL);
          buffer4 = store buffer3 56 (length_bytes (sh_length s * 8)) in
      digest_bytes (block h2 buffer4))"

definition facet_sha256 :: "string \<Rightarrow> string" where
  "facet_sha256 data = finish (update init data)"

definition facet_sha256_hex :: "string \<Rightarrow> string" where
  "facet_sha256_hex d =
     concat (map (\<lambda>c. [''0123456789abcdef'' ! (byte_val c div 16), ''0123456789abcdef'' ! (byte_val c mod 16)]) d)"

section \<open>The standard\<close>

definition sigma0 :: "u32 \<Rightarrow> u32" where
  "sigma0 x = word_rotr 7 x XOR word_rotr 18 x XOR drop_bit 3 x"

definition sigma1 :: "u32 \<Rightarrow> u32" where
  "sigma1 x = word_rotr 17 x XOR word_rotr 19 x XOR drop_bit 10 x"

definition Sigma0 :: "u32 \<Rightarrow> u32" where
  "Sigma0 x = word_rotr 2 x XOR word_rotr 13 x XOR word_rotr 22 x"

definition Sigma1 :: "u32 \<Rightarrow> u32" where
  "Sigma1 x = word_rotr 6 x XOR word_rotr 11 x XOR word_rotr 25 x"

definition Ch :: "u32 \<Rightarrow> u32 \<Rightarrow> u32 \<Rightarrow> u32" where
  "Ch x y z = (x AND y) OR (NOT x AND z)"

definition Maj :: "u32 \<Rightarrow> u32 \<Rightarrow> u32 \<Rightarrow> u32" where
  "Maj x y z = (x AND y) OR (x AND z) OR (y AND z)"

fun W :: "string \<Rightarrow> nat \<Rightarrow> u32" where
  "W p t = (if t < 16 then load_word p t
            else sigma1 (W p (t - 2)) + W p (t - 7) + sigma0 (W p (t - 15)) + W p (t - 16))"

fun standard_round :: "string \<Rightarrow> sha_words \<Rightarrow> nat \<Rightarrow> sha_words" where
  "standard_round p (a, b, c, d, e, f, g, h) t =
     (let T1 = h + Sigma1 e + Ch e f g + constants ! t + W p t; T2 = Sigma0 a + Maj a b c in
      (T1 + T2, a, b, c, d + T1, e, f, g))"

definition compress :: "sha_words \<Rightarrow> string \<Rightarrow> sha_words" where
  "compress h p = add_words (foldl (standard_round p) h [0..<64]) h"

fun chunks :: "nat \<Rightarrow> string \<Rightarrow> string list" where
  "chunks 0 m = []"
| "chunks (Suc n) m = take 64 m # chunks n (drop 64 m)"

text \<open>A bit 1, zero bits up to 8 bytes before a multiple of 64 bytes, and the length in bits.\<close>

definition pad :: "string \<Rightarrow> string" where
  "pad m = m @ [CHR 0x80] @ replicate ((119 - length m mod 64) mod 64) NUL @ length_bytes (word_of_nat (8 * length m))"

definition sha256 :: "string \<Rightarrow> string" where
  "sha256 m = digest_bytes (foldl compress initial_words (chunks (length (pad m) div 64) (pad m)))"

section \<open>The compression function is that of the standard\<close>

declare W.simps [simp del]

lemma rr_rotr: "0 < n \<Longrightarrow> n < 32 \<Longrightarrow> rr x n = word_rotr n x"
proof (rule bit_word_eqI)
  fix k assume n: "0 < n" "n < 32" and "k < LENGTH(32)"
  then have k: "k < 32" by simp
  show "bit (rr x n) k = bit (word_rotr n x) k"
  proof (cases "k + n < 32")
    case True
    then have "\<not> 32 - n \<le> k" by linarith
    with True n k show ?thesis
      by (simp add: rr_def bit_word_rotr_iff bit_or_iff bit_drop_bit_eq bit_push_bit_iff add.commute)
  next
    case False
    then have "(k + n) mod 32 = k + n - 32" using n k by (simp add: mod_if)
    moreover have "\<not> bit x (n + k)" using False impossible_bit [of "n + k" x] by auto
    moreover have "32 - n \<le> k" using False by linarith
    ultimately show ?thesis using False n k
      by (simp add: rr_def bit_word_rotr_iff bit_or_iff bit_drop_bit_eq bit_push_bit_iff)
  qed
qed

lemma choose_majority:
  "(e AND f) XOR (NOT e AND g) = Ch e f g" "(a AND b) XOR (a AND c) XOR (b AND c) = Maj a b c"
  by (rule bit_word_eqI; auto simp: Ch_def Maj_def bit_simps)+

lemma schedule_W: "foldl schedule_step (map (load_word p) [0..<16]) [16..<16 + n] = map (W p) [0..<16 + n]"
proof (induction n)
  case 0
  show ?case by (simp add: W.simps)
next
  case (Suc n)
  have "schedule_step (map (W p) [0..<16 + n]) (16 + n) = map (W p) [0..<16 + n] @ [W p (16 + n)]"
    unfolding schedule_step_def W.simps [of p "16 + n"]
    by (simp add: rr_rotr sigma0_def sigma1_def add.assoc add.commute add.left_commute)
  moreover have "[16..<16 + Suc n] = [16..<16 + n] @ [16 + n]" "[0..<16 + Suc n] = [0..<16 + n] @ [16 + n]"
    unfolding add_Suc_right by (rule upt_Suc_append, simp)+
  ultimately show ?case by (simp only: foldl_append foldl.simps Suc map_append list.map)
qed

lemma sha_round_standard: "sha_round s (constants ! t, W p t) = standard_round p s t"
  by (cases "(s, constants ! t, W p t)" rule: sha_round.cases)
    (simp add: rr_rotr choose_majority Sigma0_def Sigma1_def Let_def add.assoc add.commute add.left_commute)

lemma block_compress: "block = compress"
proof (intro ext)
  fix h p
  have "schedule p = map (W p) [0..<64]" using schedule_W [of p 48] by (simp add: schedule_def)
  moreover have "length constants = 64" by (simp add: constants_def)
  then have "constants = map ((!) constants) [0..<64]" using map_nth [of constants] by simp
  moreover have "zip (map f ts) (map g ts) = map (\<lambda>t. (f t, g t)) ts" for f :: "nat \<Rightarrow> u32" and g :: "nat \<Rightarrow> u32" and ts
    by (induction ts) auto
  ultimately have "zip constants (schedule p) = map (\<lambda>t. (constants ! t, W p t)) [0..<64]" by metis
  then have "foldl sha_round h (zip constants (schedule p)) = foldl (standard_round p) h [0..<64]"
    by (simp only: foldl_map sha_round_standard)
  moreover have "add_words x y = add_words y x" for x y
    by (cases "(x, y)" rule: add_words.cases) (simp add: add.commute)
  ultimately show "block h p = compress h p" by (simp only: block_def compress_def)
qed

section \<open>The state of a partly read message\<close>

definition hash_blocks :: "string \<Rightarrow> sha_words" where
  "hash_blocks m = foldl block initial_words (chunks (length m div 64) m)"

text \<open>The state after reading \<open>full @ rest\<close>: whole blocks are hashed, the rest is in the buffer.\<close>

definition absorbed :: "State \<Rightarrow> string \<Rightarrow> string \<Rightarrow> bool" where
  "absorbed s full rest \<longleftrightarrow>
     64 dvd length full \<and> length rest < 64 \<and> length (sh_buffer s) = 64 \<and>
     sh_length s = word_of_nat (length full + length rest) \<and>
     sh_h s = hash_blocks full \<and> take (length rest) (sh_buffer s) = rest"

lemma chunks_append: "length xs = 64 * n \<Longrightarrow> chunks (n + k) (xs @ ys) = chunks n xs @ chunks k ys"
  by (induction n arbitrary: xs) auto

lemma hash_blocks_append:
  assumes "64 dvd length full" and "length b = 64"
  shows "hash_blocks (full @ b) = block (hash_blocks full) b"
proof -
  from assms(1) obtain n where n: "length full = 64 * n" by (rule dvdE)
  have count: "length (full @ b) div 64 = n + 1" "length full div 64 = n" using n assms(2) by simp_all
  have "chunks (n + 1) (full @ b) = chunks n full @ [b]"
    using chunks_append [OF n, of 1 b] assms(2) by simp
  then show ?thesis unfolding hash_blocks_def count by simp
qed

lemma used_eq: "64 dvd n \<Longrightarrow> r < 64 \<Longrightarrow> unat ((word_of_nat (n + r) :: u64) mod 64) = r"
proof -
  assume "64 dvd n" "r < 64"
  have "unat ((word_of_nat (n + r) :: u64) mod 64) = (n + r) mod 2 ^ 64 mod 64"
    by (simp only: unat_mod_distrib unsigned_of_nat take_bit_eq_mod) (simp add: unsigned_numeral)
  also have "\<dots> = (n + r) mod 64" by (rule mod_mod_cancel) simp
  also have "\<dots> = r" using \<open>64 dvd n\<close> \<open>r < 64\<close> by (auto elim!: dvdE)
  finally show ?thesis .
qed

lemma absorb_absorbed:
  assumes "64 dvd length full" and "h = hash_blocks full" and "absorb h p = (h', rest)"
  shows "\<exists>p'. p = p' @ rest \<and> 64 dvd length p' \<and> length rest < 64 \<and> h' = hash_blocks (full @ p')"
  using assms
proof (induction h p arbitrary: full rule: absorb.induct)
  case (1 h p)
  show ?case
  proof (cases "length p \<ge> 64")
    case True
    with "1.prems" have rec: "absorb (block h (take 64 p)) (drop 64 p) = (h', rest)"
      by (subst (asm) absorb.simps) simp
    have "block h (take 64 p) = hash_blocks (full @ take 64 p)"
      using True "1.prems" by (simp add: hash_blocks_append)
    moreover have "64 dvd length (full @ take 64 p)" using True "1.prems" by simp
    ultimately obtain p' where "drop 64 p = p' @ rest" "64 dvd length p'" "length rest < 64"
      "h' = hash_blocks ((full @ take 64 p) @ p')"
      using "1.IH" [OF True _ _ rec] by blast
    moreover have "p = take 64 p @ drop 64 p" by simp
    ultimately show ?thesis using True
      by (intro exI [of _ "take 64 p @ p'"]) (metis append.assoc dvd_add dvd_refl length_append length_take min.absorb2)
  next
    case False
    with "1.prems" have "h' = h" "rest = p" by (subst (asm) absorb.simps, simp)+
    with False "1.prems" show ?thesis by simp
  qed
qed

lemma length_store: "offset + length bytes \<le> length buffer \<Longrightarrow> length (store buffer offset bytes) = length buffer"
  by (simp add: store_def)

lemma take_store:
  "take offset buffer = pre \<Longrightarrow> offset \<le> length buffer \<Longrightarrow>
   take (offset + length bytes) (store buffer offset bytes) = pre @ bytes"
  by (auto simp: store_def)

lemma absorb_Nil [simp]: "absorb h [] = (h, [])"
  by (simp add: absorb.simps)

lemma absorbed_init: "absorbed init [] []"
  by (simp add: absorbed_def init_def hash_blocks_def)

lemma update_aligned:
  assumes "absorbed s full []"
  shows "\<exists>full' rest'. absorbed (update s p) full' rest' \<and> full' @ rest' = full @ p"
proof -
  have s: "64 dvd length full" "length (sh_buffer s) = 64" "sh_length s = word_of_nat (length full)"
    "sh_h s = hash_blocks full"
    using assms by (simp_all add: absorbed_def)
  obtain h r where absorb: "absorb (sh_h s) p = (h, r)" by fastforce
  obtain p' where p': "p = p' @ r" "64 dvd length p'" "length r < 64" "h = hash_blocks (full @ p')"
    using absorb_absorbed [OF s(1,4) absorb] by blast
  have "unat (sh_length s mod 64) = 0" using s used_eq [of "length full" 0] by simp
  then have "update s p = s\<lparr>sh_length := word_of_nat (length full + length p), sh_h := h,
      sh_buffer := (if r \<noteq> [] then store (sh_buffer s) 0 r else sh_buffer s)\<rparr>"
    using absorb s(3) by (simp add: update_def Let_def)
  then have "absorbed (update s p) (full @ p') r"
    using s p' take_store [of 0 "sh_buffer s" "[]" r] by (simp add: absorbed_def length_store add.assoc)
  then show ?thesis using p'(1) by (intro exI [of _ "full @ p'"] exI [of _ r] conjI) simp_all
qed

text \<open>Filling the buffer to its end first makes the state aligned.\<close>

lemma update_fill:
  assumes "absorbed s full rest" and "rest \<noteq> []" and "64 - length rest \<le> length p"
  shows "\<exists>s'. absorbed s' (full @ rest @ take (64 - length rest) p) [] \<and>
           update s p = update s' (drop (64 - length rest) p)"
proof -
  let ?n = "64 - length rest"
  let ?buffer = "store (sh_buffer s) (length rest) (take ?n p)"
  let ?s = "s\<lparr>sh_length := sh_length s + word_of_nat ?n, sh_h := block (sh_h s) ?buffer, sh_buffer := ?buffer\<rparr>"
  have s: "64 dvd length full" "length rest < 64" "length (sh_buffer s) = 64"
    "sh_length s = word_of_nat (length full + length rest)" "sh_h s = hash_blocks full"
    "take (length rest) (sh_buffer s) = rest"
    using assms(1) by (simp_all add: absorbed_def)
  have filled: "?buffer = rest @ take ?n p" using s assms(3) by (simp add: store_def)
  have dvd: "64 dvd length (full @ rest @ take ?n p)" using s assms(3) by simp
  have len: "sh_length s + word_of_nat ?n = word_of_nat (length (full @ rest @ take ?n p))"
    using s(2,4) assms(3) by simp
  have "sh_h ?s = hash_blocks (full @ rest @ take ?n p)"
    using hash_blocks_append [OF s(1), of "rest @ take ?n p"] s filled assms(3) by simp
  then have "absorbed ?s (full @ rest @ take ?n p) []"
    using dvd len filled s(2) assms(3) by (simp add: absorbed_def)
  moreover have "unat (sh_length s mod 64) = length rest" using s used_eq by simp
  moreover have "unat (sh_length ?s mod 64) = 0"
    using used_eq [OF dvd, of 0] len by simp
  moreover have "sh_length s + word_of_nat (length p) = sh_length ?s + word_of_nat (length (drop ?n p))"
  proof -
    have "length p = ?n + length (drop ?n p)" using assms(3) by simp
    then have "word_of_nat (length p) = word_of_nat ?n + (word_of_nat (length (drop ?n p)) :: u64)"
      by (metis of_nat_add)
    then show ?thesis by (simp add: add.assoc del: length_drop)
  qed
  ultimately show ?thesis
    using assms(2,3) s(2) by (intro exI [of _ ?s] conjI) (simp_all add: update_def Let_def min_def split: prod.splits
        del: of_nat_diff length_drop)
qed

text \<open>Reading more bytes, whatever the split.\<close>

lemma update_absorbed:
  assumes "absorbed s full rest"
  shows "\<exists>full' rest'. absorbed (update s p) full' rest' \<and> full' @ rest' = full @ rest @ p"
proof -
  consider "rest = []" | "rest \<noteq> []" "64 - length rest \<le> length p" | "rest \<noteq> []" "length p < 64 - length rest"
    by linarith
  then show ?thesis
  proof cases
    case 1
    with update_aligned assms show ?thesis by simp
  next
    case 2
    from update_fill [OF assms this] obtain s' where s':
      "absorbed s' (full @ rest @ take (64 - length rest) p) []" "update s p = update s' (drop (64 - length rest) p)"
      by blast
    from update_aligned [OF s'(1), of "drop (64 - length rest) p"] s'(2) show ?thesis by simp
  next
    case 3
    have s: "64 dvd length full" "length (sh_buffer s) = 64" "take (length rest) (sh_buffer s) = rest"
      "sh_length s = word_of_nat (length full + length rest)" "sh_h s = hash_blocks full"
      using assms by (simp_all add: absorbed_def)
    then have "unat (sh_length s mod 64) = length rest" using 3 used_eq by simp
    with 3 have "update s p = s\<lparr>sh_length := sh_length s + word_of_nat (length p),
        sh_buffer := store (sh_buffer s) (length rest) p\<rparr>"
      by (simp add: update_def Let_def)
    with s 3 have "absorbed (update s p) full (rest @ p)"
      by (simp add: absorbed_def length_store take_store add.assoc)
    then show ?thesis by (intro exI [of _ full] exI [of _ "rest @ p"] conjI) simp_all
  qed
qed

section \<open>Finishing\<close>

lemma length_length_bytes [simp]: "length (length_bytes n) = 8"
  by (simp add: length_bytes_def)

text \<open>Writing behind a known prefix of the buffer.\<close>

lemma store_prefix:
  assumes "take offset buffer = pre" and "offset + length bytes \<le> 64" and "length buffer = 64"
  shows "take (offset + length bytes) (store buffer offset bytes) = pre @ bytes"
    and "length (store buffer offset bytes) = 64"
  using assms take_store [OF assms(1), of bytes] by (auto simp: length_store)

lemma last_block:
  assumes "take used buffer = pre" and "used \<le> 56" and "length buffer = 64"
  shows "store (store buffer used (replicate (56 - used) NUL)) 56 (length_bytes n) =
           pre @ replicate (56 - used) NUL @ length_bytes n"
proof -
  let ?b = "store buffer used (replicate (56 - used) NUL)"
  have b: "take 56 ?b = pre @ replicate (56 - used) NUL" "length ?b = 64"
    using store_prefix [of used buffer pre "replicate (56 - used) NUL"] assms by simp_all
  then show ?thesis
    using store_prefix [OF b(1) _ b(2), of "length_bytes n"] by simp
qed

lemma sha256_blocks: "sha256 m = digest_bytes (hash_blocks (pad m))"
  by (simp add: sha256_def hash_blocks_def block_compress)

lemma finish_absorbed:
  assumes "absorbed s full rest"
  shows "finish s = sha256 (full @ rest)"
proof -
  let ?t = "length rest" and ?m = "full @ rest" and ?bits = "length_bytes (sh_length s * 8)"
  have s: "64 dvd length full" "?t < 64" "length (sh_buffer s) = 64" "take ?t (sh_buffer s) = rest"
    "sh_length s = word_of_nat (length full + ?t)" "sh_h s = hash_blocks full"
    using assms by (simp_all add: absorbed_def)
  have used: "unat (sh_length s mod 64) = ?t" using s used_eq by simp
  have bits: "?bits = length_bytes (word_of_nat (8 * length ?m))" using s(5) by (simp add: mult.commute)
  have mod: "length ?m mod 64 = ?t" using s(1,2) by (auto elim!: dvdE)
  let ?b1 = "store (sh_buffer s) ?t [CHR 0x80]"
  have b1: "take (?t + 1) ?b1 = rest @ [CHR 0x80]" "length ?b1 = 64"
    using store_prefix [OF s(4), of "[CHR 0x80]"] s(2,3) by simp_all
  show ?thesis
  proof (cases "?t \<le> 55")
    case True
    let ?b = "rest @ [CHR 0x80] @ replicate (55 - ?t) NUL @ ?bits"
    have "(119 - ?t) mod 64 = 55 - ?t" using True by (simp add: mod_if)
    then have "pad ?m = full @ ?b" unfolding pad_def mod bits by simp
    moreover have "hash_blocks (full @ ?b) = block (sh_h s) ?b"
      using hash_blocks_append [OF s(1), of ?b] s(6) True by simp
    moreover have "finish s = digest_bytes (block (sh_h s) ?b)"
      using True last_block [OF b1(1) _ b1(2)] by (simp add: finish_def used Let_def)
    ultimately show ?thesis by (simp only: sha256_blocks)
  next
    case False
    let ?b = "rest @ [CHR 0x80] @ replicate (63 - ?t) NUL" and ?c = "replicate 56 NUL @ ?bits"
    have "(119 - ?t) mod 64 = (63 - ?t) + 56" using False s(2) by simp
    then have "replicate ((119 - ?t) mod 64) NUL = replicate (63 - ?t) NUL @ replicate 56 NUL"
      by (simp only: replicate_add)
    then have "pad ?m = (full @ ?b) @ ?c" unfolding pad_def mod bits by simp
    moreover have "hash_blocks ((full @ ?b) @ ?c) = block (block (sh_h s) ?b) ?c"
      using hash_blocks_append [OF s(1), of ?b] hash_blocks_append [of "full @ ?b" ?c] s(1,2,6) by simp
    moreover have "store ?b1 (?t + 1) (replicate (63 - ?t) NUL) = ?b"
      using store_prefix [OF b1(1) _ b1(2), of "replicate (63 - ?t) NUL"] s(2) by simp
    then have "finish s = digest_bytes (block (block (sh_h s) ?b) ?c)"
      using False last_block [of 0 ?b "[]"] s(2) by (simp add: finish_def used Let_def)
    ultimately show ?thesis by (simp only: sha256_blocks)
  qed
qed

text \<open>
  C20.  The hash a stream of updates computes is the SHA-256 of the concatenated
  input, however it is split; in particular facet_sha256 is SHA-256.
\<close>

theorem sha256_correct:
  "finish (foldl update init ps) = sha256 (concat ps) \<and> facet_sha256 m = sha256 m"
proof -
  have stream: "\<exists>full' rest'. absorbed (foldl update s ps) full' rest' \<and> full' @ rest' = full @ rest @ concat ps"
    if "absorbed s full rest" for s full rest ps
    using that
  proof (induction ps arbitrary: s full rest)
    case (Cons p ps)
    from update_absorbed [OF Cons.prems, of p] obtain full1 rest1 where
      "absorbed (update s p) full1 rest1" "full1 @ rest1 = full @ rest @ p" by blast
    with Cons.IH show ?case by fastforce
  qed auto
  have "finish (foldl update init ps) = sha256 (concat ps)" for ps
    using stream [OF absorbed_init, of ps] finish_absorbed by fastforce
  from this [of ps] this [of "[m]"] show ?thesis by (simp add: facet_sha256_def)
qed

end
