(* ===== verification/Auth.thy ===== *)
theory Auth
  imports ConfigValid Sha256
begin

text \<open>
  The local authentication authority of dominit0/auth.c: the users of a domain,
  the check of a password, the objects that stand for a principal, an
  authentication result and a session, and the session manager.

  Exported objects are numbered; a handle is the number of its object, and a copy
  of a handle denotes the same object.  Objects of other processes are in the same
  table: what they answer is a parameter.  Every step that can run out of memory
  or capability slots takes one unit of a budget.  crypt(3) is a parameter, which
  returns the text it writes; pointer arguments are not NULL.
\<close>

section \<open>State\<close>

datatype AuthIid =
    IID_IGenericObject
  | IID_IPrincipal
  | IID_IHumanUser
  | IID_IAuthenticatedPrincipal
  | IID_IAuthService
  | IID_ISecurityManager
  | IID_ISession
  | IID_Other nat

text \<open>An object: what it stands for, by the index of its authority and user.\<close>

datatype AuthObject =
    OService nat
  | OSecurity nat
  | OPrincipal nat nat
  | OHuman nat nat
  | OAuthenticated nat nat
  | OSession FacetHandle nat FacetConfigUser
  | OForeign nat

record AuthUser =
  au_config :: FacetConfigUser
  au_principal_handle :: FacetHandle
  au_human_handle :: FacetHandle
  au_authenticated_handle :: FacetHandle

record Session =
  ss_handle :: FacetHandle
  ss_principal :: FacetHandle
  ss_domain_id :: nat
  ss_user :: FacetConfigUser

record AuthAuthority =
  aa_service_handle :: FacetHandle
  aa_security_handle :: FacetHandle
  aa_users :: "AuthUser list"
  aa_sessions :: "Session list"
  aa_domain_id :: nat

record AuthState =
  as_authorities :: "AuthAuthority list"
  as_objects :: "AuthObject option list"
  as_budget :: nat

type_synonym 'a auth = "(AuthState, 'a) service"

definition need :: "FacetResult \<Rightarrow> unit auth" where
  "need e s = (if as_budget s = 0 then (Inl e, s) else (Inr (), s\<lparr>as_budget := as_budget s - 1\<rparr>))"

definition object_of :: "AuthState \<Rightarrow> FacetHandle \<Rightarrow> AuthObject option" where
  "object_of s h =
     (case h of
        None \<Rightarrow> None
      | Some n \<Rightarrow> if n < length (as_objects s) then as_objects s ! n else None)"

definition update_authority :: "nat \<Rightarrow> (AuthAuthority \<Rightarrow> AuthAuthority) \<Rightarrow> AuthState \<Rightarrow> AuthState" where
  "update_authority a f s = s\<lparr>as_authorities := (as_authorities s)[a := f (as_authorities s ! a)]\<rparr>"

definition update_user :: "nat \<Rightarrow> nat \<Rightarrow> (AuthUser \<Rightarrow> AuthUser) \<Rightarrow> AuthState \<Rightarrow> AuthState" where
  "update_user a u f s =
     s\<lparr>as_authorities := (as_authorities s)[a :=
        (as_authorities s ! a)\<lparr>aa_users := (aa_users (as_authorities s ! a))[u :=
           f (aa_users (as_authorities s ! a) ! u)]\<rparr>]\<rparr>"

abbreviation user_at :: "AuthState \<Rightarrow> nat \<Rightarrow> nat \<Rightarrow> AuthUser" where
  "user_at s a u \<equiv> aa_users (as_authorities s ! a) ! u"

section \<open>Handles and objects\<close>

definition clone_handle :: "FacetHandle \<Rightarrow> FacetHandle auth" where
  "clone_handle h =
     (if h = None then failS FACET_INVALID_HANDLE
      else bindS (need FACET_OUT_OF_MEMORY) (\<lambda>_. returnS h))"

definition export_object :: "AuthObject \<Rightarrow> FacetHandle auth" where
  "export_object obj = bindS (need FACET_OUT_OF_MEMORY) (\<lambda>_ s.
     (Inr (Some (length (as_objects s))), s\<lparr>as_objects := as_objects s @ [Some obj]\<rparr>))"

definition unexport_object :: "FacetHandle \<Rightarrow> AuthState \<Rightarrow> AuthState" where
  "unexport_object h s =
     (case h of
        None \<Rightarrow> s
      | Some n \<Rightarrow> s\<lparr>as_objects := (as_objects s)[n := None]\<rparr>)"

definition principal_get_interface :: "AuthUser \<Rightarrow> AuthIid \<Rightarrow> FacetHandle auth" where
  "principal_get_interface user iid =
     (if iid = IID_IGenericObject \<or> iid = IID_IPrincipal then clone_handle (au_principal_handle user)
      else if iid = IID_IHumanUser then clone_handle (au_human_handle user)
      else failS FACET_NO_INTERFACE)"

definition human_get_interface :: "AuthUser \<Rightarrow> AuthIid \<Rightarrow> FacetHandle auth" where
  "human_get_interface user iid =
     (if iid = IID_IGenericObject \<or> iid = IID_IHumanUser then clone_handle (au_human_handle user)
      else if iid = IID_IPrincipal then clone_handle (au_principal_handle user)
      else failS FACET_NO_INTERFACE)"

definition authenticated_get_interface :: "AuthUser \<Rightarrow> AuthIid \<Rightarrow> FacetHandle auth" where
  "authenticated_get_interface user iid =
     (if iid = IID_IGenericObject \<or> iid = IID_IAuthenticatedPrincipal
      then clone_handle (au_authenticated_handle user)
      else failS FACET_NO_INTERFACE)"

definition service_get_interface :: "AuthAuthority \<Rightarrow> AuthIid \<Rightarrow> FacetHandle auth" where
  "service_get_interface authority iid =
     (if iid = IID_IGenericObject \<or> iid = IID_IAuthService then clone_handle (aa_service_handle authority)
      else failS FACET_NO_INTERFACE)"

definition security_get_interface :: "AuthAuthority \<Rightarrow> AuthIid \<Rightarrow> FacetHandle auth" where
  "security_get_interface authority iid =
     (if iid = IID_IGenericObject \<or> iid = IID_ISecurityManager then clone_handle (aa_security_handle authority)
      else failS FACET_NO_INTERFACE)"

definition session_get_interface :: "Session \<Rightarrow> AuthIid \<Rightarrow> FacetHandle auth" where
  "session_get_interface session iid =
     (if iid = IID_IGenericObject \<or> iid = IID_ISession then clone_handle (ss_handle session)
      else failS FACET_NO_INTERFACE)"

section \<open>Attributes of a user\<close>

text \<open>Validation guarantees the name, the password hash and the home of every user.\<close>

abbreviation config_name :: "FacetConfigUser \<Rightarrow> string" where
  "config_name u \<equiv> the (us_name u)"

definition principal_id :: "AuthUser \<Rightarrow> string" where
  "principal_id user = take 16 (facet_sha256 (config_name (au_config user)))"

definition principal_name :: "AuthUser \<Rightarrow> string" where
  "principal_name user = config_name (au_config user)"

definition human_full_name :: "AuthUser \<Rightarrow> string" where
  "human_full_name user = principal_name user"

definition human_home :: "AuthUser \<Rightarrow> string" where
  "human_home user = the (us_home_path (au_config user))"

definition human_uid :: "AuthUser \<Rightarrow> u32" where
  "human_uid user = us_uid (au_config user)"

definition human_gid :: "AuthUser \<Rightarrow> u32" where
  "human_gid user = us_gid (au_config user)"

definition human_admin :: "AuthUser \<Rightarrow> bool" where
  "human_admin user = us_admin (au_config user)"

definition human_shell :: "AuthUser \<Rightarrow> string" where
  "human_shell user =
     (case us_native_shell (au_config user) of None \<Rightarrow> ''/FacetOS/FacetShell'' | Some path \<Rightarrow> path)"

definition human_pronouns :: "AuthUser \<Rightarrow> FacetHandle facet" where
  "human_pronouns user = Inl FACET_NOT_FOUND"

definition authenticated_principal :: "AuthUser \<Rightarrow> FacetHandle auth" where
  "authenticated_principal user = clone_handle (au_principal_handle user)"

definition authenticated_domain_id :: "AuthAuthority \<Rightarrow> nat" where
  "authenticated_domain_id authority = aa_domain_id authority"

definition session_principal :: "Session \<Rightarrow> FacetHandle auth" where
  "session_principal session = clone_handle (ss_principal session)"

definition session_domain_id :: "Session \<Rightarrow> nat" where
  "session_domain_id session = ss_domain_id session"

definition session_credentials :: "Session \<Rightarrow> u32 \<times> u32 \<times> bool" where
  "session_credentials session = (us_uid (ss_user session), us_gid (ss_user session), us_admin (ss_user session))"

section \<open>Passwords\<close>

text \<open>The bytes of a C string in memory: the text, its NUL, and what happens to follow.\<close>

definition c_bytes :: "string \<Rightarrow> (nat \<Rightarrow> char) \<Rightarrow> nat \<Rightarrow> char" where
  "c_bytes text after i = (if i < length text then text ! i else if i = length text then NUL else after i)"

definition constant_time_equal :: "(nat \<Rightarrow> char) \<Rightarrow> (nat \<Rightarrow> char) \<Rightarrow> nat \<Rightarrow> bool" where
  "constant_time_equal left right n =
     (foldl (\<lambda>difference i. difference OR (word_of_nat (byte_val (left i)) XOR word_of_nat (byte_val (right i))))
        (0 :: 8 word) [0..<n] = 0)"

text \<open>The name test: the length of the configured name, then its bytes.\<close>

definition name_matches :: "string \<Rightarrow> FacetConfigUser \<Rightarrow> bool" where
  "name_matches name config =
     (length (config_name config) = length name \<and>
      constant_time_equal (c_bytes (config_name config) (\<lambda>_. NUL)) (\<lambda>i. name ! i) (length name))"

text \<open>
  The password test.  strndup stops at a NUL in the password; as many bytes of
  crypt's result are compared as the configured hash has.
\<close>

definition password_matches :: "(string \<Rightarrow> string \<Rightarrow> string option) \<Rightarrow> (nat \<Rightarrow> char) \<Rightarrow> string \<Rightarrow> FacetConfigUser \<Rightarrow> bool" where
  "password_matches crypt after password config =
     (let hash = the (us_password_hash config) in
      case crypt (cstr password) hash of
        None \<Rightarrow> False
      | Some actual \<Rightarrow> constant_time_equal (c_bytes actual after) (c_bytes hash (\<lambda>_. NUL)) (length hash))"

section \<open>Authentication\<close>

definition export_user :: "nat \<Rightarrow> nat \<Rightarrow> unit auth" where
  "export_user a u s =
     (if au_authenticated_handle (user_at s a u) \<noteq> None then (Inr (), s)
      else
      bindS (export_object (OPrincipal a u)) (\<lambda>h1 s1.
      bindS (export_object (OHuman a u)) (\<lambda>h2 s2.
      bindS (export_object (OAuthenticated a u)) (\<lambda>h3 s3.
        (Inr (), update_user a u (\<lambda>x. x\<lparr>au_authenticated_handle := h3\<rparr>) s3))
        (update_user a u (\<lambda>x. x\<lparr>au_human_handle := h2\<rparr>) s2))
        (update_user a u (\<lambda>x. x\<lparr>au_principal_handle := h1\<rparr>) s1)) s)"

definition authenticate :: "(string \<Rightarrow> string \<Rightarrow> string option) \<Rightarrow> (nat \<Rightarrow> char) \<Rightarrow> nat \<Rightarrow> string \<Rightarrow> string \<Rightarrow> FacetHandle auth" where
  "authenticate crypt after a name password s =
     (if length password > 4096 then (Inl FACET_INVALID_ARGUMENT, s)
      else case first_index (name_matches name \<circ> au_config) (aa_users (as_authorities s ! a)) of
        None \<Rightarrow> (Inl FACET_ACCESS_DENIED, s)
      | Some u \<Rightarrow>
          bindS (need FACET_OUT_OF_MEMORY) (\<lambda>_ s1.
            if \<not> password_matches crypt after password (au_config (user_at s1 a u))
            then (Inl FACET_ACCESS_DENIED, s1)
            else bindS (export_user a u) (\<lambda>_ s2.
                 clone_handle (au_authenticated_handle (user_at s2 a u)) s2) s1) s)"

section \<open>Sessions\<close>

text \<open>
  What other objects answer to the two methods of IAuthenticatedPrincipal and to
  IPrincipal's name.  Methods are dispatched by number, and the first two methods
  of ISession are those of IAuthenticatedPrincipal: a session answers as well.
\<close>

record Peer =
  pe_principal :: "AuthObject \<Rightarrow> FacetHandle facet"
  pe_domain_id :: "AuthObject \<Rightarrow> nat facet"
  pe_name :: "AuthObject \<Rightarrow> string facet"

definition call_get_principal :: "Peer \<Rightarrow> FacetHandle \<Rightarrow> FacetHandle auth" where
  "call_get_principal peer h = bindS (need FACET_OUT_OF_MEMORY) (\<lambda>_ s.
     (case object_of s h of
        None \<Rightarrow> (Inl FACET_INVALID_HANDLE, s)
      | Some (OAuthenticated a u) \<Rightarrow> authenticated_principal (user_at s a u) s
      | Some (OSession p domain_id user) \<Rightarrow> clone_handle p s
      | Some obj \<Rightarrow> (pe_principal peer obj, s)))"

definition call_get_domain_id :: "Peer \<Rightarrow> FacetHandle \<Rightarrow> nat auth" where
  "call_get_domain_id peer h = bindS (need FACET_OUT_OF_MEMORY) (\<lambda>_ s.
     ((case object_of s h of
         None \<Rightarrow> Inl FACET_INVALID_HANDLE
       | Some (OAuthenticated a u) \<Rightarrow> Inr (authenticated_domain_id (as_authorities s ! a))
       | Some (OSession p domain_id user) \<Rightarrow> Inr domain_id
       | Some obj \<Rightarrow> pe_domain_id peer obj), s))"

definition call_getname :: "Peer \<Rightarrow> FacetHandle \<Rightarrow> string auth" where
  "call_getname peer h = bindS (need FACET_OUT_OF_MEMORY) (\<lambda>_ s.
     ((case object_of s h of
         None \<Rightarrow> Inl FACET_INVALID_HANDLE
       | Some (OPrincipal a u) \<Rightarrow> Inr (principal_name (user_at s a u))
       | Some obj \<Rightarrow> pe_name peer obj), s))"

text \<open>A proxy takes a copy of the handle and memory for itself.\<close>

definition proxy_for :: "FacetHandle \<Rightarrow> FacetHandle auth" where
  "proxy_for h = bindS (clone_handle h) (\<lambda>h'. bindS (need FACET_OUT_OF_MEMORY) (\<lambda>_. returnS h'))"

text \<open>NULL, for whatever reason, is an error here; the caller does not look at the reason.\<close>

definition principal_user :: "Peer \<Rightarrow> nat \<Rightarrow> FacetHandle \<Rightarrow> nat auth" where
  "principal_user peer a p =
     bindS (proxy_for p) (\<lambda>object.
     bindS (call_getname peer object) (\<lambda>name s.
       case first_index (name_matches name \<circ> au_config) (aa_users (as_authorities s ! a)) of
         None \<Rightarrow> (Inl FACET_ACCESS_DENIED, s)
       | Some u \<Rightarrow> (Inr u, s)))"

definition find_authenticated_user :: "Peer \<Rightarrow> nat \<Rightarrow> FacetHandle \<Rightarrow> nat auth" where
  "find_authenticated_user peer a authenticated =
     bindS (proxy_for authenticated) (\<lambda>prf.
     bindS (call_get_principal peer prf) (\<lambda>p.
     bindS (call_get_domain_id peer prf) (\<lambda>proof_domain_id s.
       if p = None \<or> proof_domain_id \<noteq> aa_domain_id (as_authorities s ! a)
       then (Inl FACET_ACCESS_DENIED, s)
       else principal_user peer a p s)))"

text \<open>A new session goes to the front of the authority's list.\<close>

definition push_session :: "nat \<Rightarrow> Session \<Rightarrow> FacetHandle auth" where
  "push_session a session s =
     clone_handle (ss_handle session)
       (update_authority a (\<lambda>x. x\<lparr>aa_sessions := session # aa_sessions x\<rparr>) s)"

definition open_session :: "nat \<Rightarrow> nat \<Rightarrow> AuthUser \<Rightarrow> FacetHandle auth" where
  "open_session a domain_id user =
     bindS (if au_principal_handle user = None then failS FACET_OUT_OF_MEMORY
            else clone_handle (au_principal_handle user)) (\<lambda>p.
     bindS (export_object (OSession p domain_id (au_config user))) (\<lambda>h.
       push_session a \<lparr>ss_handle = h, ss_principal = p, ss_domain_id = domain_id, ss_user = au_config user\<rparr>))"

definition create_session_for_user :: "nat \<Rightarrow> nat \<Rightarrow> FacetHandle auth" where
  "create_session_for_user a u =
     bindS (export_user a u) (\<lambda>_.
     bindS (need FACET_OUT_OF_MEMORY) (\<lambda>_ s.
       open_session a (aa_domain_id (as_authorities s ! a)) (user_at s a u) s))"

definition denyS :: "'a auth \<Rightarrow> 'a auth" where
  "denyS m s = (case m s of (Inl e, s') \<Rightarrow> (Inl FACET_ACCESS_DENIED, s') | (Inr x, s') \<Rightarrow> (Inr x, s'))"

definition security_create :: "Peer \<Rightarrow> nat \<Rightarrow> FacetHandle \<Rightarrow> FacetHandle auth" where
  "security_create peer a authenticated =
     bindS (denyS (find_authenticated_user peer a authenticated)) (create_session_for_user a)"

definition find_authority :: "nat \<Rightarrow> AuthState \<Rightarrow> nat option" where
  "find_authority domain_id s = first_index (\<lambda>a. aa_domain_id a = domain_id) (as_authorities s)"

definition dominit0_auth_session_for_user :: "nat \<Rightarrow> string \<Rightarrow> FacetHandle auth" where
  "dominit0_auth_session_for_user domain_id name s =
     (case find_authority domain_id s of
        None \<Rightarrow> (Inl FACET_NOT_FOUND, s)
      | Some a \<Rightarrow>
          (case first_index (\<lambda>u. config_name (au_config u) = name) (aa_users (as_authorities s ! a)) of
             None \<Rightarrow> (Inl FACET_NOT_FOUND, s)
           | Some u \<Rightarrow> create_session_for_user a u s))"

definition dominit0_authenticate_user ::
  "(string \<Rightarrow> string \<Rightarrow> string option) \<Rightarrow> (nat \<Rightarrow> char) \<Rightarrow> Peer \<Rightarrow> nat \<Rightarrow> string \<Rightarrow> string \<Rightarrow> FacetHandle auth" where
  "dominit0_authenticate_user crypt after peer domain_id name password s =
     (case find_authority domain_id s of
        None \<Rightarrow> (Inl FACET_NOT_FOUND, s)
      | Some a \<Rightarrow>
          bindS (authenticate crypt after a name password) (\<lambda>authenticated. security_create peer a authenticated) s)"

section \<open>Start and end\<close>

definition destroy_session :: "Session \<Rightarrow> AuthState \<Rightarrow> AuthState" where
  "destroy_session session s = unexport_object (ss_handle session) s"

definition destroy_user :: "AuthUser \<Rightarrow> AuthState \<Rightarrow> AuthState" where
  "destroy_user user s =
     unexport_object (au_principal_handle user) (unexport_object (au_human_handle user)
       (unexport_object (au_authenticated_handle user) s))"

definition destroy_authority :: "AuthAuthority \<Rightarrow> AuthState \<Rightarrow> AuthState" where
  "destroy_authority authority s =
     unexport_object (aa_service_handle authority) (unexport_object (aa_security_handle authority)
       (fold destroy_user (aa_users authority) (fold destroy_session (aa_sessions authority) s)))"

definition dominit0_auth_destroy :: "AuthState \<Rightarrow> AuthState" where
  "dominit0_auth_destroy s = (fold destroy_authority (as_authorities s) s)\<lparr>as_authorities := []\<rparr>"

definition new_user :: "FacetConfigUser \<Rightarrow> AuthUser" where
  "new_user config = \<lparr>au_config = config, au_principal_handle = None, au_human_handle = None,
     au_authenticated_handle = None\<rparr>"

definition zero_authority :: AuthAuthority where
  "zero_authority = \<lparr>aa_service_handle = None, aa_security_handle = None, aa_users = [], aa_sessions = [],
     aa_domain_id = 0\<rparr>"

definition initialize_authority :: "FacetSystemConfig \<Rightarrow> nat \<Rightarrow> FacetConfigDomain \<Rightarrow> unit auth" where
  "initialize_authority system a domain s =
     (let s0 = update_authority a (\<lambda>x. x\<lparr>aa_domain_id := dm_id domain\<rparr>) s in
      bindS (need FACET_ERROR) (\<lambda>_ s1.
      bindS (export_object (OService a)) (\<lambda>h1 s2.
      bindS (export_object (OSecurity a)) (\<lambda>h2 s3.
        (Inr (), update_authority a (\<lambda>x. x\<lparr>aa_security_handle := h2\<rparr>) s3))
        (update_authority a (\<lambda>x. x\<lparr>aa_service_handle := h1\<rparr>) s2))
        (update_authority a (\<lambda>x. x\<lparr>aa_users := map new_user (sc_users system @ dm_users domain)\<rparr>) s1)) s0)"

text \<open>
  The start: binding the two services in the environment of the domain can fail
  (\<open>bound\<close>), and any failure takes everything down again.
\<close>

fun initialize_domains :: "(nat \<Rightarrow> bool) \<Rightarrow> FacetSystemConfig \<Rightarrow> nat \<Rightarrow> FacetConfigDomain list \<Rightarrow> unit auth" where
  "initialize_domains bound system i [] s = (Inr (), s)"
| "initialize_domains bound system i (domain # domains) s =
     (if dm_authentication_source_index domain = 2 ^ 64 - 1 then initialize_domains bound system (i + 1) domains s
      else case initialize_authority system i domain s of
             (Inl e, s') \<Rightarrow> (Inl e, dominit0_auth_destroy s')
           | (Inr _, s') \<Rightarrow>
               if \<not> bound i then (Inl FACET_ERROR, dominit0_auth_destroy s')
               else initialize_domains bound system (i + 1) domains s')"

definition dominit0_auth_initialize :: "(nat \<Rightarrow> bool) \<Rightarrow> FacetSystemConfig \<Rightarrow> unit auth" where
  "dominit0_auth_initialize bound system s =
     (if as_authorities s \<noteq> [] then (Inl FACET_ERROR, s)
      else bindS (need FACET_ERROR) (\<lambda>_ s'.
           initialize_domains bound system 0 (sc_domains system)
             (s'\<lparr>as_authorities := replicate (length (sc_domains system)) zero_authority\<rparr>)) s)"

section \<open>Comparisons\<close>

lemma byte_word_eq: "(word_of_nat (byte_val c) XOR word_of_nat (byte_val d) :: 8 word) = 0 \<longleftrightarrow> c = d"
proof -
  have "unat (word_of_nat (byte_val x) :: 8 word) = byte_val x" for x
    using byte_val_less [of x] by (simp add: unsigned_of_nat take_bit_nat_eq_self_iff)
  then have "(word_of_nat (byte_val c) :: 8 word) = word_of_nat (byte_val d) \<longleftrightarrow> c = d"
    by (metis of_char_eq_iff)
  moreover have "x XOR y = 0 \<longleftrightarrow> x = y" for x y :: "8 word"
    by (auto simp: bit_eq_iff bit_xor_iff)
  ultimately show ?thesis by simp
qed

lemma or_zero_word: "x OR y = 0 \<longleftrightarrow> x = 0 \<and> y = (0 :: 8 word)"
  by (auto simp: bit_eq_iff bit_or_iff)

lemma constant_time_equal_iff: "constant_time_equal left right n \<longleftrightarrow> (\<forall>i < n. left i = right i)"
  unfolding constant_time_equal_def
  by (induction n) (auto simp: or_zero_word byte_word_eq less_Suc_eq)

lemma name_matches_iff: "name_matches name config \<longleftrightarrow> config_name config = name"
  by (auto simp: name_matches_def constant_time_equal_iff c_bytes_def intro: nth_equalityI)

text \<open>A password is accepted when the configured hash is a prefix of the computed one.\<close>

lemma password_matches_iff:
  assumes "us_password_hash config = Some hash" and "NUL \<notin> set hash"
  shows "password_matches crypt after password config \<longleftrightarrow>
           (\<exists>actual. crypt (cstr password) hash = Some actual \<and> take (length hash) actual = hash)"
proof -
  have "constant_time_equal (c_bytes actual after) (c_bytes hash (\<lambda>_. NUL)) (length hash) \<longleftrightarrow>
        take (length hash) actual = hash" for actual
  proof
    assume eq: "constant_time_equal (c_bytes actual after) (c_bytes hash (\<lambda>_. NUL)) (length hash)"
    have "length hash \<le> length actual"
    proof (rule ccontr)
      assume "\<not> length hash \<le> length actual"
      with eq have "hash ! length actual = NUL" by (auto simp: constant_time_equal_iff c_bytes_def dest!: spec [of _ "length actual"])
      with assms(2) \<open>\<not> length hash \<le> length actual\<close> show False by (metis not_le nth_mem)
    qed
    with eq show "take (length hash) actual = hash"
      by (intro nth_equalityI) (auto simp: constant_time_equal_iff c_bytes_def)
  next
    assume pre: "take (length hash) actual = hash"
    then have "length hash \<le> length actual" by (metis length_take min.absorb_iff1 min.commute)
    moreover have "actual ! i = hash ! i" if "i < length hash" for i using pre that by (metis nth_take)
    ultimately show "constant_time_equal (c_bytes actual after) (c_bytes hash (\<lambda>_. NUL)) (length hash)"
      by (simp add: constant_time_equal_iff c_bytes_def)
  qed
  then show ?thesis using assms(1) by (auto simp: password_matches_def split: option.splits)
qed

section \<open>The invariant\<close>

definition in_range :: "AuthState \<Rightarrow> nat \<Rightarrow> nat \<Rightarrow> bool" where
  "in_range s a u \<longleftrightarrow> a < length (as_authorities s) \<and> u < length (aa_users (as_authorities s ! a))"

text \<open>A session object belongs to a user of the domain it names.\<close>

definition session_for :: "AuthState \<Rightarrow> FacetHandle \<Rightarrow> nat \<Rightarrow> FacetConfigUser \<Rightarrow> nat \<Rightarrow> nat \<Rightarrow> bool" where
  "session_for s p d c a u \<longleftrightarrow>
     in_range s a u \<and> d = aa_domain_id (as_authorities s ! a) \<and> c = au_config (user_at s a u) \<and>
     object_of s p = Some (OPrincipal a u)"

definition object_ok :: "AuthState \<Rightarrow> AuthObject \<Rightarrow> bool" where
  "object_ok s obj =
     (case obj of
        OPrincipal a u \<Rightarrow> in_range s a u
      | OAuthenticated a u \<Rightarrow> in_range s a u \<and> au_principal_handle (user_at s a u) \<noteq> None
      | OSession p d c \<Rightarrow> (\<exists>a u. session_for s p d c a u)
      | _ \<Rightarrow> True)"

definition user_ok :: "AuthState \<Rightarrow> nat \<Rightarrow> nat \<Rightarrow> bool" where
  "user_ok s a u \<longleftrightarrow>
     (let user = user_at s a u in
      (au_principal_handle user \<noteq> None \<longrightarrow> object_of s (au_principal_handle user) = Some (OPrincipal a u)) \<and>
      (au_human_handle user \<noteq> None \<longrightarrow> object_of s (au_human_handle user) = Some (OHuman a u)) \<and>
      (au_authenticated_handle user \<noteq> None \<longrightarrow>
         au_principal_handle user \<noteq> None \<and>
         object_of s (au_authenticated_handle user) = Some (OAuthenticated a u)))"

definition session_ok :: "AuthState \<Rightarrow> nat \<Rightarrow> Session \<Rightarrow> bool" where
  "session_ok s a session \<longleftrightarrow>
     object_of s (ss_handle session) =
       Some (OSession (ss_principal session) (ss_domain_id session) (ss_user session)) \<and>
     ss_domain_id session = aa_domain_id (as_authorities s ! a)"

definition auth_inv :: "AuthState \<Rightarrow> bool" where
  "auth_inv s \<longleftrightarrow>
     (\<forall>obj. Some obj \<in> set (as_objects s) \<longrightarrow> object_ok s obj) \<and>
     (\<forall>a u. in_range s a u \<longrightarrow> user_ok s a u) \<and>
     (\<forall>a < length (as_authorities s). \<forall>session \<in> set (aa_sessions (as_authorities s ! a)). session_ok s a session)"

text \<open>What no operation but the end of the service changes.\<close>

definition authority_core :: "AuthAuthority \<Rightarrow> nat \<times> FacetConfigUser list" where
  "authority_core authority = (aa_domain_id authority, map au_config (aa_users authority))"

definition keeps :: "AuthState \<Rightarrow> AuthState \<Rightarrow> bool" where
  "keeps s s' \<longleftrightarrow>
     (\<exists>new. as_objects s' = as_objects s @ new) \<and>
     map authority_core (as_authorities s') = map authority_core (as_authorities s)"

text \<open>
  \<open>runs s m k Q\<close>: from \<open>s\<close> the operation \<open>m\<close> keeps the invariant, a result satisfies \<open>Q\<close>,
  and with a budget of \<open>k\<close> there is a result and at most \<open>k\<close> units are spent.
\<close>

definition runs :: "AuthState \<Rightarrow> 'a auth \<Rightarrow> nat \<Rightarrow> ('a \<Rightarrow> AuthState \<Rightarrow> bool) \<Rightarrow> bool" where
  "runs s m k Q \<longleftrightarrow>
     (case m s of (r, s') \<Rightarrow>
        auth_inv s' \<and> keeps s s' \<and> (\<forall>x. r = Inr x \<longrightarrow> Q x s') \<and>
        (k \<le> as_budget s \<longrightarrow> (\<exists>x. r = Inr x) \<and> as_budget s \<le> as_budget s' + k))"

lemma keeps_refl [simp]: "keeps s s"
  by (simp add: keeps_def)

lemma keeps_trans: "keeps s s' \<Longrightarrow> keeps s' s'' \<Longrightarrow> keeps s s''"
  by (auto simp: keeps_def)

lemma runs_bind:
  assumes "runs s m k R" and "\<And>x s'. R x s' \<Longrightarrow> auth_inv s' \<Longrightarrow> keeps s s' \<Longrightarrow> runs s' (f x) l Q"
  shows "runs s (bindS m f) (k + l) Q"
proof -
  obtain r s' where m: "m s = (r, s')" by fastforce
  note m1 = assms(1) [unfolded runs_def m prod.case]
  show ?thesis
  proof (cases r)
    case (Inl e)
    with m1 m show ?thesis by (auto simp: runs_def bindS_def)
  next
    case (Inr x)
    then have "R x s'" using m1 by blast
    with assms(2) m1 have f: "runs s' (f x) l Q" by blast
    obtain r2 s2 where "f x s' = (r2, s2)" by fastforce
    with f m1 m Inr show ?thesis by (auto simp: runs_def bindS_def intro: keeps_trans)
  qed
qed

lemma runs_weaken: "runs s m k Q \<Longrightarrow> (\<And>x s'. Q x s' \<Longrightarrow> auth_inv s' \<Longrightarrow> keeps s s' \<Longrightarrow> Q' x s') \<Longrightarrow> k \<le> l \<Longrightarrow> runs s m l Q'"
  by (auto simp: runs_def split: prod.splits)

lemma runs_return: "auth_inv s \<Longrightarrow> Q x s \<Longrightarrow> runs s (\<lambda>s. (Inr x, s)) 0 Q"
  by (simp add: runs_def)

section \<open>Basic steps\<close>

lemma keeps_object: "keeps s s' \<Longrightarrow> object_of s h = Some obj \<Longrightarrow> object_of s' h = Some obj"
  by (auto simp: keeps_def object_of_def nth_append split: option.splits if_splits)

lemma keeps_authorities:
  assumes "keeps s s'"
  shows "length (as_authorities s') = length (as_authorities s)"
    and "a < length (as_authorities s) \<Longrightarrow>
         authority_core (as_authorities s' ! a) = authority_core (as_authorities s ! a)"
proof -
  have eq: "map authority_core (as_authorities s') = map authority_core (as_authorities s)"
    using assms by (simp add: keeps_def)
  show len: "length (as_authorities s') = length (as_authorities s)" using arg_cong [OF eq, of length] by simp
  show "authority_core (as_authorities s' ! a) = authority_core (as_authorities s ! a)"
    if "a < length (as_authorities s)"
    using arg_cong [OF eq, of "\<lambda>xs. xs ! a"] that len by simp
qed

lemma keeps_core:
  assumes "keeps s s'" and "in_range s a u"
  shows "in_range s' a u" and "au_config (user_at s' a u) = au_config (user_at s a u)"
    and "aa_domain_id (as_authorities s' ! a) = aa_domain_id (as_authorities s ! a)"
proof -
  have core: "authority_core (as_authorities s' ! a) = authority_core (as_authorities s ! a)"
    using keeps_authorities(2) [OF assms(1)] assms(2) by (simp add: in_range_def)
  then have users: "map au_config (aa_users (as_authorities s' ! a)) = map au_config (aa_users (as_authorities s ! a))"
    by (simp add: authority_core_def)
  then have len: "length (aa_users (as_authorities s' ! a)) = length (aa_users (as_authorities s ! a))"
    by (metis length_map)
  with assms keeps_authorities(1) [OF assms(1)] show "in_range s' a u" by (simp add: in_range_def)
  show "au_config (user_at s' a u) = au_config (user_at s a u)"
    using arg_cong [OF users, of "\<lambda>xs. xs ! u"] assms(2) len by (simp add: in_range_def)
  show "aa_domain_id (as_authorities s' ! a) = aa_domain_id (as_authorities s ! a)"
    using core by (simp add: authority_core_def)
qed

text \<open>The budget is no part of the invariant.\<close>

lemma auth_inv_cong:
  assumes "as_objects s' = as_objects s" and "as_authorities s' = as_authorities s"
  shows "auth_inv s' = auth_inv s"
  unfolding auth_inv_def object_ok_def session_for_def user_ok_def session_ok_def in_range_def object_of_def assms ..

lemma runs_need:
  "auth_inv s \<Longrightarrow> runs s (need e) 1 (\<lambda>_ s'. as_objects s' = as_objects s \<and> as_authorities s' = as_authorities s)"
  using auth_inv_cong [of "s\<lparr>as_budget := as_budget s - 1\<rparr>" s] by (auto simp: runs_def need_def keeps_def)

lemma runs_clone:
  "auth_inv s \<Longrightarrow> h \<noteq> None \<Longrightarrow>
   runs s (clone_handle h) 1 (\<lambda>h' s'. h' = h \<and> as_objects s' = as_objects s \<and> as_authorities s' = as_authorities s)"
  using auth_inv_cong [of "s\<lparr>as_budget := as_budget s - 1\<rparr>" s]
  by (auto simp: runs_def clone_handle_def bindS_def need_def returnS_def keeps_def)

lemma auth_inv_export:
  assumes "auth_inv s" and "object_ok s obj"
  shows "auth_inv (s\<lparr>as_budget := n, as_objects := as_objects s @ [Some obj]\<rparr>)"
proof -
  let ?s = "s\<lparr>as_budget := n, as_objects := as_objects s @ [Some obj]\<rparr>"
  have keeps: "object_of s h = Some x \<Longrightarrow> object_of ?s h = Some x" for h x
    by (auto simp: object_of_def nth_append split: option.splits if_splits)
  have range: "in_range ?s a u = in_range s a u" for a u by (simp add: in_range_def)
  have mono: "object_ok s x \<Longrightarrow> object_ok ?s x" for x
    by (auto simp: object_ok_def session_for_def range split: AuthObject.splits intro!: keeps)
  show ?thesis
    using assms mono keeps unfolding auth_inv_def
    by (auto simp: range user_ok_def session_ok_def Let_def)
qed

lemma runs_export:
  assumes "auth_inv s" and "object_ok s obj"
  shows "runs s (export_object obj) 1 (\<lambda>h s'. object_of s' h = Some obj \<and> h \<noteq> None \<and> as_authorities s' = as_authorities s)"
  using assms auth_inv_export [OF assms, of "as_budget s - 1"]
  by (auto simp: runs_def export_object_def bindS_def need_def keeps_def object_of_def)

lemma runs_after:
  "runs (g s) m k Q \<Longrightarrow> keeps s (g s) \<Longrightarrow> as_budget (g s) = as_budget s \<Longrightarrow> runs s (\<lambda>s. m (g s)) k Q"
  by (auto simp: runs_def split: prod.splits intro: keeps_trans)

text \<open>Setting a handle of a user.\<close>

lemma update_user_at:
  assumes "in_range s a u"
  shows "user_at (update_user a u f s) a' u' = (if a' = a \<and> u' = u then f (user_at s a u) else user_at s a' u')"
    and "in_range (update_user a u f s) a' u' = in_range s a' u'"
    and "object_of (update_user a u f s) h = object_of s h"
    and "aa_domain_id (as_authorities (update_user a u f s) ! a') = aa_domain_id (as_authorities s ! a')"
    and "aa_sessions (as_authorities (update_user a u f s) ! a') = aa_sessions (as_authorities s ! a')"
    and "length (as_authorities (update_user a u f s)) = length (as_authorities s)"
    and "as_objects (update_user a u f s) = as_objects s" and "as_budget (update_user a u f s) = as_budget s"
  using assms by (auto simp: update_user_def in_range_def object_of_def nth_list_update split: option.split)

lemma map_update_same: "f x = f (xs ! i) \<Longrightarrow> map f (xs[i := x]) = map f xs"
  by (metis list_update_id map_update)

lemma keeps_update_user:
  assumes "in_range s a u" and "au_config (f (user_at s a u)) = au_config (user_at s a u)"
  shows "keeps s (update_user a u f s)"
proof -
  have "map au_config ((aa_users (as_authorities s ! a))[u := f (user_at s a u)]) =
        map au_config (aa_users (as_authorities s ! a))"
    using assms(2) by (rule map_update_same)
  then have "authority_core ((as_authorities s ! a)\<lparr>aa_users := (aa_users (as_authorities s ! a))[u := f (user_at s a u)]\<rparr>) =
      authority_core (as_authorities s ! a)"
    by (simp add: authority_core_def)
  then have "map authority_core (as_authorities (update_user a u f s)) = map authority_core (as_authorities s)"
    by (simp add: update_user_def map_update_same)
  then show ?thesis using update_user_at(7) [OF assms(1)] by (simp add: keeps_def)
qed

lemma auth_inv_update_user:
  assumes inv: "auth_inv s" and range: "in_range s a u"
    and config: "au_config (f (user_at s a u)) = au_config (user_at s a u)"
    and principal: "au_principal_handle (user_at s a u) \<noteq> None \<Longrightarrow> au_principal_handle (f (user_at s a u)) \<noteq> None"
    and ok: "user_ok (update_user a u f s) a u"
  shows "auth_inv (update_user a u f s)"
proof -
  let ?s = "update_user a u f s"
  note at = update_user_at [OF range, of f]
  have "session_for s p d c a' u' \<Longrightarrow> session_for ?s p d c a' u'" for p d c a' u'
    using config by (auto simp: session_for_def at)
  then have "object_ok s obj \<Longrightarrow> object_ok ?s obj" for obj
    using principal by (cases obj) (auto simp: object_ok_def at, blast+)
  moreover have "user_ok s a' u' \<Longrightarrow> user_ok ?s a' u'" if "\<not> (a' = a \<and> u' = u)" for a' u'
    using that by (auto simp: user_ok_def at Let_def)
  moreover have "session_ok s a' x \<Longrightarrow> session_ok ?s a' x" for a' x by (simp add: session_ok_def at)
  ultimately show ?thesis using inv ok unfolding auth_inv_def at by metis
qed

text \<open>A user is exported once; then all three objects exist.\<close>

definition user_exported :: "AuthState \<Rightarrow> nat \<Rightarrow> nat \<Rightarrow> bool" where
  "user_exported s a u \<longleftrightarrow>
     in_range s a u \<and> au_principal_handle (user_at s a u) \<noteq> None \<and> au_authenticated_handle (user_at s a u) \<noteq> None"

lemma runs_set_handle:
  assumes "auth_inv s" and "in_range s a u" and "object_ok s obj"
    and f: "\<And>h. au_config (f h (user_at s a u)) = au_config (user_at s a u)"
    and p: "\<And>h. h \<noteq> None \<Longrightarrow> au_principal_handle (user_at s a u) \<noteq> None \<Longrightarrow> au_principal_handle (f h (user_at s a u)) \<noteq> None"
    and ok: "\<And>h s'. h \<noteq> None \<Longrightarrow> object_of s' h = Some obj \<Longrightarrow> as_authorities s' = as_authorities s \<Longrightarrow> user_ok s' a u \<Longrightarrow>
       user_ok (update_user a u (f h) s') a u"
    and rest: "\<And>h s'. h \<noteq> None \<Longrightarrow> auth_inv s' \<Longrightarrow> in_range s' a u \<Longrightarrow> user_at s' a u = f h (user_at s a u) \<Longrightarrow> runs s' (m h) k Q"
  shows "runs s (bindS (export_object obj) (\<lambda>h s'. m h (update_user a u (f h) s'))) (1 + k) Q"
proof (rule runs_bind [OF runs_export [OF assms(1,3)]])
  fix h s' assume h: "object_of s' h = Some obj \<and> h \<noteq> None \<and> as_authorities s' = as_authorities s"
    and inv: "auth_inv s'" and "keeps s s'"
  have range: "in_range s' a u" using h assms(2) by (simp add: in_range_def)
  have at: "user_at s' a u = user_at s a u" using h by simp
  have "user_ok s' a u" using inv range by (simp add: auth_inv_def)
  with ok h have user: "user_ok (update_user a u (f h) s') a u" by blast
  have new: "auth_inv (update_user a u (f h) s')"
    by (rule auth_inv_update_user [OF inv range _ _ user]) (use f p h at in auto)
  have "in_range (update_user a u (f h) s') a u" "user_at (update_user a u (f h) s') a u = f h (user_at s a u)"
    using range at by (simp_all add: update_user_at)
  with rest new h have "runs (update_user a u (f h) s') (m h) k Q" by blast
  then show "runs s' (\<lambda>s'. m h (update_user a u (f h) s')) k Q"
    by (rule runs_after) (use range f at in \<open>auto intro!: keeps_update_user simp: update_user_at\<close>)
qed

lemma runs_export_user:
  assumes "auth_inv s" and "in_range s a u"
  shows "runs s (export_user a u) 3 (\<lambda>_ s'. user_exported s' a u)"
proof (cases "au_authenticated_handle (user_at s a u) = None")
  case False
  then have "au_principal_handle (user_at s a u) \<noteq> None"
    using assms by (auto simp: auth_inv_def user_ok_def Let_def)
  with False assms show ?thesis by (auto simp: runs_def export_user_def user_exported_def)
next
  case True
  have third: "runs s3 (\<lambda>s. bindS (export_object (OAuthenticated a u)) (\<lambda>h s'.
      (Inr (), update_user a u (\<lambda>x. x\<lparr>au_authenticated_handle := h\<rparr>) s')) s) (1 + 0) (\<lambda>_ s'. user_exported s' a u)"
    if "auth_inv s3" "in_range s3 a u" "au_principal_handle (user_at s3 a u) \<noteq> None" for s3
    using that
    by (intro runs_set_handle [where m = "\<lambda>_ s. (Inr (), s)"] runs_return)
      (auto simp: object_ok_def user_ok_def update_user_at in_range_def user_exported_def Let_def
        intro!: runs_return)
  have second: "runs s2 (\<lambda>s. bindS (export_object (OHuman a u)) (\<lambda>h s'.
      bindS (export_object (OAuthenticated a u)) (\<lambda>h s'.
        (Inr (), update_user a u (\<lambda>x. x\<lparr>au_authenticated_handle := h\<rparr>) s'))
      (update_user a u (\<lambda>x. x\<lparr>au_human_handle := h\<rparr>) s')) s) (1 + (1 + 0)) (\<lambda>_ s'. user_exported s' a u)"
    if "auth_inv s2" "in_range s2 a u" "au_principal_handle (user_at s2 a u) \<noteq> None" for s2
    using that
    by (intro runs_set_handle [where m = "\<lambda>_. bindS (export_object (OAuthenticated a u)) (\<lambda>h s'.
        (Inr (), update_user a u (\<lambda>x. x\<lparr>au_authenticated_handle := h\<rparr>) s'))"] third)
      (auto simp: object_ok_def user_ok_def update_user_at in_range_def Let_def)
  have "runs s (\<lambda>s. bindS (export_object (OPrincipal a u)) (\<lambda>h s'.
      bindS (export_object (OHuman a u)) (\<lambda>h s'.
      bindS (export_object (OAuthenticated a u)) (\<lambda>h s'.
        (Inr (), update_user a u (\<lambda>x. x\<lparr>au_authenticated_handle := h\<rparr>) s'))
      (update_user a u (\<lambda>x. x\<lparr>au_human_handle := h\<rparr>) s'))
      (update_user a u (\<lambda>x. x\<lparr>au_principal_handle := h\<rparr>) s')) s) (1 + (1 + (1 + 0))) (\<lambda>_ s'. user_exported s' a u)"
    using assms
    by (intro runs_set_handle [where m = "\<lambda>_. bindS (export_object (OHuman a u)) (\<lambda>h s'.
        bindS (export_object (OAuthenticated a u)) (\<lambda>h s'.
          (Inr (), update_user a u (\<lambda>x. x\<lparr>au_authenticated_handle := h\<rparr>) s'))
        (update_user a u (\<lambda>x. x\<lparr>au_human_handle := h\<rparr>) s'))"] second)
      (auto simp: object_ok_def user_ok_def update_user_at in_range_def Let_def)
  with True show ?thesis by (simp add: runs_def export_user_def numeral_3_eq_3)
qed

section \<open>What the calls return\<close>

text \<open>A handle of a session for a user.\<close>

definition granted :: "AuthState \<Rightarrow> FacetHandle \<Rightarrow> nat \<Rightarrow> nat \<Rightarrow> bool" where
  "granted s h a u \<longleftrightarrow>
     (\<exists>p. object_of s h = Some (OSession p (aa_domain_id (as_authorities s ! a)) (au_config (user_at s a u))) \<and>
          object_of s p = Some (OPrincipal a u))"

lemma auth_inv_add_session:
  assumes inv: "auth_inv s" and a: "a < length (as_authorities s)" and ok: "session_ok s a session"
  shows "auth_inv (update_authority a (\<lambda>x. x\<lparr>aa_sessions := session # aa_sessions x\<rparr>) s)"
    and "keeps s (update_authority a (\<lambda>x. x\<lparr>aa_sessions := session # aa_sessions x\<rparr>) s)"
proof -
  let ?s = "update_authority a (\<lambda>x. x\<lparr>aa_sessions := session # aa_sessions x\<rparr>) s"
  have at: "aa_users (as_authorities ?s ! a') = aa_users (as_authorities s ! a')"
    "aa_domain_id (as_authorities ?s ! a') = aa_domain_id (as_authorities s ! a')"
    "length (as_authorities ?s) = length (as_authorities s)" "as_objects ?s = as_objects s" for a'
    using a by (auto simp: update_authority_def nth_list_update)
  have sessions: "set (aa_sessions (as_authorities ?s ! a')) \<subseteq>
      set (aa_sessions (as_authorities s ! a')) \<union> (if a' = a then {session} else {})" for a'
    using a by (auto simp: update_authority_def nth_list_update)
  have parts: "in_range ?s = in_range s" "object_of ?s = object_of s"
    unfolding in_range_def object_of_def at by simp_all
  then have same: "object_ok ?s = object_ok s" "user_ok ?s = user_ok s" "session_ok ?s = session_ok s"
    unfolding object_ok_def user_ok_def session_ok_def session_for_def fun_eq_iff parts at by simp_all
  have "session_ok s a' x" if "a' < length (as_authorities s)" "x \<in> set (aa_sessions (as_authorities ?s ! a'))" for a' x
    using that inv ok sessions [of a'] by (cases "a' = a") (auto simp: auth_inv_def)
  then show "auth_inv ?s"
    using inv unfolding auth_inv_def parts same at by blast
  have "map authority_core (as_authorities ?s) = map authority_core (as_authorities s)"
    by (simp add: update_authority_def authority_core_def map_update_same)
  then show "keeps s ?s" by (simp add: keeps_def update_authority_def)
qed

lemma runs_eq: "runs s m' k Q \<Longrightarrow> m s = m' s \<Longrightarrow> runs s m k Q"
  by (simp add: runs_def)

lemma object_of_cong: "as_objects s' = as_objects s \<Longrightarrow> object_of s' = object_of s"
  by (intro ext) (simp add: object_of_def split: option.split)

lemma runs_push_session:
  assumes "auth_inv s" and "in_range s a u" and "session_ok s a session"
    and "ss_user session = au_config (user_at s a u)" and "object_of s (ss_principal session) = Some (OPrincipal a u)"
  shows "runs s (push_session a session) 1 (\<lambda>h s'. granted s' h a u)"
  unfolding push_session_def
proof (rule runs_after)
  let ?s = "update_authority a (\<lambda>x. x\<lparr>aa_sessions := session # aa_sessions x\<rparr>) s"
  have a: "a < length (as_authorities s)" using assms(2) by (simp add: in_range_def)
  note added = auth_inv_add_session [OF assms(1) a assms(3)]
  show "keeps s ?s" "as_budget ?s = as_budget s" using added by (simp_all add: update_authority_def)
  have obj: "object_of ?s = object_of s" by (rule object_of_cong) (simp add: update_authority_def)
  have "ss_handle session \<noteq> None"
    using assms(3) by (cases "ss_handle session") (simp_all add: session_ok_def object_of_def)
  moreover have "granted ?s (ss_handle session) a u"
  proof -
    have "aa_users (as_authorities ?s ! a) = aa_users (as_authorities s ! a)"
      "aa_domain_id (as_authorities ?s ! a) = aa_domain_id (as_authorities s ! a)"
      using a by (simp_all add: update_authority_def)
    then show ?thesis using assms(3-5) unfolding granted_def obj by (auto simp: session_ok_def)
  qed
  ultimately show "runs ?s (clone_handle (ss_handle session)) 1 (\<lambda>h s'. granted s' h a u)"
    by (intro runs_weaken [OF runs_clone [OF added(1)]]) (auto simp: granted_def dest: object_of_cong)
qed

lemma runs_open_session:
  assumes "auth_inv s" and "user_exported s a u"
  shows "runs s (open_session a (aa_domain_id (as_authorities s ! a)) (user_at s a u)) (1 + (1 + 1))
           (\<lambda>h s'. granted s' h a u)"
proof -
  let ?user = "user_at s a u" and ?d = "aa_domain_id (as_authorities s ! a)"
  have p: "au_principal_handle ?user \<noteq> None" and range: "in_range s a u"
    using assms(2) by (simp_all add: user_exported_def)
  then have obj: "object_of s (au_principal_handle ?user) = Some (OPrincipal a u)"
    using assms(1) by (auto simp: auth_inv_def user_ok_def Let_def)
  have "runs s (bindS (clone_handle (au_principal_handle ?user)) (\<lambda>p.
      bindS (export_object (OSession p ?d (au_config ?user))) (\<lambda>h.
        push_session a \<lparr>ss_handle = h, ss_principal = p, ss_domain_id = ?d, ss_user = au_config ?user\<rparr>)))
      (1 + (1 + 1)) (\<lambda>h s'. granted s' h a u)"
  proof (rule runs_bind [OF runs_clone [OF assms(1) p]], rule runs_bind [OF runs_export])
    fix h2 s2 assume s2: "h2 = au_principal_handle ?user \<and> as_objects s2 = as_objects s \<and>
        as_authorities s2 = as_authorities s" "auth_inv s2"
    then show "auth_inv s2" by simp
    have obj2: "object_of s2 h2 = Some (OPrincipal a u)" using s2 obj object_of_cong [of s2 s] by simp
    then have "session_for s2 h2 ?d (au_config ?user) a u"
      using s2 range by (simp add: session_for_def in_range_def)
    then show "object_ok s2 (OSession h2 ?d (au_config ?user))" by (auto simp: object_ok_def)
    fix h3 s3 assume s3: "object_of s3 h3 = Some (OSession h2 ?d (au_config ?user)) \<and> h3 \<noteq> None \<and>
        as_authorities s3 = as_authorities s2" "auth_inv s3" "keeps s2 s3"
    with s2 range obj2 keeps_object [OF s3(3)]
    show "runs s3 (push_session a \<lparr>ss_handle = h3, ss_principal = h2, ss_domain_id = ?d, ss_user = au_config ?user\<rparr>)
        1 (\<lambda>h s'. granted s' h a u)"
      by (intro runs_push_session) (simp_all add: in_range_def session_ok_def)
  qed
  then show ?thesis unfolding open_session_def by (simp only: p if_False)
qed

lemma runs_create_session:
  assumes "auth_inv s" and "in_range s a u"
  shows "runs s (create_session_for_user a u) 7 (\<lambda>h s'. granted s' h a u)"
proof -
  have "runs s (create_session_for_user a u) (3 + (1 + (1 + (1 + 1)))) (\<lambda>h s'. granted s' h a u)"
    unfolding create_session_for_user_def
  proof (rule runs_bind [OF runs_export_user [OF assms]], rule runs_bind [OF runs_need], assumption)
    fix x s1 y s2 assume "user_exported s1 a u" "auth_inv s2"
      "as_objects s2 = as_objects s1 \<and> as_authorities s2 = as_authorities s1"
    then have "user_exported s2 a u" by (simp add: user_exported_def in_range_def)
    from runs_open_session [OF \<open>auth_inv s2\<close> this]
    show "runs s2 (\<lambda>s. open_session a (aa_domain_id (as_authorities s ! a)) (user_at s a u) s) (1 + (1 + 1))
        (\<lambda>h s'. granted s' h a u)"
      by (rule runs_eq) simp
  qed
  then show ?thesis by simp
qed

section \<open>Proofs of authentication\<close>

text \<open>A handle of the authentication result of a user.\<close>

definition proves :: "AuthState \<Rightarrow> FacetHandle \<Rightarrow> nat \<Rightarrow> nat \<Rightarrow> bool" where
  "proves s h a u \<longleftrightarrow> in_range s a u \<and> object_of s h = Some (OAuthenticated a u)"

lemma proves_keeps: "keeps s s' \<Longrightarrow> proves s h a u \<Longrightarrow> proves s' h a u"
  by (auto simp: proves_def intro: keeps_object keeps_core(1))

lemma handle_neq_None: "object_of s h = Some obj \<Longrightarrow> h \<noteq> None"
  by (cases h) (simp_all add: object_of_def)

lemma runs_proxy:
  assumes "auth_inv s" and "h \<noteq> None"
  shows "runs s (proxy_for h) (1 + (1 + 0)) (\<lambda>h' s'. h' = h)"
  unfolding proxy_for_def
proof (rule runs_bind [OF runs_clone [OF assms]], rule runs_bind [OF runs_need], assumption)
  fix h1 s1 x s2 assume "h1 = h \<and> as_objects s1 = as_objects s \<and> as_authorities s1 = as_authorities s" "auth_inv s2"
  then show "runs s2 (returnS h1) 0 (\<lambda>h' s'. h' = h)"
    by (simp add: runs_def returnS_def)
qed

lemma runs_get_principal:
  assumes "auth_inv s" and "proves s h a u"
  shows "runs s (call_get_principal peer h) (1 + 1) (\<lambda>p s'. object_of s' p = Some (OPrincipal a u))"
  unfolding call_get_principal_def
proof (rule runs_bind [OF runs_need [OF assms(1)]])
  fix x s1 assume s1: "as_objects s1 = as_objects s \<and> as_authorities s1 = as_authorities s" "auth_inv s1" "keeps s s1"
  have proof1: "object_of s1 h = Some (OAuthenticated a u)" and range: "in_range s1 a u"
    using proves_keeps [OF s1(3) assms(2)] by (simp_all add: proves_def)
  have "Some (OAuthenticated a u) \<in> set (as_objects s1)"
    using proof1 by (auto simp: object_of_def split: option.splits if_splits dest: nth_mem)
  then have p: "au_principal_handle (user_at s1 a u) \<noteq> None"
    using s1(2) by (auto simp: auth_inv_def object_ok_def)
  then have obj: "object_of s1 (au_principal_handle (user_at s1 a u)) = Some (OPrincipal a u)"
    using s1(2) range by (auto simp: auth_inv_def user_ok_def Let_def)
  have "runs s1 (clone_handle (au_principal_handle (user_at s1 a u))) 1 (\<lambda>p s'. object_of s' p = Some (OPrincipal a u))"
    by (rule runs_weaken [OF runs_clone [OF s1(2) p]]) (use obj in \<open>auto dest: object_of_cong\<close>)
  then show "runs s1 (\<lambda>s. case object_of s h of
        None \<Rightarrow> (Inl FACET_INVALID_HANDLE, s)
      | Some (OAuthenticated a u) \<Rightarrow> authenticated_principal (user_at s a u) s
      | Some (OSession p domain_id user) \<Rightarrow> clone_handle p s
      | Some obj \<Rightarrow> (pe_principal peer obj, s)) 1 (\<lambda>p s'. object_of s' p = Some (OPrincipal a u))"
    by (rule runs_eq) (simp add: proof1 authenticated_principal_def)
qed

lemma runs_get_domain_id:
  assumes "auth_inv s" and "proves s h a u"
  shows "runs s (call_get_domain_id peer h) (1 + 0) (\<lambda>d s'. d = aa_domain_id (as_authorities s' ! a))"
  unfolding call_get_domain_id_def
proof (rule runs_bind [OF runs_need [OF assms(1)]])
  fix x s1 assume s1: "auth_inv s1" "keeps s s1"
  have "object_of s1 h = Some (OAuthenticated a u)" using proves_keeps [OF s1(2) assms(2)] by (simp add: proves_def)
  with s1 show "runs s1 (\<lambda>s. (case object_of s h of
         None \<Rightarrow> Inl FACET_INVALID_HANDLE
       | Some (OAuthenticated a u) \<Rightarrow> Inr (authenticated_domain_id (as_authorities s ! a))
       | Some (OSession p domain_id user) \<Rightarrow> Inr domain_id
       | Some obj \<Rightarrow> pe_domain_id peer obj, s)) 0 (\<lambda>d s'. d = aa_domain_id (as_authorities s' ! a))"
    by (simp add: runs_def authenticated_domain_id_def)
qed

lemma runs_getname:
  assumes "auth_inv s" and "object_of s h = Some (OPrincipal a u)"
  shows "runs s (call_getname peer h) (1 + 0) (\<lambda>name s'. name = config_name (au_config (user_at s' a u)))"
  unfolding call_getname_def
proof (rule runs_bind [OF runs_need [OF assms(1)]])
  fix x s1 assume s1: "auth_inv s1" "keeps s s1"
  have "object_of s1 h = Some (OPrincipal a u)" by (rule keeps_object [OF s1(2) assms(2)])
  with s1 show "runs s1 (\<lambda>s. (case object_of s h of
         None \<Rightarrow> Inl FACET_INVALID_HANDLE
       | Some (OPrincipal a u) \<Rightarrow> Inr (principal_name (user_at s a u))
       | Some obj \<Rightarrow> pe_name peer obj, s)) 0 (\<lambda>name s'. name = config_name (au_config (user_at s' a u)))"
    by (simp add: runs_def principal_name_def)
qed

text \<open>The first user of an authority with its name.\<close>

definition first_named :: "AuthState \<Rightarrow> nat \<Rightarrow> nat \<Rightarrow> bool" where
  "first_named s a u \<longleftrightarrow>
     in_range s a u \<and> (\<forall>v < u. config_name (au_config (user_at s a v)) \<noteq> config_name (au_config (user_at s a u)))"

lemma first_named_keeps:
  assumes "keeps s s'" and "first_named s a u"
  shows "first_named s' a u"
proof -
  have "in_range s a v" if "v \<le> u" for v using assms(2) that by (auto simp: first_named_def in_range_def)
  with assms keeps_core [OF assms(1)] show ?thesis by (auto simp: first_named_def)
qed

lemma first_index_least:
  "first_index P xs = Some i \<longleftrightarrow> i < length xs \<and> P (xs ! i) \<and> (\<forall>j < i. \<not> P (xs ! j))"
proof
  assume i: "i < length xs \<and> P (xs ! i) \<and> (\<forall>j < i. \<not> P (xs ! j))"
  then obtain k where k: "first_index P xs = Some k"
    using first_index_None_iff [of P xs] nth_mem by (cases "first_index P xs") fastforce+
  with i first_index_SomeD [OF k] have "k = i" by (meson linorder_neqE_nat)
  with k show "first_index P xs = Some i" by simp
qed (rule first_index_SomeD)

lemma first_named_index:
  "first_index (name_matches name \<circ> au_config) (aa_users (as_authorities s ! a)) = Some u \<and>
     a < length (as_authorities s) \<longleftrightarrow>
   first_named s a u \<and> config_name (au_config (user_at s a u)) = name"
  by (auto simp: first_named_def in_range_def first_index_least name_matches_iff)

lemma runs_principal_user:
  assumes "auth_inv s" and "first_named s a u" and "object_of s p = Some (OPrincipal a u)"
  shows "runs s (principal_user peer a p) ((1 + (1 + 0)) + ((1 + 0) + 0)) (\<lambda>u' s'. u' = u)"
  unfolding principal_user_def
proof (rule runs_bind [OF runs_proxy [OF assms(1) handle_neq_None [OF assms(3)]]], rule runs_bind [OF runs_getname])
  fix h s1 assume s1: "h = p" "auth_inv s1" "keeps s s1"
  then show "auth_inv s1" "object_of s1 h = Some (OPrincipal a u)" using assms(3) by (auto intro: keeps_object)
  fix name s2 assume s2: "name = config_name (au_config (user_at s2 a u))" "auth_inv s2" "keeps s1 s2"
  have "first_named s2 a u" using s1(3) s2(3) assms(2) by (blast intro: first_named_keeps)
  with s2 first_named_index [of name s2 a u]
  show "runs s2 (\<lambda>s. case first_index (name_matches name \<circ> au_config) (aa_users (as_authorities s ! a)) of
         None \<Rightarrow> (Inl FACET_ACCESS_DENIED, s) | Some u \<Rightarrow> (Inr u, s)) 0 (\<lambda>u' s'. u' = u)"
    by (simp add: runs_def)
qed

text \<open>An object that answers with the principal and the domain of a user is taken for a proof of that user.\<close>

lemma runs_find_answering:
  assumes "auth_inv s" and "first_named s a u" and "h \<noteq> None"
    and principal: "\<And>s'. auth_inv s' \<Longrightarrow> keeps s s' \<Longrightarrow>
      runs s' (call_get_principal peer h) (1 + 1) (\<lambda>p s''. object_of s'' p = Some (OPrincipal a u))"
    and domain: "\<And>s'. auth_inv s' \<Longrightarrow> keeps s s' \<Longrightarrow>
      runs s' (call_get_domain_id peer h) (1 + 0) (\<lambda>d s''. d = aa_domain_id (as_authorities s'' ! a))"
  shows "runs s (find_authenticated_user peer a h) 8 (\<lambda>u' s'. u' = u)"
proof -
  have "runs s (find_authenticated_user peer a h)
      ((1 + (1 + 0)) + ((1 + 1) + ((1 + 0) + ((1 + (1 + 0)) + ((1 + 0) + 0))))) (\<lambda>u' s'. u' = u)"
    unfolding find_authenticated_user_def
  proof (rule runs_bind [OF runs_proxy [OF assms(1,3)]], rule runs_bind)
    fix h1 s1 assume s1: "h1 = h" "auth_inv s1" "keeps s s1"
    then show "runs s1 (call_get_principal peer h1) (1 + 1) (\<lambda>p s''. object_of s'' p = Some (OPrincipal a u))"
      by (simp only: principal)
    fix p s2 assume s2: "object_of s2 p = Some (OPrincipal a u)" "auth_inv s2" "keeps s1 s2"
    have k2: "keeps s s2" using s1(3) s2(3) by (rule keeps_trans)
    show "runs s2 (bindS (call_get_domain_id peer h1) (\<lambda>proof_domain_id s.
        if p = None \<or> proof_domain_id \<noteq> aa_domain_id (as_authorities s ! a) then (Inl FACET_ACCESS_DENIED, s)
        else principal_user peer a p s)) ((1 + 0) + ((1 + (1 + 0)) + ((1 + 0) + 0))) (\<lambda>u' s'. u' = u)"
    proof (rule runs_bind [OF domain [OF s2(2) k2, folded s1(1)]])
      fix d s3 assume s3: "d = aa_domain_id (as_authorities s3 ! a)" "auth_inv s3" "keeps s2 s3"
      have "first_named s3 a u" using k2 s3(3) assms(2) by (blast intro: first_named_keeps)
      from runs_principal_user [OF s3(2) this keeps_object [OF s3(3) s2(1)], of peer]
      show "runs s3 (\<lambda>s. if p = None \<or> d \<noteq> aa_domain_id (as_authorities s ! a) then (Inl FACET_ACCESS_DENIED, s)
        else principal_user peer a p s) ((1 + (1 + 0)) + ((1 + 0) + 0)) (\<lambda>u' s'. u' = u)"
        by (rule runs_eq) (use s3 handle_neq_None [OF s2(1)] in \<open>cases p; simp\<close>)
    qed
  qed
  then show ?thesis by (rule runs_weaken) simp_all
qed

lemma runs_find_user:
  assumes "auth_inv s" and "first_named s a u" and "proves s h a u"
  shows "runs s (find_authenticated_user peer a h) 8 (\<lambda>u' s'. u' = u)"
  using assms
  by (intro runs_find_answering runs_get_principal runs_get_domain_id)
    (auto simp: proves_def dest: handle_neq_None intro: keeps_object keeps_core(1))

lemma runs_deny: "runs s m k Q \<Longrightarrow> runs s (denyS m) k Q"
  by (cases "m s"; cases "fst (m s)") (auto simp: runs_def denyS_def)

lemma runs_found_create:
  assumes "runs s (find_authenticated_user peer a h) 8 (\<lambda>u' s'. u' = u)" and "first_named s a u"
  shows "runs s (security_create peer a h) 15 (\<lambda>h' s'. granted s' h' a u)"
proof -
  have "runs s (security_create peer a h) (8 + 7) (\<lambda>h' s'. granted s' h' a u)"
    unfolding security_create_def
  proof (rule runs_bind [OF runs_deny [OF assms(1)]])
    fix u' s1 assume "u' = u" "auth_inv s1" "keeps s s1"
    then show "runs s1 (create_session_for_user a u') 7 (\<lambda>h' s'. granted s' h' a u)"
      using first_named_keeps [of s s1 a u] assms(2) by (simp add: runs_create_session first_named_def)
  qed
  then show ?thesis by simp
qed

section \<open>Authentication\<close>

text \<open>The user a name and a password identify.\<close>

definition identified :: "(string \<Rightarrow> string \<Rightarrow> string option) \<Rightarrow> (nat \<Rightarrow> char) \<Rightarrow> AuthState \<Rightarrow> nat \<Rightarrow> string \<Rightarrow> string \<Rightarrow> nat \<Rightarrow> bool" where
  "identified crypt after s a name password u \<longleftrightarrow>
     length password \<le> 4096 \<and> first_named s a u \<and> config_name (au_config (user_at s a u)) = name \<and>
     password_matches crypt after password (au_config (user_at s a u))"

lemma runs_authenticate:
  assumes "auth_inv s" and "identified crypt after s a name password u"
  shows "runs s (authenticate crypt after a name password) 5 (\<lambda>h s'. proves s' h a u)"
proof -
  have id: "\<not> length password > 4096" "first_named s a u" "config_name (au_config (user_at s a u)) = name"
    "password_matches crypt after password (au_config (user_at s a u))"
    using assms(2) by (simp_all add: identified_def)
  then have index: "first_index (name_matches name \<circ> au_config) (aa_users (as_authorities s ! a)) = Some u"
    using first_named_index by blast
  have range: "in_range s a u" using id(2) by (simp add: first_named_def)
  let ?check = "\<lambda>s1. if \<not> password_matches crypt after password (au_config (user_at s1 a u))
      then (Inl FACET_ACCESS_DENIED, s1)
      else bindS (export_user a u) (\<lambda>_ s2. clone_handle (au_authenticated_handle (user_at s2 a u)) s2) s1"
  have "runs s (bindS (need FACET_OUT_OF_MEMORY) (\<lambda>_. ?check)) (1 + (3 + 1)) (\<lambda>h s'. proves s' h a u)"
  proof (rule runs_bind [OF runs_need [OF assms(1)]])
    fix x s1 assume s1: "as_objects s1 = as_objects s \<and> as_authorities s1 = as_authorities s" "auth_inv s1" "keeps s s1"
    have "runs s1 (bindS (export_user a u) (\<lambda>_ s2. clone_handle (au_authenticated_handle (user_at s2 a u)) s2))
        (3 + 1) (\<lambda>h s'. proves s' h a u)"
    proof (rule runs_bind [OF runs_export_user [OF s1(2) keeps_core(1) [OF s1(3) range]]])
      fix y s2 assume s2: "user_exported s2 a u" "auth_inv s2"
      then have h: "au_authenticated_handle (user_at s2 a u) \<noteq> None" by (simp add: user_exported_def)
      have "proves s2 (au_authenticated_handle (user_at s2 a u)) a u"
        using s2 by (auto simp: proves_def user_exported_def auth_inv_def user_ok_def Let_def)
      then show "runs s2 (\<lambda>s2. clone_handle (au_authenticated_handle (user_at s2 a u)) s2) 1 (\<lambda>h s'. proves s' h a u)"
        by (intro runs_eq [OF runs_weaken [OF runs_clone [OF s2(2) h]]])
          (auto simp: proves_def in_range_def dest: object_of_cong)
    qed
    then show "runs s1 ?check (3 + 1) (\<lambda>h s'. proves s' h a u)"
      by (rule runs_eq) (use s1(1) id(4) in simp)
  qed
  then have "runs s (bindS (need FACET_OUT_OF_MEMORY) (\<lambda>_. ?check)) 5 (\<lambda>h s'. proves s' h a u)" by simp
  then show ?thesis
    by (rule runs_eq) (use id(1) in \<open>simp add: authenticate_def index\<close>)
qed

text \<open>Without such a user there is no proof; nothing changes but the budget.\<close>

lemma authenticate_denied:
  assumes "a < length (as_authorities s)" and "\<And>u. \<not> identified crypt after s a name password u"
  shows "\<exists>e n. authenticate crypt after a name password s = (Inl e, s\<lparr>as_budget := n\<rparr>)"
proof (cases "first_index (name_matches name \<circ> au_config) (aa_users (as_authorities s ! a))")
  case None
  then show ?thesis by (cases s) (auto simp: authenticate_def)
next
  case (Some u)
  then have "first_named s a u \<and> config_name (au_config (user_at s a u)) = name"
    using first_named_index assms(1) by blast
  with assms(2) [of u] have "length password > 4096 \<or> \<not> password_matches crypt after password (au_config (user_at s a u))"
    by (auto simp: identified_def)
  with Some show ?thesis by (cases s) (auto simp: authenticate_def bindS_def need_def)
qed

text \<open>
  C10.  Logging in.  For every state the service can be in, dominit0_authenticate_user
  returns a session only for the user of the domain with that name whose configured
  hash the password matches; the session carries that user's identity and the
  domain.  With 20 units of memory and capability slots left it does return it.
  Otherwise the caller gets an error.
\<close>

theorem authenticate_user_spec:
  assumes "auth_inv s" and "find_authority domain_id s = Some a"
    and "dominit0_authenticate_user crypt after peer domain_id name password s = (r, s')"
  shows "auth_inv s' \<and>
    (\<forall>h. r = Inr h \<longrightarrow> (\<exists>u. identified crypt after s a name password u \<and> granted s' h a u)) \<and>
    ((\<exists>u. identified crypt after s a name password u) \<and> 20 \<le> as_budget s \<longrightarrow> (\<exists>h. r = Inr h))"
proof -
  have run: "dominit0_authenticate_user crypt after peer domain_id name password s =
      bindS (authenticate crypt after a name password) (security_create peer a) s"
    using assms(2) by (simp add: dominit0_authenticate_user_def)
  have a: "a < length (as_authorities s)"
    using assms(2) by (auto simp: find_authority_def dest: first_index_SomeD)
  show ?thesis
  proof (cases "\<exists>u. identified crypt after s a name password u")
    case True
    then obtain u where u: "identified crypt after s a name password u" by blast
    have "runs s (bindS (authenticate crypt after a name password) (security_create peer a)) (5 + 15)
        (\<lambda>h s'. granted s' h a u)"
    proof (rule runs_bind [OF runs_authenticate [OF assms(1) u]])
      fix h s1 assume "proves s1 h a u" "auth_inv s1" "keeps s s1"
      then show "runs s1 (security_create peer a h) 15 (\<lambda>h s'. granted s' h a u)"
        using u by (intro runs_found_create runs_find_user) (auto simp: identified_def intro: first_named_keeps)
    qed
    with run assms(3) u show ?thesis by (auto simp: runs_def)
  next
    case False
    then obtain e n where denied: "authenticate crypt after a name password s = (Inl e, s\<lparr>as_budget := n\<rparr>)"
      using authenticate_denied [OF a] by metis
    with run assms(3) have "r = Inl e" "s' = s\<lparr>as_budget := n\<rparr>" by (simp_all add: bindS_def)
    with False assms(1) auth_inv_cong [of s' s] show ?thesis by simp
  qed
qed

section \<open>Reachable states\<close>

definition budget_only :: "'a auth \<Rightarrow> bool" where
  "budget_only m \<longleftrightarrow> (\<forall>s. as_objects (snd (m s)) = as_objects s \<and> as_authorities (snd (m s)) = as_authorities s)"

lemma budget_only_bind: "budget_only m \<Longrightarrow> (\<And>x. budget_only (f x)) \<Longrightarrow> budget_only (bindS m f)"
  unfolding budget_only_def bindS_def
  by (auto split: prod.splits sum.splits) (metis snd_conv)+

lemma budget_only_steps:
  "budget_only (need e)" "budget_only (returnS x)" "budget_only (failS e)" "budget_only (clone_handle h)"
  "budget_only (proxy_for h)" "budget_only (call_get_principal peer h)" "budget_only (call_get_domain_id peer h)"
  "budget_only (call_getname peer h)"
proof -
  show need: "budget_only (need e)" for e by (auto simp: budget_only_def need_def)
  show return: "budget_only (returnS x)" and fail: "budget_only (failS e)" for x e
    by (auto simp: budget_only_def returnS_def failS_def)
  show clone: "budget_only (clone_handle h)" for h
    unfolding clone_handle_def by (auto intro!: budget_only_bind need return fail)
  show "budget_only (proxy_for h)" unfolding proxy_for_def by (intro budget_only_bind clone need return)
  have clone_at: "as_objects (snd (clone_handle h s)) = as_objects s \<and> as_authorities (snd (clone_handle h s)) = as_authorities s" for h s
    using clone by (auto simp: budget_only_def)
  show "budget_only (call_get_principal peer h)" "budget_only (call_get_domain_id peer h)" "budget_only (call_getname peer h)"
    unfolding call_get_principal_def call_get_domain_id_def call_getname_def
    by (rule budget_only_bind [OF need];
        auto simp: budget_only_def authenticated_principal_def clone_at split: option.split AuthObject.split)+
qed

lemma runs_budget_only:
  assumes "budget_only m" and "auth_inv s"
  shows "auth_inv (snd (m s))" "keeps s (snd (m s))"
  using assms auth_inv_cong [of "snd (m s)" s] by (auto simp: budget_only_def keeps_def)

lemma budget_only_find: "budget_only (principal_user peer a p)" "budget_only (find_authenticated_user peer a h)"
proof -
  show user: "budget_only (principal_user peer a p)" for p
    unfolding principal_user_def
    by (intro budget_only_bind budget_only_steps) (auto simp: budget_only_def split: option.splits)
  show "budget_only (find_authenticated_user peer a h)"
    unfolding find_authenticated_user_def
    by (intro budget_only_bind budget_only_steps) (use user in \<open>auto simp: budget_only_def\<close>)
qed

lemma bindS_Inr: "bindS m f s = (Inr y, s'') \<longleftrightarrow> (\<exists>x s'. m s = (Inr x, s') \<and> f x s' = (Inr y, s''))"
  by (auto simp: bindS_def split: prod.splits sum.splits)

lemma find_authenticated_user_range:
  assumes "find_authenticated_user peer a h s = (Inr u, s')" and "a < length (as_authorities s)"
  shows "in_range s' a u"
proof -
  obtain p s1 where "principal_user peer a p s1 = (Inr u, s')"
    using assms(1) by (auto simp: find_authenticated_user_def bindS_Inr split: if_splits)
  then obtain n where "first_index (name_matches n \<circ> au_config) (aa_users (as_authorities s' ! a)) = Some u"
    by (auto simp: principal_user_def bindS_Inr split: option.splits)
  moreover have "as_authorities s' = as_authorities s"
    using budget_only_find(2) [of peer a h] assms(1) by (auto simp: budget_only_def dest!: spec [of _ s])
  ultimately show ?thesis using assms(2) by (auto simp: in_range_def dest: first_index_SomeD)
qed

text \<open>An operation that keeps the invariant and the configured users, whatever it returns.\<close>

definition steady :: "AuthState \<Rightarrow> 'a auth \<Rightarrow> bool" where
  "steady s m \<longleftrightarrow> auth_inv (snd (m s)) \<and> keeps s (snd (m s))"

lemma runs_steady: "runs s m k Q \<Longrightarrow> steady s m"
  by (auto simp: runs_def steady_def split: prod.splits)

lemma steady_security_create:
  assumes "auth_inv s" and "a < length (as_authorities s)"
  shows "steady s (security_create peer a h)"
proof -
  obtain r s1 where find: "find_authenticated_user peer a h s = (r, s1)" by fastforce
  have s1: "auth_inv s1" "keeps s s1"
    using runs_budget_only [OF budget_only_find(2) assms(1), of peer a h] find by simp_all
  show ?thesis
  proof (cases r)
    case (Inl e)
    with find s1 show ?thesis by (simp add: steady_def security_create_def denyS_def bindS_def)
  next
    case (Inr u)
    have "steady s1 (create_session_for_user a u)"
      using find_authenticated_user_range find Inr assms(2)
      by (intro runs_steady [OF runs_create_session [OF s1(1)]]) blast
    with find s1 Inr show ?thesis
      by (auto simp: steady_def security_create_def denyS_def bindS_def intro: keeps_trans)
  qed
qed

lemma steady_authenticate:
  assumes "auth_inv s" and "a < length (as_authorities s)"
  shows "steady s (authenticate crypt after a name password)"
proof (cases "\<exists>u. identified crypt after s a name password u")
  case True
  with runs_authenticate [OF assms(1)] show ?thesis by (blast intro: runs_steady)
next
  case False
  with authenticate_denied [OF assms(2)] obtain e n where
    "authenticate crypt after a name password s = (Inl e, s\<lparr>as_budget := n\<rparr>)" by metis
  then show ?thesis using assms(1) auth_inv_cong [of "s\<lparr>as_budget := n\<rparr>" s] by (simp add: steady_def keeps_def)
qed

section \<open>The start\<close>

text \<open>Before the first call no user is exported and there is no session.\<close>

definition unused_authority :: "AuthAuthority \<Rightarrow> bool" where
  "unused_authority x \<longleftrightarrow> aa_sessions x = [] \<and> (\<forall>user \<in> set (aa_users x). user = new_user (au_config user))"

definition plain_object :: "AuthObject option \<Rightarrow> bool" where
  "plain_object obj =
     (case obj of Some (OPrincipal a u) \<Rightarrow> False | Some (OAuthenticated a u) \<Rightarrow> False | Some (OSession p d c) \<Rightarrow> False
      | _ \<Rightarrow> True)"

definition unused :: "AuthState \<Rightarrow> bool" where
  "unused s \<longleftrightarrow> list_all unused_authority (as_authorities s) \<and> list_all plain_object (as_objects s)"

lemma unused_inv:
  assumes "unused s"
  shows "auth_inv s"
proof -
  have "object_ok s obj" if "Some obj \<in> set (as_objects s)" for obj
    using assms that
    by (cases obj) (auto simp: unused_def list_all_iff plain_object_def object_ok_def dest!: bspec)
  moreover have "user_ok s a u" if "in_range s a u" for a u
  proof -
    have "user_at s a u = new_user (au_config (user_at s a u))"
      using assms that by (auto simp: unused_def list_all_length unused_authority_def in_range_def)
    then have "au_principal_handle (user_at s a u) = None" "au_human_handle (user_at s a u) = None"
      "au_authenticated_handle (user_at s a u) = None"
      by (metis AuthUser.select_convs(2-4) new_user_def)+
    then show ?thesis by (simp add: user_ok_def)
  qed
  moreover have "aa_sessions (as_authorities s ! a) = []" if "a < length (as_authorities s)" for a
    using assms that by (simp add: unused_def list_all_length unused_authority_def)
  ultimately show ?thesis by (simp add: auth_inv_def)
qed

lemma unused_update:
  "unused s \<Longrightarrow> (\<And>x. unused_authority x \<Longrightarrow> unused_authority (f x)) \<Longrightarrow> unused (update_authority a f s)"
  by (cases "a < length (as_authorities s)")
    (auto simp: unused_def update_authority_def list_all_length nth_list_update)

lemma update_authority_simps [simp]:
  "as_objects (update_authority a f s) = as_objects s"
  "length (as_authorities (update_authority a f s)) = length (as_authorities s)"
  "as_authorities (update_authority a f s) =
     (as_authorities s)[a := f (as_authorities s ! a)]"
  by (simp_all add: update_authority_def)

lemma export_plain:
  "export_object obj s = (Inr h, s') \<Longrightarrow> plain_object (Some obj) \<Longrightarrow> unused s \<Longrightarrow>
   unused s' \<and> as_authorities s' = as_authorities s"
  by (auto simp: export_object_def bindS_def need_def unused_def split: if_splits)

lemma initialize_authority_ok:
  assumes "initialize_authority system a domain s = (Inr (), s')" and "unused s" and "a < length (as_authorities s)"
  shows "unused s'" and "map authority_core (as_authorities s') =
    (map authority_core (as_authorities s))[a := (dm_id domain, sc_users system @ dm_users domain)]"
proof -
  let ?f0 = "\<lambda>x. x\<lparr>aa_domain_id := dm_id domain\<rparr>"
  let ?f1 = "\<lambda>x. x\<lparr>aa_users := map new_user (sc_users system @ dm_users domain)\<rparr>"
  obtain s1 h1 s2 h2 s3 where s1: "need FACET_ERROR (update_authority a ?f0 s) = (Inr (), s1)"
    and s2: "export_object (OService a) (update_authority a ?f1 s1) = (Inr h1, s2)"
    and s3: "export_object (OSecurity a) (update_authority a (\<lambda>x. x\<lparr>aa_service_handle := h1\<rparr>) s2) = (Inr h2, s3)"
    and s': "s' = update_authority a (\<lambda>x. x\<lparr>aa_security_handle := h2\<rparr>) s3"
    using assms(1) by (auto simp: initialize_authority_def bindS_Inr Let_def)
  have u1: "unused s1" "as_authorities s1 = (as_authorities s)[a := ?f0 (as_authorities s ! a)]"
    using s1 unused_update [OF assms(2), of ?f0 a]
    by (auto simp: need_def unused_def unused_authority_def split: if_splits)
  have "unused (update_authority a ?f1 s1)"
    by (rule unused_update [OF u1(1)]) (auto simp: unused_authority_def new_user_def)
  note u2 = export_plain [OF s2 _ this]
  have "unused (update_authority a (\<lambda>x. x\<lparr>aa_service_handle := h1\<rparr>) s2)"
    using u2 by (intro unused_update) (auto simp: plain_object_def unused_authority_def)
  note u3 = export_plain [OF s3 _ this]
  show "unused s'"
    unfolding s' using u3 by (intro unused_update) (auto simp: plain_object_def unused_authority_def)
  have "map authority_core (as_authorities s') = map authority_core ((as_authorities s)[a :=
      (as_authorities s ! a)\<lparr>aa_domain_id := dm_id domain, aa_users := map new_user (sc_users system @ dm_users domain),
        aa_service_handle := h1, aa_security_handle := h2\<rparr>])"
    using s' u3 u2 u1(2) assms(3) by (simp add: plain_object_def)
  then show "map authority_core (as_authorities s') =
      (map authority_core (as_authorities s))[a := (dm_id domain, sc_users system @ dm_users domain)]"
    by (simp add: map_update authority_core_def new_user_def comp_def)
qed

text \<open>The identities the configuration gives to an authority; a domain that is skipped keeps none.\<close>

definition configured_core :: "FacetSystemConfig \<Rightarrow> FacetConfigDomain \<Rightarrow> nat \<times> FacetConfigUser list" where
  "configured_core system domain =
     (if dm_authentication_source_index domain = 2 ^ 64 - 1 then (0, [])
      else (dm_id domain, sc_users system @ dm_users domain))"

lemma initialize_domains_ok:
  assumes "initialize_domains bound system i domains s = (Inr (), s')" and "unused s"
    and "map authority_core (as_authorities s) = pre @ replicate (length domains) (0, [])" and "length pre = i"
  shows "unused s' \<and> map authority_core (as_authorities s') = pre @ map (configured_core system) domains"
  using assms
proof (induction domains arbitrary: i s pre)
  case (Cons domain domains)
  have len: "i < length (as_authorities s)"
    using Cons.prems(4) arg_cong [OF Cons.prems(3), of length] by simp
  show ?case
  proof (cases "dm_authentication_source_index domain = 2 ^ 64 - 1")
    case True
    with Cons.prems Cons.IH [of "i + 1" s "pre @ [(0, [])]"] show ?thesis by (simp add: configured_core_def)
  next
    case False
    then obtain s1 where s1: "initialize_authority system i domain s = (Inr (), s1)"
      "initialize_domains bound system (i + 1) domains s1 = (Inr (), s')"
      using Cons.prems(1) by (auto split: prod.splits sum.splits if_splits)
    note ok = initialize_authority_ok [OF s1(1) Cons.prems(2) len]
    have "map authority_core (as_authorities s1) =
        (pre @ [configured_core system domain]) @ replicate (length domains) (0, [])"
      using ok(2) Cons.prems(3,4) False by (simp add: configured_core_def list_update_append)
    from Cons.IH [OF s1(2) ok(1) this] Cons.prems(4) show ?thesis by simp
  qed
qed simp

text \<open>The state before the start: other processes may have exported objects already.\<close>

definition before_start :: "AuthState \<Rightarrow> bool" where
  "before_start s \<longleftrightarrow> as_authorities s = [] \<and> list_all plain_object (as_objects s)"

lemma auth_initialize_ok:
  assumes "dominit0_auth_initialize bound system s = (Inr (), s')" and "before_start s"
  shows "unused s'" and "map authority_core (as_authorities s') = map (configured_core system) (sc_domains system)"
proof -
  let ?zero = "replicate (length (sc_domains system)) zero_authority"
  obtain s1 where s1: "as_objects s1 = as_objects s"
    and init: "initialize_domains bound system 0 (sc_domains system) (s1\<lparr>as_authorities := ?zero\<rparr>) = (Inr (), s')"
  proof -
    obtain s1 where "need FACET_ERROR s = (Inr (), s1)"
      "initialize_domains bound system 0 (sc_domains system) (s1\<lparr>as_authorities := ?zero\<rparr>) = (Inr (), s')"
      using assms by (auto simp: dominit0_auth_initialize_def before_start_def bindS_Inr)
    moreover from this(1) have "as_objects s1 = as_objects s" by (auto simp: need_def split: if_splits)
    ultimately show ?thesis using that by blast
  qed
  have "unused (s1\<lparr>as_authorities := ?zero\<rparr>)"
    using assms(2) s1 by (simp add: unused_def before_start_def list_all_iff unused_authority_def zero_authority_def)
  moreover have "map authority_core ?zero = [] @ replicate (length (sc_domains system)) (0, [])"
    by (simp add: authority_core_def zero_authority_def)
  ultimately show "unused s'" "map authority_core (as_authorities s') = map (configured_core system) (sc_domains system)"
    using initialize_domains_ok [OF init, of "[]"] by simp_all
qed

section \<open>Reachable states\<close>

text \<open>
  A running service: the start, then any interleaving of the calls of its clients
  and of the root server, with any peers and handles.  Other processes export
  objects and resources come back (Outside).
\<close>

inductive auth_reaches :: "(string \<Rightarrow> string \<Rightarrow> string option) \<Rightarrow> FacetSystemConfig \<Rightarrow> AuthState \<Rightarrow> bool"
  for crypt system where
  Start: "before_start s \<Longrightarrow> dominit0_auth_initialize bound system s = (Inr (), s') \<Longrightarrow> auth_reaches crypt system s'"
| Authenticate: "auth_reaches crypt system s \<Longrightarrow> a < length (as_authorities s) \<Longrightarrow>
    authenticate crypt after a name password s = (r, s') \<Longrightarrow> auth_reaches crypt system s'"
| Create: "auth_reaches crypt system s \<Longrightarrow> a < length (as_authorities s) \<Longrightarrow>
    security_create peer a h s = (r, s') \<Longrightarrow> auth_reaches crypt system s'"
| Login: "auth_reaches crypt system s \<Longrightarrow>
    dominit0_authenticate_user crypt after peer domain_id name password s = (r, s') \<Longrightarrow> auth_reaches crypt system s'"
| Run_as: "auth_reaches crypt system s \<Longrightarrow>
    dominit0_auth_session_for_user domain_id name s = (r, s') \<Longrightarrow> auth_reaches crypt system s'"
| Outside: "auth_reaches crypt system s \<Longrightarrow>
    auth_reaches crypt system (s\<lparr>as_budget := n, as_objects := as_objects s @ [Some (OForeign k)]\<rparr>)"

lemma steadyD: "steady s m \<Longrightarrow> m s = (r, s') \<Longrightarrow> auth_inv s' \<and> keeps s s'"
  by (simp add: steady_def)

lemma steady_login:
  assumes "auth_inv s"
  shows "steady s (dominit0_authenticate_user crypt after peer domain_id name password)"
proof (cases "find_authority domain_id s")
  case None
  with assms show ?thesis by (simp add: steady_def dominit0_authenticate_user_def)
next
  case (Some a)
  then have a: "a < length (as_authorities s)" by (auto simp: find_authority_def dest: first_index_SomeD)
  obtain r s1 where auth: "authenticate crypt after a name password s = (r, s1)" by fastforce
  have s1: "auth_inv s1" "keeps s s1" using steadyD [OF steady_authenticate [OF assms a] auth] by simp_all
  then have "a < length (as_authorities s1)" using a keeps_authorities(1) [OF s1(2)] by simp
  with s1(1) have "steady s1 (security_create peer a h)" for h by (rule steady_security_create)
  with Some auth s1 show ?thesis
    by (cases r) (auto simp: steady_def dominit0_authenticate_user_def bindS_def intro: keeps_trans)
qed

lemma steady_run_as:
  assumes "auth_inv s"
  shows "steady s (dominit0_auth_session_for_user domain_id name)"
proof -
  have "steady s (create_session_for_user a u)"
    if "find_authority domain_id s = Some a"
      "first_index (\<lambda>u. config_name (au_config u) = name) (aa_users (as_authorities s ! a)) = Some u" for a u
    using that assms
    by (intro runs_steady [OF runs_create_session]) (auto simp: in_range_def find_authority_def dest!: first_index_SomeD)
  with assms show ?thesis
    by (auto simp: steady_def dominit0_auth_session_for_user_def split: option.split)
qed

lemma auth_reaches_inv:
  assumes "auth_reaches crypt system s"
  shows "auth_inv s \<and> map authority_core (as_authorities s) = map (configured_core system) (sc_domains system)"
  using assms
proof induction
  case (Start s bound s')
  with auth_initialize_ok [OF Start(2,1)] show ?case by (simp add: unused_inv)
next
  case (Authenticate s a after name password r s')
  then show ?case using steadyD [OF steady_authenticate] by (metis keeps_def)
next
  case (Create s a peer h r s')
  then show ?case using steadyD [OF steady_security_create] by (metis keeps_def)
next
  case (Login s after peer domain_id name password r s')
  then show ?case using steadyD [OF steady_login] by (metis keeps_def)
next
  case (Run_as s domain_id name r s')
  then show ?case using steadyD [OF steady_run_as] by (metis keeps_def)
next
  case (Outside s k n)
  then show ?case using auth_inv_export [of s "OForeign n" k] auth_inv_export [of s "OForeign k" n]
    by (simp add: object_ok_def)
qed

text \<open>
  C9.  Sessions are sound.  In every state the service can reach, whatever its
  clients do and whatever objects they pass, each session object stands for a
  user the configuration gives to the session's domain: its domain exists, its
  uid, gid and admin flag are those of a global user or a user of that domain,
  and its principal object is the principal of that user.
\<close>

theorem sessions_sound:
  assumes "auth_reaches crypt system s" and "object_of s h = Some (OSession p d c)"
  shows "\<exists>a u domain. a < length (sc_domains system) \<and> sc_domains system ! a = domain \<and>
           d = dm_id domain \<and> c \<in> set (sc_users system @ dm_users domain) \<and>
           object_of s p = Some (OPrincipal a u) \<and> au_config (user_at s a u) = c"
proof -
  note inv = auth_reaches_inv [OF assms(1)]
  have "Some (OSession p d c) \<in> set (as_objects s)"
    using assms(2) by (auto simp: object_of_def split: option.splits if_splits dest: nth_mem)
  then have "object_ok s (OSession p d c)" using inv by (simp add: auth_inv_def)
  then obtain a u where su: "session_for s p d c a u" by (auto simp: object_ok_def)
  have len: "length (as_authorities s) = length (sc_domains system)"
    using inv by (metis length_map)
  have a: "a < length (sc_domains system)" using su len by (simp add: session_for_def in_range_def)
  have "authority_core (as_authorities s ! a) = configured_core system (sc_domains system ! a)"
    using inv a len by (metis nth_map)
  moreover have "c \<in> set (snd (authority_core (as_authorities s ! a)))"
    using su by (auto simp: session_for_def in_range_def authority_core_def)
  moreover have "d = fst (authority_core (as_authorities s ! a))"
    using su by (simp add: session_for_def authority_core_def)
  ultimately show ?thesis
    using su a by (intro exI [of _ a] exI [of _ u] exI [of _ "sc_domains system ! a"])
      (auto simp: session_for_def configured_core_def split: if_splits)
qed

section \<open>A running example\<close>

definition sample_crypt :: "string \<Rightarrow> string \<Rightarrow> string option" where
  "sample_crypt key setting = (if key = ''pw'' then Some setting else Some ''*'')"

definition sample_peer :: Peer where
  "sample_peer = \<lparr>pe_principal = \<lambda>_. Inl FACET_NO_SUCH_METHOD, pe_domain_id = \<lambda>_. Inl FACET_NO_SUCH_METHOD,
     pe_name = \<lambda>_. Inl FACET_NO_SUCH_METHOD\<rparr>"

definition sample_auth :: AuthState where
  "sample_auth = \<lparr>as_authorities = [\<lparr>aa_service_handle = Some 0, aa_security_handle = Some 1,
       aa_users = [new_user sample_user], aa_sessions = [], aa_domain_id = dm_id sample_domain\<rparr>],
     as_objects = [Some (OService 0), Some (OSecurity 0)], as_budget = 96\<rparr>"

lemma sample_auth_starts:
  "dominit0_auth_initialize (\<lambda>_. True) sample_config \<lparr>as_authorities = [], as_objects = [], as_budget = 100\<rparr> =
   (Inr (), sample_auth)"
  by (simp add: dominit0_auth_initialize_def initialize_authority_def update_authority_def export_object_def
      bindS_def need_def sample_config_def sample_domain_def zero_authority_def sample_auth_def)

lemma sample_auth_reached: "auth_reaches sample_crypt sample_config sample_auth"
  by (rule auth_reaches.Start [OF _ sample_auth_starts]) (simp add: before_start_def)

lemma sample_identified: "identified sample_crypt (\<lambda>_. NUL) sample_auth 0 ''root'' ''pw'' 0"
  by (simp add: identified_def first_named_def in_range_def sample_auth_def new_user_def sample_user_def
      password_matches_def cstr_def sample_crypt_def constant_time_equal_iff)

lemma sample_authority: "find_authority (dm_id sample_domain) sample_auth = Some 0"
  by (simp add: find_authority_def sample_auth_def)

theorem authenticate_user_spec_witness:
  "\<exists>h s'. dominit0_authenticate_user sample_crypt (\<lambda>_. NUL) sample_peer (dm_id sample_domain) ''root'' ''pw'' sample_auth =
      (Inr h, s') \<and> (\<exists>u. granted s' h 0 u)"
proof -
  obtain r s' where run: "dominit0_authenticate_user sample_crypt (\<lambda>_. NUL) sample_peer (dm_id sample_domain)
      ''root'' ''pw'' sample_auth = (r, s')" by fastforce
  have "auth_inv sample_auth" using auth_reaches_inv [OF sample_auth_reached] by simp
  moreover have "20 \<le> as_budget sample_auth" by (simp add: sample_auth_def)
  ultimately show ?thesis
    using authenticate_user_spec [OF _ sample_authority run] sample_identified run by blast
qed

lemma sample_login:
  "\<exists>s. auth_reaches sample_crypt sample_config s \<and> object_of s (Some 5) = Some (OSession (Some 2) 0 sample_user)"
proof -
  let ?login = "dominit0_auth_session_for_user (dm_id sample_domain) ''root'' sample_auth"
  have "auth_reaches sample_crypt sample_config (snd ?login)"
    by (rule auth_reaches.Run_as [OF sample_auth_reached prod.collapse [symmetric]])
  moreover have "object_of (snd ?login) (Some 5) = Some (OSession (Some 2) 0 sample_user)"
    by (simp add: dominit0_auth_session_for_user_def sample_authority)
      (simp add: sample_auth_def new_user_def sample_user_def create_session_for_user_def export_user_def bindS_def
        export_object_def need_def update_user_def open_session_def push_session_def clone_handle_def returnS_def
        update_authority_def object_of_def sample_domain_def)
  ultimately show ?thesis by blast
qed

theorem sessions_sound_witness:
  "\<exists>s. auth_reaches sample_crypt sample_config s \<and> object_of s (Some 5) = Some (OSession (Some 2) 0 sample_user) \<and>
     (\<exists>a u domain. a < length (sc_domains sample_config) \<and> sc_domains sample_config ! a = domain \<and>
        0 = dm_id domain \<and> sample_user \<in> set (sc_users sample_config @ dm_users domain) \<and>
        object_of s (Some 2) = Some (OPrincipal a u) \<and> au_config (user_at s a u) = sample_user)"
  using sample_login sessions_sound by blast

section \<open>Two defects\<close>

text \<open>
  The loop of dominit0_auth_initialize means to skip the domains that select no
  authentication source, but tests for an index the parser never leaves there:
  such a domain gets an authority with all global users as well.
\<close>

theorem authority_without_source:
  assumes "facet_config_parse h bytes = (Inr (), system)" and "d \<in> set (sc_domains system)"
    and "dm_authentication_source d = None"
    and "before_start s" and "dominit0_auth_initialize bound system s = (Inr (), s')"
  shows "\<exists>authority \<in> set (as_authorities s'). authority_core authority = (dm_id d, sc_users system @ dm_users d)"
proof -
  have "configured_core system d = (dm_id d, sc_users system @ dm_users d)"
    using config_parse_source_index [OF assms(1-3)] by (simp add: configured_core_def)
  moreover have "configured_core system d \<in> set (map authority_core (as_authorities s'))"
    using auth_initialize_ok(2) [OF assms(5,4)] assms(2) by simp
  ultimately show ?thesis by auto
qed

text \<open>
  A proof of authentication can be forged.  An object of another process that
  answers with the principal of a user, which any client can obtain, and with the
  domain is accepted in place of the authority's own result.
\<close>

theorem forged_proof_accepted:
  assumes "auth_inv s" and "first_named s a u" and "15 \<le> as_budget s"
    and "object_of s forged = Some (OForeign k)" and "object_of s p = Some (OPrincipal a u)"
    and "pe_principal peer (OForeign k) = Inr p"
    and "pe_domain_id peer (OForeign k) = Inr (aa_domain_id (as_authorities s ! a))"
  shows "\<exists>h s'. security_create peer a forged s = (Inr h, s') \<and> granted s' h a u"
proof -
  have answers: "object_of s1 forged = Some (OForeign k)" "object_of s1 p = Some (OPrincipal a u)"
    "aa_domain_id (as_authorities s1 ! a) = aa_domain_id (as_authorities s ! a)" if "keeps s s1" for s1
    using keeps_object [OF that] assms(2,4,5) keeps_core(3) [OF that, of a u] by (simp_all add: first_named_def)
  have "runs s (find_authenticated_user peer a forged) 8 (\<lambda>u' s'. u' = u)"
  proof (rule runs_find_answering [OF assms(1,2) handle_neq_None [OF assms(4)]])
    fix s1 assume s1: "auth_inv s1" "keeps s s1"
    have "runs s1 (call_get_principal peer forged) (1 + 0) (\<lambda>p' s'. object_of s' p' = Some (OPrincipal a u))"
      unfolding call_get_principal_def
    proof (rule runs_bind [OF runs_need [OF s1(1)]])
      fix x s2 assume s2: "auth_inv s2" "keeps s1 s2"
      note answers [OF keeps_trans [OF s1(2) s2(2)]]
      with s2(1) assms(6) show "runs s2 (\<lambda>s. case object_of s forged of
          None \<Rightarrow> (Inl FACET_INVALID_HANDLE, s)
        | Some (OAuthenticated a u) \<Rightarrow> authenticated_principal (user_at s a u) s
        | Some (OSession p domain_id user) \<Rightarrow> clone_handle p s
        | Some obj \<Rightarrow> (pe_principal peer obj, s)) 0 (\<lambda>p' s'. object_of s' p' = Some (OPrincipal a u))"
        by (simp add: runs_def)
    qed
    then show "runs s1 (call_get_principal peer forged) (1 + 1) (\<lambda>p' s'. object_of s' p' = Some (OPrincipal a u))"
      by (rule runs_weaken) simp_all
    show "runs s1 (call_get_domain_id peer forged) (1 + 0) (\<lambda>d s'. d = aa_domain_id (as_authorities s' ! a))"
      unfolding call_get_domain_id_def
    proof (rule runs_bind [OF runs_need [OF s1(1)]])
      fix x s2 assume s2: "auth_inv s2" "keeps s1 s2"
      note answers [OF keeps_trans [OF s1(2) s2(2)]]
      with s2(1) assms(7) show "runs s2 (\<lambda>s. (case object_of s forged of
           None \<Rightarrow> Inl FACET_INVALID_HANDLE
         | Some (OAuthenticated a u) \<Rightarrow> Inr (authenticated_domain_id (as_authorities s ! a))
         | Some (OSession p domain_id user) \<Rightarrow> Inr domain_id
         | Some obj \<Rightarrow> pe_domain_id peer obj, s)) 0 (\<lambda>d s'. d = aa_domain_id (as_authorities s' ! a))"
        by (simp add: runs_def)
    qed
  qed
  from runs_found_create [OF this assms(2)] assms(3) show ?thesis by (auto simp: runs_def split: prod.splits)
qed

end
