(* ===== verification/FileView.thy ===== *)
theory FileView
  imports Initrd ConfigValid
begin

text \<open>
  The credential-scoped view of the boot file system of dominit0/file_view.c: the
  stores that bind a uid and gid to an archive, the nodes they hand out, the
  synthetic /posix/etc mount, and the permission checks in front of every open,
  read and listing.

  A store is named by its address, an exported object by its handle; a copy of a
  handle denotes the same object.  Allocations, exports and handle copies take one
  unit each of a budget.  Pointer arguments are not NULL.
\<close>

section \<open>State\<close>

datatype SyntheticNode =
    SYNTHETIC_NONE
  | SYNTHETIC_ETC_DIRECTORY
  | SYNTHETIC_PASSWD
  | SYNTHETIC_SHADOW
  | SYNTHETIC_FSTAB

record CredentialNode =
  cn_store :: nat
  cn_backing :: "nat option"
  cn_synthetic :: SyntheticNode
  cn_directory :: bool
  cn_handle :: FacetHandle

record CredentialFileStore =
  cs_handle :: FacetHandle
  cs_initrd :: nat
  cs_uid :: u32
  cs_gid :: u32
  cs_admin :: bool
  cs_virtual_passwd :: string
  cs_virtual_shadow :: string
  cs_references :: nat
  cs_nodes :: "CredentialNode list"

datatype FileObject =
    FStore nat
  | FNode CredentialNode

text \<open>
  \<open>fv_stores\<close> is the memory of the stores by address, \<open>fv_live\<close> the linked list
  credential_stores, newest first.  An unlinked store is freed: its address is
  not used again.
\<close>

record FileViewState =
  fv_initrds :: "FacetInitrd list"
  fv_stores :: "CredentialFileStore list"
  fv_live :: "nat list"
  fv_objects :: "FileObject option list"
  fv_budget :: nat

type_synonym 'a view = "(FileViewState, 'a) service"

definition need_memory :: "unit view" where
  "need_memory s =
     (if fv_budget s = 0 then (Inl FACET_OUT_OF_MEMORY, s)
      else (Inr (), s\<lparr>fv_budget := fv_budget s - 1\<rparr>))"

fun need_memory_times :: "nat \<Rightarrow> unit view" where
  "need_memory_times 0 = returnS ()"
| "need_memory_times (Suc n) = bindS need_memory (\<lambda>_. need_memory_times n)"

text \<open>
  An operation of the archive reader that allocates at most once.  Its argument
  tells whether the allocation succeeds; an operation whose answer does not depend
  on that has returned before allocating, and takes nothing.
\<close>

definition with_memory :: "(bool \<Rightarrow> FacetInitrd list \<Rightarrow> 'a facet) \<Rightarrow> 'a view" where
  "with_memory f s =
     (if f True (fv_initrds s) = f False (fv_initrds s) then (f True (fv_initrds s), s)
      else (f (fv_budget s \<noteq> 0) (fv_initrds s), s\<lparr>fv_budget := fv_budget s - 1\<rparr>))"

definition file_object :: "FileViewState \<Rightarrow> FacetHandle \<Rightarrow> FileObject option" where
  "file_object s h =
     (case h of
        None \<Rightarrow> None
      | Some n \<Rightarrow> if n < length (fv_objects s) then fv_objects s ! n else None)"

definition export_file_object :: "(FacetHandle \<Rightarrow> FileObject) \<Rightarrow> FacetHandle view" where
  "export_file_object obj = bindS need_memory (\<lambda>_ s.
     let h = Some (length (fv_objects s))
     in (Inr h, s\<lparr>fv_objects := fv_objects s @ [Some (obj h)]\<rparr>))"

definition unexport_file_object :: "FacetHandle \<Rightarrow> FileViewState \<Rightarrow> FileViewState" where
  "unexport_file_object h s =
     (case h of
        None \<Rightarrow> s
      | Some n \<Rightarrow> s\<lparr>fv_objects := (fv_objects s)[n := None]\<rparr>)"

definition update_store :: "nat \<Rightarrow> (CredentialFileStore \<Rightarrow> CredentialFileStore) \<Rightarrow> FileViewState \<Rightarrow> FileViewState" where
  "update_store a f s = s\<lparr>fv_stores := (fv_stores s)[a := f (fv_stores s ! a)]\<rparr>"

section \<open>The synthetic mount\<close>

definition default_passwd :: string where
  "default_passwd =
     ''root:x:0:0:root:/home/root:/bin/sh'' @ [CHR 0x0A] @
     ''user:x:1000:1000:user:/home/user:/bin/sh'' @ [CHR 0x0A]"

definition default_shadow :: string where
  "default_shadow =
     ''root:$5$facet$j7FgoXidvJl10CTaW0nguGP3ZnvKnqS3/IHmDVliPQ9:::::::'' @ [CHR 0x0A] @
     ''user:$5$facet$j7FgoXidvJl10CTaW0nguGP3ZnvKnqS3/IHmDVliPQ9:::::::'' @ [CHR 0x0A]"

definition default_fstab :: string where
  "default_fstab = ''initrd / initrd ro 0 0'' @ [CHR 0x0A]"

fun synthetic_path :: "SyntheticNode \<Rightarrow> string option" where
  "synthetic_path SYNTHETIC_ETC_DIRECTORY = Some ''/posix/etc''"
| "synthetic_path SYNTHETIC_PASSWD = Some ''/posix/etc/passwd''"
| "synthetic_path SYNTHETIC_SHADOW = Some ''/posix/etc/shadow''"
| "synthetic_path SYNTHETIC_FSTAB = Some ''/posix/etc/fstab''"
| "synthetic_path SYNTHETIC_NONE = None"

fun synthetic_contents :: "CredentialFileStore \<Rightarrow> SyntheticNode \<Rightarrow> string option" where
  "synthetic_contents store SYNTHETIC_PASSWD = Some (cs_virtual_passwd store)"
| "synthetic_contents store SYNTHETIC_SHADOW = Some (cs_virtual_shadow store)"
| "synthetic_contents store SYNTHETIC_FSTAB = Some default_fstab"
| "synthetic_contents store _ = None"

definition synthetic_for_path :: "string \<Rightarrow> bool \<Rightarrow> SyntheticNode" where
  "synthetic_for_path path directory =
     (if directory \<and> path = ''/posix/etc'' then SYNTHETIC_ETC_DIRECTORY
      else if \<not> directory \<and> path = ''/posix/etc/passwd'' then SYNTHETIC_PASSWD
      else if \<not> directory \<and> path = ''/posix/etc/shadow'' then SYNTHETIC_SHADOW
      else if \<not> directory \<and> path = ''/posix/etc/fstab'' then SYNTHETIC_FSTAB
      else SYNTHETIC_NONE)"

section \<open>Handles and permissions\<close>

definition clone_file_handle :: "FacetHandle \<Rightarrow> FacetHandle view" where
  "clone_file_handle h =
     (if h = None then failS FACET_INVALID_HANDLE else bindS need_memory (\<lambda>_. returnS h))"

definition mode_allows :: "u32 \<Rightarrow> u32 \<Rightarrow> u32 \<Rightarrow> u32 \<Rightarrow> u32 \<Rightarrow> bool \<Rightarrow> u32 \<Rightarrow> bool" where
  "mode_allows mode owner grp uid gid admin requested =
     (if admin \<or> uid = 0
      then (if requested AND 1 \<noteq> 0 \<and> mode AND 0x49 = 0 then False else True)
      else let granted =
             (if uid = owner then drop_bit 6 mode AND 7
              else if gid = grp then drop_bit 3 mode AND 7
              else mode AND 7)
           in granted AND requested = requested)"

definition check_access :: "FacetInitrd list \<Rightarrow> CredentialFileStore \<Rightarrow> nat \<Rightarrow> u32 \<Rightarrow> unit facet" where
  "check_access inis store node requested =
     (case facet_initrd_node_metadata (inis ! cs_initrd store) node of
        (mode, owner, grp) \<Rightarrow>
          if mode_allows mode owner grp (cs_uid store) (cs_gid store) (cs_admin store) requested
          then Inr () else Inl FACET_ACCESS_DENIED)"

text \<open>Opening a directory of the archive and checking that it may be searched.\<close>

definition search_directory :: "CredentialFileStore \<Rightarrow> string \<Rightarrow> unit view" where
  "search_directory store path =
     with_memory (\<lambda>mem inis.
       bindE (facet_initrd_open_node mem (inis ! cs_initrd store) ''/'' path True)
         (\<lambda>directory. check_access inis store directory 1))"

function check_search_loop :: "CredentialFileStore \<Rightarrow> string \<Rightarrow> bool \<Rightarrow> nat \<Rightarrow> unit view" where
  "check_search_loop store path include_target i =
     (if i < length path
      then let end = component_end path i in
        if end = length path \<and> \<not> include_target then returnS ()
        else bindS (search_directory store (take end path))
               (\<lambda>_. check_search_loop store path include_target end)
      else returnS ())"
  by pat_completeness auto
termination
  by (relation "measure (\<lambda>(store, path, include_target, i). length path - i)")
    (auto intro: diff_less_mono2 component_end_gt)

declare check_search_loop.simps [simp del]

definition check_search :: "CredentialFileStore \<Rightarrow> string \<Rightarrow> bool \<Rightarrow> unit view" where
  "check_search store path include_target s =
     (if path = [] \<or> hd path \<noteq> CHR ''/'' then (Inl FACET_INVALID_ARGUMENT, s)
      else case search_directory store ''/'' s of
             (result, s1) \<Rightarrow>
               (case need_memory s1 of
                  (Inl e, s2) \<Rightarrow> (Inl e, s2)
                | (Inr _, s2) \<Rightarrow>
                    (case result of
                       Inl e \<Rightarrow> (Inl e, s2)
                     | Inr _ \<Rightarrow> check_search_loop store path include_target 1 s2)))"

section \<open>Nodes\<close>

definition node_path :: "FileViewState \<Rightarrow> CredentialNode \<Rightarrow> string option" where
  "node_path s node =
     (if cn_synthetic node = SYNTHETIC_NONE
      then map_option (facet_initrd_node_path (fv_initrds s ! cs_initrd (fv_stores s ! cn_store node)))
             (cn_backing node)
      else synthetic_path (cn_synthetic node))"

definition get_node_path :: "CredentialNode \<Rightarrow> string view" where
  "get_node_path node s =
     (case node_path s node of
        None \<Rightarrow> (Inl FACET_INVALID_HANDLE, s)
      | Some path \<Rightarrow> (Inr path, s))"

definition file_size :: "CredentialNode \<Rightarrow> nat view" where
  "file_size node s =
     (let store = fv_stores s ! cn_store node in
      ((case synthetic_contents store (cn_synthetic node) of
          Some contents \<Rightarrow> Inr (length contents)
        | None \<Rightarrow>
            (case cn_backing node of
               None \<Rightarrow> Inl FACET_INVALID_ARGUMENT
             | Some i \<Rightarrow> facet_initrd_node_size (fv_initrds s ! cs_initrd store) i)), s))"

definition read_synthetic :: "CredentialFileStore \<Rightarrow> CredentialNode \<Rightarrow> string \<Rightarrow> nat \<Rightarrow> nat \<Rightarrow> string view" where
  "read_synthetic store node contents offset maximum =
     (if cn_synthetic node = SYNTHETIC_SHADOW \<and> \<not> cs_admin store then failS FACET_ACCESS_DENIED
      else if offset \<ge> length contents then returnS []
      else let count = length contents - offset;
               count' = (if count > maximum then maximum else count)
           in bindS (if count' = 0 then returnS () else need_memory)
                (\<lambda>_. returnS (take count' (drop offset contents))))"

definition file_read :: "CredentialNode \<Rightarrow> nat \<Rightarrow> nat \<Rightarrow> string view" where
  "file_read node offset maximum s =
     (let store = fv_stores s ! cn_store node in
      case synthetic_contents store (cn_synthetic node) of
        Some contents \<Rightarrow> read_synthetic store node contents offset maximum s
      | None \<Rightarrow>
          (case cn_backing node of
             None \<Rightarrow> (Inl FACET_INVALID_ARGUMENT, s)
           | Some i \<Rightarrow>
               (bindE (check_access (fv_initrds s) store i 4)
                  (\<lambda>_. facet_initrd_node_read (fv_initrds s ! cs_initrd store) i offset maximum), s)))"

definition file_write :: "CredentialNode \<Rightarrow> nat \<Rightarrow> string \<Rightarrow> nat view" where
  "file_write node offset data = failS FACET_NOT_SUPPORTED"

type_synonym listing = "(string \<times> EntryType) list \<times> nat \<times> bool"

definition etc_names :: "string list" where
  "etc_names = [''fstab'', ''passwd'', ''shadow'']"

definition list_etc :: "nat \<Rightarrow> nat \<Rightarrow> listing view" where
  "list_etc cursor maximum =
     (if cursor \<ge> length etc_names \<or> maximum = 0
      then returnS ([], cursor, cursor \<ge> length etc_names)
      else let count = length etc_names - cursor;
               count' = (if count > maximum then maximum else count)
           in bindS (need_memory_times (Suc count'))
                (\<lambda>_. returnS (map (\<lambda>name. (name, EntryType_File)) (take count' (drop cursor etc_names)),
                              cursor + count', cursor + count' = length etc_names)))"

definition extend_posix_root :: "string option \<Rightarrow> nat \<Rightarrow> nat \<Rightarrow> listing \<Rightarrow> listing view" where
  "extend_posix_root path cursor maximum =
     (\<lambda>(entries, next, end).
        if cursor \<noteq> 0 \<or> \<not> end \<or> maximum \<le> length entries \<or> path \<noteq> Some ''/posix''
        then returnS (entries, next, end)
        else bindS (need_memory_times 2)
               (\<lambda>_. returnS (entries @ [(''etc'', EntryType_Directory)], next, end)))"

definition view_directory_list :: "CredentialNode \<Rightarrow> nat \<Rightarrow> nat \<Rightarrow> listing view" where
  "view_directory_list node cursor maximum s =
     (if cn_synthetic node = SYNTHETIC_ETC_DIRECTORY then list_etc cursor maximum s
      else case cn_backing node of
             None \<Rightarrow> (Inl FACET_INVALID_ARGUMENT, s)
           | Some i \<Rightarrow>
               let store = fv_stores s ! cn_store node in
               bindS (with_memory (\<lambda>mem inis.
                        bindE (check_access inis store i 5)
                          (\<lambda>_. facet_initrd_node_list mem (inis ! cs_initrd store) i cursor maximum)))
                 (extend_posix_root (node_path s node) cursor maximum) s)"

section \<open>Opening\<close>

text \<open>
  directory_open normalises the candidate path in its own buffer: \<open>scan\<close> reads
  ahead of \<open>write\<close>.
\<close>

fun copy_forward :: "nat \<Rightarrow> nat \<Rightarrow> nat \<Rightarrow> string \<Rightarrow> string" where
  "copy_forward 0 write part buf = buf"
| "copy_forward (Suc n) write part buf = copy_forward n (write + 1) (part + 1) (buf[write := buf ! part])"

fun write_back :: "string \<Rightarrow> nat \<Rightarrow> nat" where
  "write_back buf 0 = 0"
| "write_back buf (Suc w) = (if Suc w > 1 \<and> buf ! w \<noteq> CHR ''/'' then write_back buf w else Suc w)"

definition skip_to :: "(char \<Rightarrow> bool) \<Rightarrow> string \<Rightarrow> nat \<Rightarrow> nat" where
  "skip_to P buf i = i + length (takeWhile P (drop i buf))"

lemma skip_to_ge [simp]: "i \<le> skip_to P buf i"
  by (simp add: skip_to_def)

lemma skip_to_gt: "i < length buf \<Longrightarrow> P (buf ! i) \<Longrightarrow> i < skip_to P buf i"
  by (cases "drop i buf") (auto simp: skip_to_def nth_via_drop)

lemma length_copy_forward [simp]: "length (copy_forward n w p buf) = length buf"
  by (induction n arbitrary: w p buf) auto

lemma skip_to_component_gt:
  assumes "i < length buf" and "skip_to ((=) CHR ''/'') buf i < length buf"
  shows "i < skip_to ((\<noteq>) CHR ''/'') buf (skip_to ((=) CHR ''/'') buf i)"
proof -
  let ?p = "skip_to ((=) CHR ''/'') buf i"
  have "buf ! ?p \<noteq> CHR ''/''"
    using assms(2) nth_length_takeWhile [of "(=) CHR ''/''" "drop i buf"]
    by (auto simp: skip_to_def less_diff_conv add.commute)
  then have "?p < skip_to ((\<noteq>) CHR ''/'') buf ?p" using assms(2) by (intro skip_to_gt) auto
  with skip_to_ge show ?thesis by (rule le_less_trans)
qed

function normalise_in_place :: "string \<Rightarrow> nat \<Rightarrow> nat \<Rightarrow> string \<times> nat" where
  "normalise_in_place buf scan write =
     (if scan < length buf
      then let part = skip_to ((=) CHR ''/'') buf scan in
        if \<not> part < length buf then (buf, write)
        else let scan' = skip_to ((\<noteq>) CHR ''/'') buf part; n = scan' - part in
          if n = 1 \<and> buf ! part = CHR ''.'' then normalise_in_place buf scan' write
          else if n = 2 \<and> buf ! part = CHR ''.'' \<and> buf ! (part + 1) = CHR ''.''
          then let back = write_back buf write
               in normalise_in_place buf scan' (if back > 1 then back - 1 else back)
          else let slash = (write = 0 \<or> buf ! (write - 1) \<noteq> CHR ''/'');
                   buf1 = (if slash then buf[write := CHR ''/''] else buf);
                   write1 = (if slash then write + 1 else write)
               in normalise_in_place (copy_forward n write1 part buf1) scan' (write1 + n)
      else (buf, write))"
  by pat_completeness auto
termination
  by (relation "measure (\<lambda>(buf, scan, write). length buf - scan)")
    (auto simp: Let_def intro!: diff_less_mono2 skip_to_component_gt)

declare normalise_in_place.simps [simp del]

definition normalise_candidate :: "string \<Rightarrow> string" where
  "normalise_candidate candidate =
     (case normalise_in_place candidate 0 0 of
        (buf, write) \<Rightarrow> if write = 0 then ''/'' else take write buf)"

definition same_node :: "FileViewState \<Rightarrow> string option \<Rightarrow> bool \<Rightarrow> CredentialNode \<Rightarrow> bool" where
  "same_node s path directory candidate \<longleftrightarrow>
     cn_directory candidate = directory \<and> path \<noteq> None \<and> node_path s candidate = path"

definition push_node :: "nat \<Rightarrow> CredentialNode \<Rightarrow> FacetHandle \<Rightarrow> FacetHandle view" where
  "push_node store node h s =
     clone_file_handle h (update_store store (\<lambda>st. st\<lparr>cs_nodes := node\<lparr>cn_handle := h\<rparr> # cs_nodes st\<rparr>) s)"

definition wrap_node :: "nat \<Rightarrow> nat option \<Rightarrow> SyntheticNode \<Rightarrow> bool \<Rightarrow> FacetHandle view" where
  "wrap_node store backing synthetic directory s =
     (let node = \<lparr>cn_store = store, cn_backing = backing, cn_synthetic = synthetic,
                  cn_directory = directory, cn_handle = None\<rparr>
      in case find (same_node s (node_path s node) directory) (cs_nodes (fv_stores s ! store)) of
           Some candidate \<Rightarrow> clone_file_handle (cn_handle candidate) s
         | None \<Rightarrow>
             bindS need_memory (\<lambda>_.
             bindS (export_file_object (\<lambda>h. FNode (node\<lparr>cn_handle := h\<rparr>)))
               (push_node store node)) s)"

text \<open>Opening an archive entry by an absolute path: find it, then check the way to it.\<close>

definition open_backed :: "nat \<Rightarrow> string \<Rightarrow> bool \<Rightarrow> FacetHandle view" where
  "open_backed store path directory s =
     (let st = fv_stores s ! store in
      bindS (with_memory (\<lambda>mem inis. facet_initrd_open_node mem (inis ! cs_initrd st) ''/'' path directory))
        (\<lambda>opened.
           bindS (check_search st (facet_initrd_node_path (fv_initrds s ! cs_initrd st) opened) directory)
             (\<lambda>_. wrap_node store (Some opened) SYNTHETIC_NONE directory)) s)"

definition directory_open :: "CredentialNode \<Rightarrow> string \<Rightarrow> bool \<Rightarrow> FacetHandle view" where
  "directory_open node path directory s =
     (if path = [] then (Inl FACET_INVALID_ARGUMENT, s)
      else case node_path s node of
        None \<Rightarrow> (Inl FACET_INVALID_HANDLE, s)
      | Some base \<Rightarrow>
          bindS need_memory (\<lambda>_.
            let candidate = normalise_candidate
                  (cstr (if hd path = CHR ''/'' then path else base @ ''/'' @ path));
                synthetic = synthetic_for_path candidate directory
            in if synthetic \<noteq> SYNTHETIC_NONE then wrap_node (cn_store node) None synthetic directory
               else open_backed (cn_store node) candidate directory) s)"

definition directory_open_file_view :: "CredentialNode \<Rightarrow> string \<Rightarrow> FacetHandle view" where
  "directory_open_file_view node path = directory_open node path False"

definition directory_open_directory_view :: "CredentialNode \<Rightarrow> string \<Rightarrow> FacetHandle view" where
  "directory_open_directory_view node path = directory_open node path True"

definition store_open :: "nat \<Rightarrow> string \<Rightarrow> bool \<Rightarrow> FacetHandle view" where
  "store_open store path directory =
     (if path = [] then failS FACET_INVALID_ARGUMENT
      else bindS need_memory (\<lambda>_.
        let synthetic = synthetic_for_path (cstr path) directory
        in if synthetic \<noteq> SYNTHETIC_NONE then wrap_node store None synthetic directory
           else open_backed store path directory))"

definition store_open_file_view :: "nat \<Rightarrow> string \<Rightarrow> FacetHandle view" where
  "store_open_file_view store path = store_open store path False"

definition store_open_directory_view :: "nat \<Rightarrow> string \<Rightarrow> FacetHandle view" where
  "store_open_directory_view store path = store_open store path True"

section \<open>Interfaces\<close>

definition node_get_interface ::
  "InterfaceIds \<Rightarrow> FacetHandle facet \<Rightarrow> CredentialNode \<Rightarrow> uuid \<Rightarrow> FacetHandle view" where
  "node_get_interface I expo node iid s =
     (if iid_equal iid (IID_IGenericObject I) \<or>
         (\<not> cn_directory node \<and> iid_equal iid (IID_IFile I)) \<or>
         (cn_directory node \<and> iid_equal iid (IID_IDirectory I))
      then clone_file_handle (cn_handle node) s
      else if cn_synthetic node = SYNTHETIC_NONE \<and> iid_equal iid (IID_IUnixMetadata I)
      then (case cn_backing node of
              None \<Rightarrow> (Inl FACET_INVALID_ARGUMENT, s)
            | Some i \<Rightarrow>
                let k = cs_initrd (fv_stores s ! cn_store node) in
                (case facet_initrd_node_metadata_handle expo (fv_initrds s ! k) i of
                   (result, ini) \<Rightarrow> (result, s\<lparr>fv_initrds := (fv_initrds s)[k := ini]\<rparr>)))
      else (Inl FACET_NO_INTERFACE, s))"

definition view_store_get_interface :: "InterfaceIds \<Rightarrow> nat \<Rightarrow> uuid \<Rightarrow> FacetHandle view" where
  "view_store_get_interface I store iid s =
     (if \<not> iid_equal iid (IID_IGenericObject I) \<and> \<not> iid_equal iid (IID_IFileStore I)
      then (Inl FACET_NO_INTERFACE, s)
      else clone_file_handle (cs_handle (fv_stores s ! store)) s)"

section \<open>Stores\<close>

text \<open>The text snprintf appends, if the rest of the buffer holds it and its NUL.\<close>

definition append_line :: "nat \<Rightarrow> string \<Rightarrow> string \<Rightarrow> string option" where
  "append_line capacity used line =
     (if length line \<ge> capacity - length used then None else Some (used @ line))"

definition passwd_line :: "string \<Rightarrow> u32 \<Rightarrow> u32 \<Rightarrow> string \<Rightarrow> string \<Rightarrow> string" where
  "passwd_line name uid gid home shell =
     name @ '':x:'' @ decimal (unat uid) @ '':'' @ decimal (unat gid) @ '':'' @ name @ '':'' @ home @ '':'' @
     shell @ [CHR 0x0A]"

definition shadow_line :: "string \<Rightarrow> string \<Rightarrow> string" where
  "shadow_line name hash = name @ '':'' @ hash @ '':::::::'' @ [CHR 0x0A]"

text \<open>The strings of a user the rendering measures; strlen of NULL is undefined.\<close>

definition rendered_fields :: "FacetConfigUser \<Rightarrow> (string \<times> string \<times> string \<times> string) option" where
  "rendered_fields user =
     (case (us_name user, us_home_path user, us_posix_shell user, us_password_hash user) of
        (Some name, Some home, Some shell, Some hash) \<Rightarrow> Some (name, home, shell, hash)
      | _ \<Rightarrow> None)"

definition passwd_capacity :: "FacetConfigUser list \<Rightarrow> nat" where
  "passwd_capacity users =
     1 + (\<Sum>user \<leftarrow> users. case rendered_fields user of
            Some (name, home, shell, hash) \<Rightarrow> length name + length home + length shell + 48
          | None \<Rightarrow> 0)"

definition shadow_capacity :: "FacetConfigUser list \<Rightarrow> nat" where
  "shadow_capacity users =
     1 + (\<Sum>user \<leftarrow> users. case rendered_fields user of
            Some (name, home, shell, hash) \<Rightarrow> length name + length hash + 16
          | None \<Rightarrow> 0)"

definition render_user :: "nat \<Rightarrow> nat \<Rightarrow> FacetConfigUser \<Rightarrow> string \<times> string \<Rightarrow> FacetResult + string \<times> string" where
  "render_user passwd_size shadow_size user =
     (\<lambda>(passwd, shadow).
        case rendered_fields user of
          None \<Rightarrow> Inl FACET_ERROR
        | Some (name, home, shell, hash) \<Rightarrow>
            (case append_line passwd_size passwd (passwd_line name (us_uid user) (us_gid user) home shell) of
               None \<Rightarrow> Inl FACET_ERROR
             | Some passwd' \<Rightarrow>
                 (case append_line shadow_size shadow (shadow_line name hash) of
                    None \<Rightarrow> Inl FACET_ERROR
                  | Some shadow' \<Rightarrow> Inr (passwd', shadow'))))"

definition render_virtual_credentials :: "FacetConfigUser list \<Rightarrow> (string \<times> string) facet outcome" where
  "render_virtual_credentials users =
     (if users = [] then Returns (Inr (default_passwd, default_shadow))
      else if list_ex (\<lambda>user. rendered_fields user = None) users then Undefined
      else Returns (foldE (render_user (passwd_capacity users) (shadow_capacity users)) users ([], [])))"

definition same_credentials :: "FileViewState \<Rightarrow> nat \<Rightarrow> u32 \<Rightarrow> u32 \<Rightarrow> bool \<Rightarrow> nat \<Rightarrow> bool" where
  "same_credentials s ini uid gid admin a \<longleftrightarrow>
     cs_initrd (fv_stores s ! a) = ini \<and> cs_uid (fv_stores s ! a) = uid \<and>
     cs_gid (fv_stores s ! a) = gid \<and> cs_admin (fv_stores s ! a) = admin"

definition link_store :: "CredentialFileStore \<Rightarrow> FacetHandle \<Rightarrow> nat view" where
  "link_store store h s =
     (Inr (length (fv_stores s)),
      s\<lparr>fv_stores := fv_stores s @ [store\<lparr>cs_handle := h\<rparr>], fv_live := length (fv_stores s) # fv_live s\<rparr>)"

definition new_store :: "nat \<Rightarrow> u32 \<Rightarrow> u32 \<Rightarrow> bool \<Rightarrow> string \<times> string \<Rightarrow> nat view" where
  "new_store ini uid gid admin = (\<lambda>(passwd, shadow) s.
     bindS (export_file_object (\<lambda>h. FStore (length (fv_stores s))))
       (link_store \<lparr>cs_handle = None, cs_initrd = ini, cs_uid = uid, cs_gid = gid, cs_admin = admin,
                    cs_virtual_passwd = passwd, cs_virtual_shadow = shadow, cs_references = 1,
                    cs_nodes = []\<rparr>) s)"

text \<open>\<open>users\<close> are those of dominit0_config_get_system, none if there is no configuration.\<close>

definition dominit0_credential_file_store_create ::
  "FacetConfigUser list \<Rightarrow> nat \<Rightarrow> u32 \<Rightarrow> u32 \<Rightarrow> bool \<Rightarrow> FileViewState \<Rightarrow> (nat option \<times> FileViewState) outcome" where
  "dominit0_credential_file_store_create users ini uid gid admin s =
     (case find (same_credentials s ini uid gid admin) (fv_live s) of
        Some a \<Rightarrow> Returns (Some a, update_store a (\<lambda>st. st\<lparr>cs_references := cs_references st + 1\<rparr>) s)
      | None \<Rightarrow>
          if fv_budget s = 0 then Returns (None, s)
          else case render_virtual_credentials users of
                 Undefined \<Rightarrow> Undefined
               | Returns text \<Rightarrow>
                   Returns (case bindS (need_memory_times 3) (\<lambda>_.
                                   case text of Inl e \<Rightarrow> failS e | Inr t \<Rightarrow> new_store ini uid gid admin t) s of
                              (Inl _, s') \<Rightarrow> (None, s')
                            | (Inr a, s') \<Rightarrow> (Some a, s')))"

definition dominit0_credential_file_store_handle :: "FileViewState \<Rightarrow> nat \<Rightarrow> FacetHandle" where
  "dominit0_credential_file_store_handle s a = cs_handle (fv_stores s ! a)"

definition dominit0_credential_file_store_passwd :: "FileViewState \<Rightarrow> nat \<Rightarrow> string" where
  "dominit0_credential_file_store_passwd s a = cs_virtual_passwd (fv_stores s ! a)"

definition dominit0_credential_file_store_shadow :: "FileViewState \<Rightarrow> nat \<Rightarrow> string" where
  "dominit0_credential_file_store_shadow s a = cs_virtual_shadow (fv_stores s ! a)"

definition dominit0_credential_file_store_fstab :: "FileViewState \<Rightarrow> nat \<Rightarrow> string" where
  "dominit0_credential_file_store_fstab s a = default_fstab"

definition dominit0_credential_file_store_destroy :: "nat \<Rightarrow> FileViewState \<Rightarrow> FileViewState" where
  "dominit0_credential_file_store_destroy a s =
     (let store = fv_stores s ! a in
      if cs_references store > 1
      then update_store a (\<lambda>st. st\<lparr>cs_references := cs_references st - 1\<rparr>) s
      else unexport_file_object (cs_handle store)
             (fold (\<lambda>node. unexport_file_object (cn_handle node)) (cs_nodes store)
                (s\<lparr>fv_live := remove1 a (fv_live s)\<rparr>)))"

section \<open>The in-place normaliser\<close>

lemma drop_skip_to: "drop (skip_to P buf i) buf = dropWhile P (drop i buf)"
  by (subst dropWhile_eq_drop) (simp add: skip_to_def add.commute)

lemma take_skip_to: "take (skip_to P buf i - i) (drop i buf) = takeWhile P (drop i buf)"
  by (subst takeWhile_eq_take) (simp add: skip_to_def)

lemma skip_to_le: "i \<le> length buf \<Longrightarrow> skip_to P buf i \<le> length buf"
  using length_takeWhile_le [of P "drop i buf"] by (simp add: skip_to_def)

lemma copy_forward_eq:
  "w \<le> part \<Longrightarrow> part + n \<le> length buf \<Longrightarrow>
   copy_forward n w part buf = take w buf @ take n (drop part buf) @ drop (w + n) buf"
proof (induction n arbitrary: w part buf)
  case (Suc n)
  have part: "drop part buf = buf ! part # drop (Suc part) buf"
    using Suc.prems by (intro Cons_nth_drop_Suc [symmetric]) simp
  have "drop (Suc part) (buf[w := buf ! part]) = drop (Suc part) buf" using Suc.prems by simp
  moreover have "take (Suc w) (buf[w := buf ! part]) = take w buf @ [buf ! part]"
    using Suc.prems by (simp add: take_Suc_conv_app_nth)
  ultimately show ?case
    using Suc.IH [of "w + 1" "part + 1" "buf[w := buf ! part]"] Suc.prems part by simp
qed simp

lemma write_back_word:
  assumes "take w buf = xs @ CHR ''/'' # c" and "CHR ''/'' \<notin> set c" and "w \<le> length buf"
  shows "write_back buf w = length xs + 1"
  using assms
proof (induction c arbitrary: w rule: rev_induct)
  case Nil
  have len: "w = Suc (length xs)" using arg_cong [OF Nil(1), of length] Nil(3) by simp
  have "buf ! length xs = CHR ''/''"
    using arg_cong [OF Nil(1), of "\<lambda>l. l ! length xs"] len by simp
  with len show ?case by simp
next
  case (snoc d c)
  then obtain v where v: "w = Suc v" by (cases w) auto
  have len: "v = length xs + 1 + length c"
    using arg_cong [OF snoc.prems(1), of length] snoc.prems(3) v by simp
  have "take v buf = xs @ CHR ''/'' # c"
    using arg_cong [OF snoc.prems(1), of "take v"] len v by simp
  moreover have "buf ! v = d"
    using arg_cong [OF snoc.prems(1), of "\<lambda>l. l ! v"] len v by (simp add: nth_append)
  ultimately show ?case using snoc.IH [of v] snoc.prems v len by auto
qed

text \<open>What the first \<open>w\<close> bytes of the buffer stand for.\<close>

definition written :: "string list \<Rightarrow> nat \<Rightarrow> string \<Rightarrow> bool" where
  "written st w buf \<longleftrightarrow>
     w \<le> length buf \<and> (w = 0 \<and> st = [] \<or> take w buf = render_abs st)"

lemma written_pop:
  assumes "written st w buf" and "proper_stack st"
  shows "written (butlast st) (if write_back buf w > 1 then write_back buf w - 1 else write_back buf w) buf \<and>
         write_back buf w \<le> w"
proof (cases st rule: rev_cases)
  case Nil
  then have "w \<le> 1" using assms(1) by (auto simp: written_def dest: arg_cong [of _ _ length])
  then show ?thesis using Nil assms(1) by (cases w) (auto simp: written_def)
next
  case (snoc ss c)
  have c: "c \<noteq> []" "CHR ''/'' \<notin> set c" using assms(2) snoc by (auto simp: proper_component_def)
  let ?p = "if ss = [] then [] else render_abs ss"
  have t: "take w buf = ?p @ CHR ''/'' # c" and le: "w \<le> length buf"
    using assms(1) snoc by (auto simp: written_def render_abs_def)
  have wb: "write_back buf w = length ?p + 1" using write_back_word [OF t c(2) le] by simp
  have len: "w = length ?p + 1 + length c" using arg_cong [OF t, of length] le by simp
  have "take (length ?p) buf = ?p" and "take (length ?p + 1) buf = ?p @ ''/''"
    using arg_cong [OF t, of "take (length ?p)"] arg_cong [OF t, of "take (length ?p + 1)"] len by simp_all
  moreover have "ss \<noteq> [] \<Longrightarrow> 0 < length (render_abs ss)" by (simp add: render_abs_def)
  ultimately show ?thesis using wb snoc le len by (auto simp: written_def)
qed

lemma last_render_abs:
  assumes "proper_stack st" and "st \<noteq> []"
  shows "last (render_abs st) \<noteq> CHR ''/''"
proof (cases st rule: rev_cases)
  case (snoc ss c)
  then have "c \<noteq> []" "CHR ''/'' \<notin> set c" using assms(1) by (auto simp: proper_component_def)
  then have "last c \<noteq> CHR ''/''" by (metis last_in_set)
  with snoc \<open>c \<noteq> []\<close> show ?thesis by (simp add: render_abs_def)
qed (use assms(2) in simp)

lemma written_slash:
  assumes "written st w buf" and "proper_stack st"
  shows "(w = 0 \<or> buf ! (w - 1) \<noteq> CHR ''/'') \<longleftrightarrow> \<not> (st = [] \<and> w = 1)"
proof (cases "w = 0")
  case False
  with assms(1) have t: "take w buf = render_abs st" "w \<le> length buf" by (auto simp: written_def)
  then have "last (render_abs st) = buf ! (w - 1)"
    using False by (metis diff_less last_conv_nth length_take less_numeral_extra(1) min.absorb2 nth_take not_gr_zero take_eq_Nil list.size(3))
  moreover have "st = [] \<Longrightarrow> w = 1" using arg_cong [OF t(1), of length] t(2) by simp
  ultimately show ?thesis using False last_render_abs [OF assms(2)] by (cases "st = []") auto
qed simp

lemma written_append:
  assumes "written st w buf" and "proper_stack st" and "w < part" and "part + n \<le> length buf"
    and slash: "slash \<longleftrightarrow> (w = 0 \<or> buf ! (w - 1) \<noteq> CHR ''/'')"
  shows "let w1 = (if slash then w + 1 else w);
             buf' = copy_forward n w1 part (if slash then buf[w := CHR ''/''] else buf)
         in written (st @ [take n (drop part buf)]) (w1 + n) buf' \<and>
            drop (part + n) buf' = drop (part + n) buf"
proof -
  let ?buf1 = "if slash then buf[w := CHR ''/''] else buf" and ?w1 = "if slash then w + 1 else w"
  have st: "slash \<longleftrightarrow> \<not> (st = [] \<and> w = 1)" using slash written_slash [OF assms(1,2)] by simp
  have d: "drop part ?buf1 = drop part buf" "length ?buf1 = length buf" using assms(3) by auto
  have copy: "copy_forward n ?w1 part ?buf1 = take ?w1 ?buf1 @ take n (drop part buf) @ drop (?w1 + n) ?buf1"
    using copy_forward_eq [of ?w1 part n ?buf1] assms(3,4) d by simp
  have "st = [] \<Longrightarrow> w \<le> 1" using assms(1) by (auto simp: written_def dest: arg_cong [of _ _ length])
  then have "take ?w1 ?buf1 = (if st = [] then [] else render_abs st) @ ''/''"
    using assms(1,3,4) st by (auto simp: written_def take_Suc_conv_app_nth)
  then have a: "take ?w1 ?buf1 @ take n (drop part buf) = render_abs (st @ [take n (drop part buf)])"
    by (simp add: render_abs_def)
  have len: "length (take ?w1 ?buf1 @ take n (drop part buf)) = ?w1 + n" using assms(3,4) d by simp
  have "take (?w1 + n) (copy_forward n ?w1 part ?buf1) = render_abs (st @ [take n (drop part buf)])"
    unfolding copy append_assoc [symmetric] a using len a by simp
  moreover have "drop (part + n) (copy_forward n ?w1 part ?buf1) = drop (part + n) ?buf1"
    unfolding copy append_assoc [symmetric] using len assms(3) by (auto simp: drop_append)
  moreover have "drop (part + n) ?buf1 = drop (part + n) buf" using assms(3) by simp
  ultimately show ?thesis using assms(3,4) by (simp add: written_def)
qed

abbreviation part_at :: "string \<Rightarrow> nat \<Rightarrow> nat" where
  "part_at buf scan \<equiv> skip_to ((=) CHR ''/'') buf scan"

abbreviation part_end :: "string \<Rightarrow> nat \<Rightarrow> nat" where
  "part_end buf scan \<equiv> skip_to ((\<noteq>) CHR ''/'') buf (part_at buf scan)"

abbreviation part_bytes :: "string \<Rightarrow> nat \<Rightarrow> string" where
  "part_bytes buf scan \<equiv> take (part_end buf scan - part_at buf scan) (drop (part_at buf scan) buf)"

lemma next_component:
  assumes "scan < length buf" and "part_at buf scan < length buf"
  shows "components (drop scan buf) = part_bytes buf scan # components (drop (part_end buf scan) buf)"
proof -
  let ?p = "part_at buf scan"
  have head: "head_component (drop scan buf) = part_bytes buf scan"
    by (simp only: take_skip_to) (simp add: drop_skip_to head_component_def skip_slashes_def)
  have rest: "after_component (drop scan buf) = drop (part_end buf scan) buf"
    by (simp add: drop_skip_to after_component_def skip_slashes_def)
  have "buf ! ?p \<noteq> CHR ''/''"
    using assms(2) nth_length_takeWhile [of "(=) CHR ''/''" "drop scan buf"]
    by (auto simp: skip_to_def less_diff_conv add.commute)
  then have "?p < part_end buf scan" using assms(2) by (intro skip_to_gt) auto
  then have "head_component (drop scan buf) \<noteq> []" using head assms(2) by simp
  with head rest assms(1) show ?thesis by (subst components.simps) simp
qed

lemma no_component:
  assumes "\<not> part_at buf scan < length buf"
  shows "components (drop scan buf) = []"
proof -
  have "skip_slashes (drop scan buf) = []"
    using assms drop_skip_to [of "(=) CHR ''/''" buf scan] by (simp add: skip_slashes_def)
  then show ?thesis by (subst components.simps) (simp add: head_component_def after_component_def)
qed

lemma part_end_slash: "part_end buf scan < length buf \<Longrightarrow> buf ! part_end buf scan = CHR ''/''"
  using nth_length_takeWhile [of "(\<noteq>) CHR ''/''" "drop (part_at buf scan) buf"]
  by (auto simp: skip_to_def [of _ _ "skip_to _ _ _"] less_diff_conv add.commute)

text \<open>The three kinds of component.\<close>

lemma normalise_step:
  assumes "scan < length buf" and "part_at buf scan < length buf"
  shows "part_bytes buf scan = ''.'' \<Longrightarrow>
           normalise_in_place buf scan w = normalise_in_place buf (part_end buf scan) w"
    and "part_bytes buf scan = ''..'' \<Longrightarrow>
           normalise_in_place buf scan w = normalise_in_place buf (part_end buf scan)
             (if write_back buf w > 1 then write_back buf w - 1 else write_back buf w)"
    and "proper_component (part_bytes buf scan) \<Longrightarrow> slash \<longleftrightarrow> (w = 0 \<or> buf ! (w - 1) \<noteq> CHR ''/'') \<Longrightarrow>
           normalise_in_place buf scan w =
             normalise_in_place
               (copy_forward (part_end buf scan - part_at buf scan) (if slash then w + 1 else w) (part_at buf scan)
                  (if slash then buf[w := CHR ''/''] else buf))
               (part_end buf scan) ((if slash then w + 1 else w) + (part_end buf scan - part_at buf scan))"
proof -
  let ?p = "part_at buf scan" and ?q = "part_end buf scan" and ?c = "part_bytes buf scan"
  have "?q \<le> length buf" using skip_to_le [of ?p buf] assms(2) by auto
  then have len: "length ?c = ?q - ?p" by simp
  have "?c \<noteq> []" using components_nonempty [of ?c "drop scan buf"] next_component [OF assms] by auto
  then have bytes: "buf ! ?p = ?c ! 0" "?q - ?p = 2 \<Longrightarrow> buf ! (?p + 1) = ?c ! 1" using len assms(2) by auto
  show "normalise_in_place buf scan w = normalise_in_place buf ?q w" if "?c = ''.''"
    using assms that len bytes by (subst normalise_in_place.simps) (simp add: Let_def)
  show "normalise_in_place buf scan w = normalise_in_place buf ?q
      (if write_back buf w > 1 then write_back buf w - 1 else write_back buf w)" if "?c = ''..''"
    using assms that len bytes by (subst normalise_in_place.simps) (simp add: Let_def)
  assume c: "proper_component ?c" and slash: "slash \<longleftrightarrow> (w = 0 \<or> buf ! (w - 1) \<noteq> CHR ''/'')"
  have n1: "\<not> (?q - ?p = 1 \<and> buf ! ?p = CHR ''.'')"
  proof
    assume "?q - ?p = 1 \<and> buf ! ?p = CHR ''.''"
    then have "?c = ''.''" using len bytes(1) by (intro nth_equalityI) simp_all
    with c show False by (simp add: proper_component_def)
  qed
  have n2: "\<not> (?q - ?p = 2 \<and> buf ! ?p = CHR ''.'' \<and> buf ! (?p + 1) = CHR ''.'')"
  proof
    assume "?q - ?p = 2 \<and> buf ! ?p = CHR ''.'' \<and> buf ! (?p + 1) = CHR ''.''"
    then have "?c = ''..''" using len bytes by (intro nth_equalityI) (auto simp: less_Suc_eq numeral_2_eq_2)
    with c show False by (simp add: proper_component_def)
  qed
  from assms n1 n2 show "normalise_in_place buf scan w =
      normalise_in_place (copy_forward (?q - ?p) (if slash then w + 1 else w) ?p
        (if slash then buf[w := CHR ''/''] else buf)) ?q ((if slash then w + 1 else w) + (?q - ?p))"
    unfolding slash by (subst normalise_in_place.simps) (simp only: Let_def if_True if_False simp_thms not_not)
qed

text \<open>The loop keeps \<open>write\<close> behind \<open>scan\<close>, so it never overwrites a byte it has still to read.\<close>

definition loop_state :: "string list \<Rightarrow> string \<Rightarrow> nat \<Rightarrow> nat \<Rightarrow> bool" where
  "loop_state st buf scan w \<longleftrightarrow>
     written st w buf \<and> proper_stack st \<and> w \<le> scan \<and> scan \<le> length buf \<and>
     (scan < length buf \<longrightarrow> buf ! scan = CHR ''/'')"

lemma loop_state_step:
  assumes inv: "loop_state st buf scan w" and scan: "scan < length buf" and part: "part_at buf scan < length buf"
  shows "\<exists>buf' w'. normalise_in_place buf scan w = normalise_in_place buf' (part_end buf scan) w' \<and>
           length buf' = length buf \<and> drop (part_end buf scan) buf' = drop (part_end buf scan) buf \<and>
           loop_state (path_step st (part_bytes buf scan)) buf' (part_end buf scan) w'"
proof -
  let ?p = "part_at buf scan" and ?q = "part_end buf scan" and ?c = "part_bytes buf scan"
  have gt: "scan < ?p" using skip_to_gt [of scan buf "(=) CHR ''/''"] inv scan by (auto simp: loop_state_def)
  have q: "?q \<le> length buf" "?p \<le> ?q" using skip_to_le [of ?p buf] part by auto
  have w: "written st w buf" "proper_stack st" "w \<le> scan" using inv by (auto simp: loop_state_def)
  have wq: "w \<le> ?q" using w(3) gt q(2) by linarith
  have c: "?c \<noteq> []" "CHR ''/'' \<notin> set ?c"
    using components_nonempty [of ?c "drop scan buf"] next_component [OF scan part] by auto
  then consider (dot) "?c = ''.''" | (up) "?c = ''..''" | (proper) "proper_component ?c"
    by (auto simp: proper_component_def)
  then show ?thesis
  proof cases
    case dot
    then have inv': "loop_state (path_step st ?c) buf ?q w"
      using w wq q(1) part_end_slash [of buf scan] by (auto simp: loop_state_def path_step_def)
    show ?thesis by (intro exI conjI, rule normalise_step(1) [OF scan part dot], rule refl, rule refl, rule inv')
  next
    case up
    let ?w = "if write_back buf w > 1 then write_back buf w - 1 else write_back buf w"
    have "write_back buf w \<le> ?q" using written_pop [OF w(1,2), THEN conjunct2] wq by linarith
    then have "?w \<le> ?q" by auto
    with up have inv': "loop_state (path_step st ?c) buf ?q ?w"
      using w q(1) written_pop [OF w(1,2), THEN conjunct1] part_end_slash [of buf scan]
      by (simp add: loop_state_def path_step_def)
    show ?thesis by (intro exI conjI, rule normalise_step(2) [OF scan part up], rule refl, rule refl, rule inv')
  next
    case proper
    define slash where "slash \<longleftrightarrow> (w = 0 \<or> buf ! (w - 1) \<noteq> CHR ''/'')"
    let ?w1 = "if slash then w + 1 else w"
    let ?buf2 = "copy_forward (?q - ?p) ?w1 ?p (if slash then buf[w := CHR ''/''] else buf)"
    have app: "written (st @ [?c]) (?w1 + (?q - ?p)) ?buf2" "drop ?q ?buf2 = drop ?q buf"
      using written_append [OF w(1,2), of ?p "?q - ?p" slash] gt w(3) q slash_def by (simp_all add: Let_def)
    have len: "length ?buf2 = length buf" by simp
    have "?w1 + (?q - ?p) \<le> ?q" using gt w(3) q(2) by auto
    moreover have "?buf2 ! ?q = CHR ''/''" if "?q < length ?buf2"
      using that part_end_slash [of buf scan] app(2) len by (metis hd_drop_conv_nth)
    ultimately have inv': "loop_state (path_step st ?c) ?buf2 ?q (?w1 + (?q - ?p))"
      using app(1) w(2) proper q(1) len by (simp add: loop_state_def path_step_def proper_component_def)
    show ?thesis
      by (intro exI conjI, rule normalise_step(3) [OF scan part proper slash_def], rule len, rule app(2), rule inv')
  qed
qed

lemma normalise_in_place_written:
  assumes "loop_state st buf scan w"
  shows "case normalise_in_place buf scan w of (buf', w') \<Rightarrow>
           length buf' = length buf \<and> written (normalize st (components (drop scan buf))) w' buf'"
  using assms
proof (induction "length buf - scan" arbitrary: buf scan w st rule: less_induct)
  case less
  show ?case
  proof (cases "scan < length buf \<and> part_at buf scan < length buf")
    case False
    then have "components (drop scan buf) = []"
      using no_component less.prems by (cases "scan < length buf") (auto simp: loop_state_def)
    with False less.prems show ?thesis by (subst normalise_in_place.simps) (auto simp: Let_def loop_state_def)
  next
    case True
    then have scan: "scan < length buf" and part: "part_at buf scan < length buf" by auto
    from loop_state_step [OF less.prems scan part] obtain buf' w' where
      step: "normalise_in_place buf scan w = normalise_in_place buf' (part_end buf scan) w'"
      and same: "length buf' = length buf" "drop (part_end buf scan) buf' = drop (part_end buf scan) buf"
      and inv: "loop_state (path_step st (part_bytes buf scan)) buf' (part_end buf scan) w'"
      by (elim exE conjE) (rule that; assumption)
    have "scan < part_end buf scan" by (rule skip_to_component_gt [OF scan part])
    then have "length buf' - part_end buf scan < length buf - scan" using same scan by linarith
    from less.hyps [OF this inv] show ?thesis
      using step same next_component [OF scan part] by simp
  qed
qed

lemma normalise_candidate_eq:
  assumes "candidate \<noteq> []" and "hd candidate = CHR ''/''"
  shows "normalise_candidate candidate = render_abs (normalize [] (components candidate))"
proof -
  have "loop_state [] candidate 0 0"
    using assms by (auto simp: loop_state_def written_def hd_conv_nth)
  from normalise_in_place_written [OF this] show ?thesis
    by (auto simp: normalise_candidate_def written_def render_abs_def split: prod.splits if_splits)
qed

section \<open>Operations that only spend memory\<close>

text \<open>
  \<open>spends k r m s\<close>: \<open>m\<close> changes nothing but the budget and answers \<open>r\<close>, or out of
  memory; with a budget of \<open>k\<close> it answers \<open>r\<close> and takes at most \<open>k\<close> units.
\<close>

definition spends :: "nat \<Rightarrow> 'a facet \<Rightarrow> 'a view \<Rightarrow> FileViewState \<Rightarrow> bool" where
  "spends k r m s \<longleftrightarrow>
     (\<exists>b. snd (m s) = s\<lparr>fv_budget := b\<rparr> \<and> (fst (m s) = r \<or> fst (m s) = Inl FACET_OUT_OF_MEMORY) \<and>
          (k \<le> fv_budget s \<longrightarrow> fst (m s) = r \<and> fv_budget s \<le> b + k))"

lemma spends_return: "spends 0 (Inr x) (returnS x) s"
  by (auto simp: spends_def returnS_def intro: exI [of _ "fv_budget s"])

lemma spends_fail: "spends 0 (Inl e) (failS e) s"
  by (auto simp: spends_def failS_def intro: exI [of _ "fv_budget s"])

lemma spends_memory: "spends 1 (Inr ()) need_memory s"
  by (auto simp: spends_def need_memory_def intro: exI [of _ "fv_budget s"] exI [of _ "fv_budget s - 1"])

lemma spends_weaken: "spends k r m s \<Longrightarrow> k \<le> l \<Longrightarrow> spends l r m s"
  unfolding spends_def by (elim ex_forward) auto

lemma spends_bind:
  assumes m: "spends k r m s" and f: "\<And>x b. r = Inr x \<Longrightarrow> spends l (g x) (f x) (s\<lparr>fv_budget := b\<rparr>)"
  shows "spends (k + l) (bindE r g) (bindS m f) s"
proof -
  from m obtain b where b: "snd (m s) = s\<lparr>fv_budget := b\<rparr>" "fst (m s) = r \<or> fst (m s) = Inl FACET_OUT_OF_MEMORY"
    "k \<le> fv_budget s \<Longrightarrow> fst (m s) = r \<and> fv_budget s \<le> b + k" by (auto simp: spends_def)
  obtain r' s' where ms: "m s = (r', s')" by fastforce
  show ?thesis
  proof (cases r')
    case (Inl e)
    then show ?thesis using b ms by (auto simp: spends_def bindS_def intro!: exI [of _ b])
  next
    case (Inr x)
    then have r: "r = Inr x" using b ms by auto
    then have eq: "bindS m f s = f x (s\<lparr>fv_budget := b\<rparr>)" using b(1) ms Inr by (simp add: bindS_def)
    from f [OF r, of b] obtain b' where b': "snd (f x (s\<lparr>fv_budget := b\<rparr>)) = s\<lparr>fv_budget := b'\<rparr>"
      "fst (f x (s\<lparr>fv_budget := b\<rparr>)) = g x \<or> fst (f x (s\<lparr>fv_budget := b\<rparr>)) = Inl FACET_OUT_OF_MEMORY"
      "l \<le> b \<Longrightarrow> fst (f x (s\<lparr>fv_budget := b\<rparr>)) = g x \<and> b \<le> b' + l" by (auto simp: spends_def)
    show ?thesis
      unfolding spends_def eq r using b' b(3) by (intro exI [of _ b']) auto
  qed
qed

lemma spends_times: "spends n (Inr ()) (need_memory_times n) s"
proof (induction n arbitrary: s)
  case 0
  then show ?case by (simp add: spends_return)
next
  case (Suc n)
  then show ?case using spends_bind [OF spends_memory, where f = "\<lambda>_. need_memory_times n" and g = Inr and l = n and s = s] by simp
qed

lemma spends_with_memory:
  assumes "f False (fv_initrds s) = f True (fv_initrds s) \<or> f False (fv_initrds s) = Inl FACET_OUT_OF_MEMORY"
  shows "spends 1 (f True (fv_initrds s)) (with_memory f) s"
proof (cases "f True (fv_initrds s) = f False (fv_initrds s)")
  case True
  then show ?thesis by (auto simp: spends_def with_memory_def intro!: exI [of _ "fv_budget s"])
next
  case False
  with assms show ?thesis
    by (cases "fv_budget s = 0") (auto simp: spends_def with_memory_def intro!: exI [of _ "fv_budget s - 1"])
qed

lemma with_memory_enough:
  assumes "fv_budget s \<noteq> 0"
  obtains b where "with_memory f s = (f True (fv_initrds s), s\<lparr>fv_budget := b\<rparr>)" and "fv_budget s \<le> b + 1"
proof (cases "f True (fv_initrds s) = f False (fv_initrds s)")
  case True
  then show ?thesis by (intro that [of "fv_budget s"]) (auto simp: with_memory_def)
next
  case False
  then show ?thesis using assms by (intro that [of "fv_budget s - 1"]) (auto simp: with_memory_def)
qed

section \<open>Searching the way to a node\<close>

lemma mode_allows_entry:
  "mode_allows (ie_mode e) (ie_uid e) (ie_gid e) uid gid admin requested = entry_allows e uid gid admin requested"
  by (simp add: mode_allows_def entry_allows_def)

abbreviation allows :: "CredentialFileStore \<Rightarrow> InitrdEntry \<Rightarrow> u32 \<Rightarrow> bool" where
  "allows store e requested \<equiv> entry_allows e (cs_uid store) (cs_gid store) (cs_admin store) requested"

lemma check_access_eq:
  "check_access inis store i requested =
     (if allows store (in_entries (inis ! cs_initrd store) ! i) requested then Inr () else Inl FACET_ACCESS_DENIED)"
  by (simp add: check_access_def facet_initrd_node_metadata_def mode_allows_entry Let_def)

text \<open>What the search of one directory should answer.\<close>

definition search_one :: "FacetInitrd \<Rightarrow> CredentialFileStore \<Rightarrow> string \<Rightarrow> unit facet" where
  "search_one ini store path =
     (case find_entry ini path True of
        None \<Rightarrow> Inl FACET_NOT_FOUND
      | Some i \<Rightarrow> if allows store (in_entries ini ! i) 1 then Inr () else Inl FACET_ACCESS_DENIED)"

lemma search_one_memory: "Inl FACET_OUT_OF_MEMORY \<noteq> search_one ini store path"
  by (auto simp: search_one_def split: option.split)

lemma path_fits_render:
  assumes "proper_stack (pre @ st)" and "length (render_abs (pre @ st)) \<le> FACET_PATH_MAX"
  shows "path_fits pre st"
  using assms
proof (induction st arbitrary: pre)
  case (Cons c st)
  have "length (render_abs (pre @ [c])) \<le> length (render_abs (pre @ c # st))"
    by (simp add: render_abs_def)
  with Cons show ?case by (auto simp: path_step_def proper_component_def)
qed simp

lemma path_requires_directory_render:
  "proper_stack st \<Longrightarrow> path_requires_directory (render_abs st) \<longleftrightarrow> st = []"
proof (cases st rule: rev_cases)
  case (snoc ss c)
  assume "proper_stack st"
  with snoc have c: "c \<noteq> []" "CHR ''/'' \<notin> set c" "c \<noteq> ''.''" "c \<noteq> ''..''" by (auto simp: proper_component_def)
  have "rev (render_abs st) = rev c @ CHR ''/'' # rev (if ss = [] then [] else render_abs ss)"
    using snoc by (simp add: render_abs_snoc)
  then have "takeWhile ((\<noteq>) CHR ''/'') (rev (render_abs st)) = rev c"
    using c(2) by (simp add: takeWhile_neq_append)
  moreover have "last (render_abs st) \<noteq> CHR ''/''"
    using last_render_abs \<open>proper_stack st\<close> snoc by simp
  ultimately show ?thesis using snoc c by (simp add: path_requires_directory_def)
qed (simp add: path_requires_directory_def)

definition plain_path :: "string list \<Rightarrow> bool" where
  "plain_path st \<longleftrightarrow> proper_stack st \<and> length (render_abs st) \<le> FACET_PATH_MAX \<and> NUL \<notin> set (render_abs st)"

lemma open_node_render:
  assumes "plain_path st"
  shows "facet_initrd_open_node True ini ''/'' (render_abs st) d =
    (case (if st = [] \<and> \<not> d then None else find_entry ini (render_abs st) d) of
       None \<Rightarrow> Inl FACET_NOT_FOUND | Some i \<Rightarrow> Inr i)"
  using assms path_fits_render [of "[]" st]
    resolve_path_unfold [of "[]" "render_abs st"] components_render_abs [of st] normalize_proper_id [of st "[]"]
    path_requires_directory_render [of st]
  by (simp add: facet_initrd_open_node_def plain_path_def resolve_base_def)

lemma open_node_memory:
  "facet_initrd_open_node False ini base path d = facet_initrd_open_node True ini base path d \<or>
   facet_initrd_open_node False ini base path d = Inl FACET_OUT_OF_MEMORY"
  by (auto simp: facet_initrd_open_node_def resolve_path_def)

lemma spends_search_directory:
  assumes "plain_path st"
  shows "spends 1 (search_one (fv_initrds s ! cs_initrd store) store (render_abs st))
           (search_directory store (render_abs st)) s"
proof -
  let ?f = "\<lambda>mem inis. bindE (facet_initrd_open_node mem (inis ! cs_initrd store) ''/'' (render_abs st) True)
              (\<lambda>directory. check_access inis store directory 1)"
  have "?f True (fv_initrds s) = search_one (fv_initrds s ! cs_initrd store) store (render_abs st)"
    using open_node_render [OF assms] by (auto simp: search_one_def check_access_eq split: option.splits)
  moreover have "?f False (fv_initrds s) = ?f True (fv_initrds s) \<or> ?f False (fv_initrds s) = Inl FACET_OUT_OF_MEMORY"
    using open_node_memory [of "fv_initrds s ! cs_initrd store" "''/''" "render_abs st" True] by auto
  ultimately show ?thesis
    using spends_with_memory [of ?f s] by (simp add: search_directory_def)
qed

lemma plain_path_prefix:
  assumes "plain_path (pre @ post)"
  shows "plain_path pre"
proof -
  have "set (render_abs pre) \<subseteq> set (render_abs (pre @ post))" "length (render_abs pre) \<le> length (render_abs (pre @ post))"
    using assms by (auto simp: render_abs_def plain_path_def proper_component_def Suc_le_eq neq_Nil_conv)
  with assms show ?thesis by (auto simp: plain_path_def)
qed

text \<open>The directories on the way to \<open>pre @ post\<close> below \<open>pre\<close>, with or without the target.\<close>

definition way :: "string list \<Rightarrow> string list \<Rightarrow> bool \<Rightarrow> string list" where
  "way pre post include_target =
     map (\<lambda>k. render_abs (pre @ take k post)) [1..<(if include_target then length post + 1 else length post)]"

lemma way_Cons:
  "way pre (c # post) include_target =
     (if post = [] \<and> \<not> include_target then []
      else render_abs (pre @ [c]) # way (pre @ [c]) post include_target)"
proof -
  have "[1..<Suc n] = (if n = 0 then [] else 1 # map Suc [1..<n])" for n
    by (cases n) (simp_all add: upt_conv_Cons map_Suc_upt del: upt_Suc)
  then show ?thesis by (cases post) (auto simp: way_def o_def simp del: upt_Suc)
qed

lemma way_Nil [simp]: "way pre [] include_target = []"
  by (simp add: way_def)

lemma spends_check_search_loop:
  assumes "plain_path (pre @ post)" and "i = (if pre = [] then 1 else length (render_abs pre))"
  shows "spends (length post)
           (checkE (search_one (fv_initrds s ! cs_initrd store) store) (way pre post include_target))
           (check_search_loop store (render_abs (pre @ post)) include_target i) s"
  using assms
proof (induction post arbitrary: pre i s)
  case Nil
  then have "\<not> i < length (render_abs pre)" by simp
  then show ?case by (subst check_search_loop.simps) (simp add: spends_return)
next
  case (Cons c post)
  let ?path = "render_abs (pre @ c # post)" and ?e = "length (render_abs (pre @ [c]))"
  let ?one = "search_one (fv_initrds s ! cs_initrd store) store"
  have proper: "proper_stack (pre @ c # post)" using Cons.prems(1) by (simp add: plain_path_def)
  have e: "component_end ?path i = ?e" using component_end_render [OF proper Cons.prems(2)] .
  have i: "i < length ?path"
    using Cons.prems(2) proper by (auto simp: render_abs_def proper_component_def)
  have full: "?e = length ?path \<longleftrightarrow> post = []"
    using length_render_prefix_less [of post pre c] by (cases "post = []") auto
  show ?case
  proof (cases "post = [] \<and> \<not> include_target")
    case True
    then show ?thesis
      using i e full by (subst check_search_loop.simps) (simp add: way_Cons spends_weaken [OF spends_return])
  next
    case False
    have plain: "plain_path (pre @ [c])" using plain_path_prefix [of "pre @ [c]" post] Cons.prems(1) by simp
    have "check_search_loop store ?path include_target i =
        bindS (search_directory store (render_abs (pre @ [c])))
          (\<lambda>_. check_search_loop store ?path include_target ?e)"
      using i e full False by (subst check_search_loop.simps) (auto simp: Let_def take_render_prefix)
    moreover have "spends (length post) (checkE ?one (way (pre @ [c]) post include_target))
        (check_search_loop store ?path include_target ?e) (s\<lparr>fv_budget := b\<rparr>)" for b
      using Cons.IH [of "pre @ [c]" ?e "s\<lparr>fv_budget := b\<rparr>"] Cons.prems(1) by simp
    ultimately show ?thesis
      using spends_bind [OF spends_search_directory [OF plain], where l = "length post" and s = s
          and g = "\<lambda>_. checkE ?one (way (pre @ [c]) post include_target)"
          and f = "\<lambda>_. check_search_loop store ?path include_target ?e"] False
      by (auto simp: way_Cons)
  qed
qed

definition search_way :: "FacetInitrd \<Rightarrow> CredentialFileStore \<Rightarrow> string list \<Rightarrow> bool \<Rightarrow> unit facet" where
  "search_way ini store st include_target =
     checkE (search_one ini store) (''/'' # way [] st include_target)"

lemma plain_path_Nil [simp]: "plain_path []"
  by (simp add: plain_path_def)

lemma spends_check_search:
  assumes "plain_path st"
  shows "spends (length st + 2) (search_way (fv_initrds s ! cs_initrd store) store st include_target)
           (check_search store (render_abs st) include_target) s"
proof -
  let ?one = "search_one (fv_initrds s ! cs_initrd store) store"
  let ?loop = "check_search_loop store (render_abs st) include_target 1"
  have root: "spends 1 (?one ''/'') (search_directory store ''/'') s"
    using spends_search_directory [OF plain_path_Nil, of s store] by simp
  then obtain b where b: "search_directory store ''/'' s = (fst (search_directory store ''/'' s), s\<lparr>fv_budget := b\<rparr>)"
    "fst (search_directory store ''/'' s) = ?one ''/'' \<or> fst (search_directory store ''/'' s) = Inl FACET_OUT_OF_MEMORY"
    "1 \<le> fv_budget s \<Longrightarrow> fst (search_directory store ''/'' s) = ?one ''/'' \<and> fv_budget s \<le> b + 1"
    by (auto simp: spends_def prod_eq_iff)
  let ?r = "fst (search_directory store ''/'' s)"
  have eq: "check_search store (render_abs st) include_target s =
      bindS need_memory (\<lambda>_. bindS (\<lambda>s. (?r, s)) (\<lambda>_. ?loop)) (s\<lparr>fv_budget := b\<rparr>)"
    using b(1) by (auto simp: check_search_def bindS_def split: prod.splits sum.splits)
  have "spends (length st) (checkE ?one (way [] st include_target)) ?loop (s\<lparr>fv_budget := b'\<rparr>)" for b'
    using spends_check_search_loop [of "[]" st 1 "s\<lparr>fv_budget := b'\<rparr>"] assms by simp
  then have "spends (0 + length st) (bindE ?r (\<lambda>_. checkE ?one (way [] st include_target)))
      (bindS (\<lambda>s. (?r, s)) (\<lambda>_. ?loop)) (s\<lparr>fv_budget := b'\<rparr>)" for b'
    by (intro spends_bind) (auto simp: spends_def intro: exI [of _ b'])
  then have "spends (1 + length st) (bindE ?r (\<lambda>_. checkE ?one (way [] st include_target)))
      (bindS need_memory (\<lambda>_. bindS (\<lambda>s. (?r, s)) (\<lambda>_. ?loop))) (s\<lparr>fv_budget := b\<rparr>)"
    using spends_bind [OF spends_memory, where l = "length st" and s = "s\<lparr>fv_budget := b\<rparr>"
        and f = "\<lambda>_. bindS (\<lambda>s. (?r, s)) (\<lambda>_. ?loop)"
        and g = "\<lambda>_. bindE ?r (\<lambda>_. checkE ?one (way [] st include_target))"] by simp
  then obtain b' where "snd (check_search store (render_abs st) include_target s) = s\<lparr>fv_budget := b'\<rparr>"
    "fst (check_search store (render_abs st) include_target s) = bindE ?r (\<lambda>_. checkE ?one (way [] st include_target)) \<or>
     fst (check_search store (render_abs st) include_target s) = Inl FACET_OUT_OF_MEMORY"
    "1 + length st \<le> b \<Longrightarrow> fst (check_search store (render_abs st) include_target s) =
       bindE ?r (\<lambda>_. checkE ?one (way [] st include_target)) \<and> b \<le> b' + (1 + length st)"
    by (auto simp: spends_def eq)
  then show ?thesis
    using b(2,3) unfolding spends_def search_way_def by (intro exI [of _ b']) (auto simp: search_one_memory)
qed

lemma search_one_ok_iff:
  assumes "initrd_wf ini"
  shows "search_one ini store p = Inr () \<longleftrightarrow> dir_searchable ini p (cs_uid store) (cs_gid store) (cs_admin store)"
  using find_dir_allows [OF assms, where p = p and d = True and uid = "cs_uid store" and gid = "cs_gid store" and
      admin = "cs_admin store" and r = 1]
  by (cases "find_entry ini p True") (simp_all add: search_one_def dir_searchable_def)

lemma search_way_ok_iff:
  assumes "initrd_wf ini"
  shows "search_way ini store st include_target = Inr () \<longleftrightarrow>
    (\<forall>k. k = 0 \<or> k < length st \<or> (k = length st \<and> include_target) \<longrightarrow>
       dir_searchable ini (render_abs (take k st)) (cs_uid store) (cs_gid store) (cs_admin store))"
    (is "_ \<longleftrightarrow> (\<forall>k. ?upto k \<longrightarrow> ?ok k)")
proof -
  have "search_way ini store st include_target = Inr () \<longleftrightarrow>
      ?ok 0 \<and> (\<forall>k. 1 \<le> k \<and> k < (if include_target then length st + 1 else length st) \<longrightarrow> ?ok k)"
    by (auto simp: search_way_def error_monad search_one_ok_iff [OF assms] way_def)
  also have "\<dots> \<longleftrightarrow> (\<forall>k. ?upto k \<longrightarrow> ?ok k)"
  proof (intro iffI allI impI)
    fix k assume all: "?ok 0 \<and> (\<forall>k. 1 \<le> k \<and> k < (if include_target then length st + 1 else length st) \<longrightarrow> ?ok k)"
      and upto: "?upto k"
    show "?ok k"
    proof (cases "k = 0")
      case True
      with all show ?thesis by simp
    next
      case False
      with upto have "1 \<le> k \<and> k < (if include_target then length st + 1 else length st)" by auto
      with all show ?thesis by blast
    qed
  qed (auto simp: less_Suc_eq split: if_splits)
  finally show ?thesis .
qed

section \<open>The invariant\<close>

definition node_ok :: "FileViewState \<Rightarrow> CredentialNode \<Rightarrow> bool" where
  "node_ok s n \<longleftrightarrow>
     (let ini = fv_initrds s ! cs_initrd (fv_stores s ! cn_store n) in
      if cn_synthetic n = SYNTHETIC_NONE
      then (\<exists>i. cn_backing n = Some i \<and> i < length (in_entries ini) \<and>
                ie_directory (in_entries ini ! i) = cn_directory n \<and> canonical_path_str (ie_path (in_entries ini ! i)))
      else cn_backing n = None \<and> (cn_directory n \<longleftrightarrow> cn_synthetic n = SYNTHETIC_ETC_DIRECTORY))"

definition node_key :: "FileViewState \<Rightarrow> CredentialNode \<Rightarrow> string option \<times> bool" where
  "node_key s n = (node_path s n, cn_directory n)"

definition store_ok :: "FileViewState \<Rightarrow> nat \<Rightarrow> bool" where
  "store_ok s a \<longleftrightarrow>
     (let st = fv_stores s ! a in
      a < length (fv_stores s) \<and> cs_initrd st < length (fv_initrds s) \<and> 1 \<le> cs_references st \<and>
      file_object s (cs_handle st) = Some (FStore a) \<and>
      (\<forall>n \<in> set (cs_nodes st). cn_store n = a \<and> node_ok s n \<and> file_object s (cn_handle n) = Some (FNode n)) \<and>
      distinct (map (node_key s) (cs_nodes st)))"

definition credentials :: "CredentialFileStore \<Rightarrow> nat \<times> u32 \<times> u32 \<times> bool" where
  "credentials st = (cs_initrd st, cs_uid st, cs_gid st, cs_admin st)"

definition object_live :: "FileViewState \<Rightarrow> nat \<Rightarrow> FileObject \<Rightarrow> bool" where
  "object_live s h obj =
     (case obj of
        FStore a \<Rightarrow> a \<in> set (fv_live s) \<and> cs_handle (fv_stores s ! a) = Some h
      | FNode n \<Rightarrow> cn_store n \<in> set (fv_live s) \<and> n \<in> set (cs_nodes (fv_stores s ! cn_store n)) \<and> cn_handle n = Some h)"

definition view_inv :: "FileViewState \<Rightarrow> bool" where
  "view_inv s \<longleftrightarrow>
     (\<forall>ini \<in> set (fv_initrds s). initrd_wf ini) \<and>
     distinct (fv_live s) \<and> (\<forall>a \<in> set (fv_live s). store_ok s a) \<and>
     inj_on (\<lambda>a. credentials (fv_stores s ! a)) (set (fv_live s)) \<and>
     (\<forall>h < length (fv_objects s). \<forall>obj. fv_objects s ! h = Some obj \<longrightarrow> object_live s h obj)"

lemma view_inv_cong:
  assumes "fv_initrds s' = fv_initrds s" and "fv_stores s' = fv_stores s" and "fv_live s' = fv_live s"
    and "fv_objects s' = fv_objects s"
  shows "view_inv s' = view_inv s"
  unfolding view_inv_def store_ok_def node_ok_def node_key_def [abs_def] node_path_def object_live_def file_object_def
    assms ..

lemma view_inv_budget [simp]: "view_inv (s\<lparr>fv_budget := b\<rparr>) = view_inv s"
  by (rule view_inv_cong) simp_all

lemma spends_inv: "spends k r m s \<Longrightarrow> view_inv s \<Longrightarrow> view_inv (snd (m s))"
  by (auto simp: spends_def)

lemma node_path_budget [simp]: "node_path (s\<lparr>fv_budget := b\<rparr>) = node_path s"
  by (simp add: node_path_def fun_eq_iff)

lemma file_object_nth: "file_object s h = Some obj \<longleftrightarrow> (\<exists>n. h = Some n \<and> n < length (fv_objects s) \<and> fv_objects s ! n = Some obj)"
  by (auto simp: file_object_def split: option.splits if_splits)

lemma node_path_canonical:
  assumes "node_ok s n"
  obtains st where "node_path s n = Some (render_abs st)" and "proper_stack st"
proof (cases "cn_synthetic n = SYNTHETIC_NONE")
  case True
  then show ?thesis
    using assms that by (auto simp: node_ok_def node_path_def Let_def canonical_path_str_def facet_initrd_node_path_def)
next
  case False
  have "Some ''/posix/etc'' = Some (render_abs [''posix'', ''etc''])"
    "Some ''/posix/etc/passwd'' = Some (render_abs [''posix'', ''etc'', ''passwd''])"
    "Some ''/posix/etc/shadow'' = Some (render_abs [''posix'', ''etc'', ''shadow''])"
    "Some ''/posix/etc/fstab'' = Some (render_abs [''posix'', ''etc'', ''fstab''])"
    by (simp_all add: render_abs_def)
  moreover have "node_path s n = synthetic_path (cn_synthetic n)" using False by (simp add: node_path_def)
  ultimately show ?thesis
    using False that by (cases "cn_synthetic n") (auto simp: proper_component_def)
qed

section \<open>Wrapping nodes\<close>

text \<open>
  What an open may change: it adds objects and nodes, the credentials and the
  archives stay.
\<close>

definition view_keeps :: "FileViewState \<Rightarrow> FileViewState \<Rightarrow> bool" where
  "view_keeps s s' \<longleftrightarrow>
     fv_initrds s' = fv_initrds s \<and> fv_live s' = fv_live s \<and> length (fv_stores s') = length (fv_stores s) \<and>
     (\<forall>a. \<exists>new. fv_stores s' ! a = (fv_stores s ! a)\<lparr>cs_nodes := new @ cs_nodes (fv_stores s ! a)\<rparr>) \<and>
     (\<exists>new. fv_objects s' = fv_objects s @ new)"

lemma view_keeps_refl [simp]: "view_keeps s s"
  unfolding view_keeps_def by (auto intro: exI [of _ "[]"])

lemma view_keeps_budget [simp]: "view_keeps s (s\<lparr>fv_budget := b\<rparr>)"
  unfolding view_keeps_def by (auto intro: exI [of _ "[]"])

lemma view_keeps_trans:
  assumes "view_keeps s s'" and "view_keeps s' s''"
  shows "view_keeps s s''"
proof -
  have "\<exists>new. fv_stores s'' ! a = (fv_stores s ! a)\<lparr>cs_nodes := new @ cs_nodes (fv_stores s ! a)\<rparr>" for a
  proof -
    obtain n1 where n1: "fv_stores s' ! a = (fv_stores s ! a)\<lparr>cs_nodes := n1 @ cs_nodes (fv_stores s ! a)\<rparr>"
      using assms(1) by (auto simp: view_keeps_def)
    obtain n2 where "fv_stores s'' ! a = (fv_stores s' ! a)\<lparr>cs_nodes := n2 @ cs_nodes (fv_stores s' ! a)\<rparr>"
      using assms(2) unfolding view_keeps_def by blast
    with n1 show ?thesis by (intro exI [of _ "n2 @ n1"]) simp
  qed
  then show ?thesis using assms by (auto simp: view_keeps_def)
qed

lemma view_keeps_store:
  assumes "view_keeps s s'"
  shows "credentials (fv_stores s' ! a) = credentials (fv_stores s ! a)"
    and "cs_initrd (fv_stores s' ! a) = cs_initrd (fv_stores s ! a)"
    and "cs_handle (fv_stores s' ! a) = cs_handle (fv_stores s ! a)"
    and "cs_references (fv_stores s' ! a) = cs_references (fv_stores s ! a)"
    and "set (cs_nodes (fv_stores s ! a)) \<subseteq> set (cs_nodes (fv_stores s' ! a))"
proof -
  obtain new where "fv_stores s' ! a = (fv_stores s ! a)\<lparr>cs_nodes := new @ cs_nodes (fv_stores s ! a)\<rparr>"
    using assms by (auto simp: view_keeps_def)
  then show "credentials (fv_stores s' ! a) = credentials (fv_stores s ! a)"
    and "cs_initrd (fv_stores s' ! a) = cs_initrd (fv_stores s ! a)"
    and "cs_handle (fv_stores s' ! a) = cs_handle (fv_stores s ! a)"
    and "cs_references (fv_stores s' ! a) = cs_references (fv_stores s ! a)"
    and "set (cs_nodes (fv_stores s ! a)) \<subseteq> set (cs_nodes (fv_stores s' ! a))"
    by (auto simp: credentials_def)
qed

lemma view_keeps_path:
  assumes "view_keeps s s'"
  shows "node_path s' = node_path s" and "node_ok s' = node_ok s" and "node_key s' = node_key s"
  using assms view_keeps_store(2) [OF assms]
  by (auto simp: fun_eq_iff node_path_def node_ok_def node_key_def view_keeps_def Let_def)

lemma view_keeps_object:
  "view_keeps s s' \<Longrightarrow> file_object s h = Some obj \<Longrightarrow> file_object s' h = Some obj"
  unfolding view_keeps_def file_object_nth by (auto simp: nth_append)

text \<open>Adding a node under a fresh key.\<close>

definition add_node :: "nat \<Rightarrow> CredentialNode \<Rightarrow> FileViewState \<Rightarrow> FileViewState" where
  "add_node a n s =
     update_store a (\<lambda>st. st\<lparr>cs_nodes := n # cs_nodes st\<rparr>) (s\<lparr>fv_objects := fv_objects s @ [Some (FNode n)]\<rparr>)"

lemma add_node_simps [simp]:
  "fv_initrds (add_node a n s) = fv_initrds s" "fv_live (add_node a n s) = fv_live s"
  "fv_objects (add_node a n s) = fv_objects s @ [Some (FNode n)]"
  "length (fv_stores (add_node a n s)) = length (fv_stores s)"
  "fv_budget (add_node a n s) = fv_budget s"
  by (simp_all add: add_node_def update_store_def)

lemma add_node_store:
  "a < length (fv_stores s) \<Longrightarrow> fv_stores (add_node a n s) ! a' =
     (if a' = a then (fv_stores s ! a)\<lparr>cs_nodes := n # cs_nodes (fv_stores s ! a)\<rparr> else fv_stores s ! a')"
  by (simp add: add_node_def update_store_def nth_list_update)

lemma view_keeps_add_node: "a < length (fv_stores s) \<Longrightarrow> view_keeps s (add_node a n s)"
  unfolding view_keeps_def by (auto simp: add_node_store intro: exI [of _ "[]"] exI [of _ "[n]"])

lemma view_inv_add_node:
  assumes inv: "view_inv s" and a: "cn_store n \<in> set (fv_live s)" and n: "node_ok s n"
    and h: "cn_handle n = Some (length (fv_objects s))" and fresh: "node_key s n \<notin> node_key s ` set (cs_nodes (fv_stores s ! cn_store n))"
  shows "view_inv (add_node (cn_store n) n s)"
proof -
  let ?s = "add_node (cn_store n) n s"
  have len: "cn_store n < length (fv_stores s)" using inv a by (auto simp: view_inv_def store_ok_def Let_def)
  note keeps = view_keeps_add_node [OF len, of n]
  note same = view_keeps_path [OF keeps] view_keeps_object [OF keeps]
  have new: "file_object ?s (cn_handle n) = Some (FNode n)" using h by (simp add: file_object_def)
  have "store_ok ?s b" if "b \<in> set (fv_live s)" for b
    using inv that n fresh new unfolding view_inv_def store_ok_def Let_def
    by (auto simp: add_node_store [OF len] same intro!: same(4))
  moreover have "object_live ?s k obj" if "k < length (fv_objects ?s)" "fv_objects ?s ! k = Some obj" for k obj
  proof (cases "k < length (fv_objects s)")
    case True
    then have "object_live s k obj" using inv that by (auto simp: view_inv_def nth_append)
    then show ?thesis by (auto simp: object_live_def add_node_store [OF len] split: FileObject.splits)
  next
    case False
    with that h n a show ?thesis by (auto simp: object_live_def add_node_store [OF len] nth_append less_Suc_eq)
  qed
  moreover have "inj_on (\<lambda>b. credentials (fv_stores ?s ! b)) (set (fv_live s))"
    using inv view_keeps_store(1) [OF keeps] by (simp add: view_inv_def)
  ultimately show ?thesis using inv unfolding view_inv_def by simp
qed

text \<open>
  \<open>grants s m k P\<close>: \<open>m\<close> keeps the invariant and every object; it hands out a handle
  that satisfies \<open>P\<close>, or fails for want of memory, which \<open>k\<close> units rule out.
\<close>

definition grants :: "FileViewState \<Rightarrow> FacetHandle view \<Rightarrow> nat \<Rightarrow> (FileViewState \<Rightarrow> FacetHandle \<Rightarrow> bool) \<Rightarrow> bool" where
  "grants s m k P \<longleftrightarrow>
     view_inv (snd (m s)) \<and> view_keeps s (snd (m s)) \<and>
     (case fst (m s) of Inl e \<Rightarrow> e = FACET_OUT_OF_MEMORY \<and> fv_budget s < k | Inr h \<Rightarrow> P (snd (m s)) h)"

text \<open>A handle for the node of a store with a given path and kind.\<close>

definition handle_for :: "nat \<Rightarrow> string option \<Rightarrow> bool \<Rightarrow> FileViewState \<Rightarrow> FacetHandle \<Rightarrow> bool" where
  "handle_for a path directory s h \<longleftrightarrow>
     (\<exists>n. file_object s h = Some (FNode n) \<and> cn_store n = a \<and> node_path s n = path \<and> cn_directory n = directory)"

lemma file_object_budget [simp]: "file_object (s\<lparr>fv_budget := b\<rparr>) h = file_object s h"
  by (simp add: file_object_def split: option.split)

lemma handle_for_budget [simp]: "handle_for a path directory (s\<lparr>fv_budget := b\<rparr>) h = handle_for a path directory s h"
  by (simp add: handle_for_def)

lemma clone_grants:
  assumes "view_inv s" and "P s h" and "h \<noteq> None" and "\<And>b. P (s\<lparr>fv_budget := b\<rparr>) h = P s h"
  shows "grants s (clone_file_handle h) 1 P"
  using assms by (auto simp: grants_def clone_file_handle_def bindS_def need_memory_def returnS_def)

lemma grants_spends:
  assumes "spends k (Inr x) m s" and "\<And>b. grants (s\<lparr>fv_budget := b\<rparr>) (f x) l P" and "view_inv s"
  shows "grants s (bindS m f) (k + l) P"
proof -
  from assms(1) obtain b where b: "snd (m s) = s\<lparr>fv_budget := b\<rparr>"
    "fst (m s) = Inr x \<or> fst (m s) = Inl FACET_OUT_OF_MEMORY"
    "k \<le> fv_budget s \<Longrightarrow> fst (m s) = Inr x \<and> fv_budget s \<le> b + k" by (auto simp: spends_def)
  obtain r s' where ms: "m s = (r, s')" by fastforce
  show ?thesis
  proof (cases r)
    case (Inl e)
    with b ms assms(3) show ?thesis by (force simp: grants_def bindS_def)
  next
    case (Inr y)
    then have eq: "bindS m f s = f x (s\<lparr>fv_budget := b\<rparr>)" using b ms by (auto simp: bindS_def)
    have "b < l \<Longrightarrow> fv_budget s < k + l" using b(3) by (cases "k \<le> fv_budget s") auto
    with assms(2) [of b] show ?thesis
      by (auto simp: grants_def eq split: sum.splits intro: view_keeps_trans [OF view_keeps_budget])
  qed
qed

lemma grants_cong: "m s = m' s \<Longrightarrow> grants s m' k P \<Longrightarrow> k \<le> l \<Longrightarrow> grants s m l P"
  by (auto simp: grants_def split: sum.splits)

lemma push_node_eq:
  "bindS (export_file_object (\<lambda>h. FNode (node\<lparr>cn_handle := h\<rparr>))) (push_node a node) s =
     (if fv_budget s = 0 then (Inl FACET_OUT_OF_MEMORY, s)
      else let h = Some (length (fv_objects s))
           in clone_file_handle h (add_node a (node\<lparr>cn_handle := h\<rparr>) (s\<lparr>fv_budget := fv_budget s - 1\<rparr>)))"
  by (simp add: export_file_object_def push_node_def add_node_def bindS_def need_memory_def Let_def)

lemma node_ok_handle [simp]: "node_ok s (n\<lparr>cn_handle := h\<rparr>) = node_ok s n" "node_path s (n\<lparr>cn_handle := h\<rparr>) = node_path s n"
  "node_key s (n\<lparr>cn_handle := h\<rparr>) = node_key s n"
  by (simp_all add: node_ok_def node_path_def node_key_def)

lemma node_ok_budget [simp]: "node_ok (s\<lparr>fv_budget := b\<rparr>) n = node_ok s n" "node_key (s\<lparr>fv_budget := b\<rparr>) n = node_key s n"
  by (simp_all add: node_ok_def node_key_def)

lemma grants_push_node:
  assumes inv: "view_inv s" and live: "cn_store node \<in> set (fv_live s)" and ok: "node_ok s node"
    and fresh: "node_key s node \<notin> node_key s ` set (cs_nodes (fv_stores s ! cn_store node))"
  shows "grants s (bindS (export_file_object (\<lambda>h. FNode (node\<lparr>cn_handle := h\<rparr>))) (push_node (cn_store node) node)) 2
           (handle_for (cn_store node) (node_path s node) (cn_directory node))"
proof (cases "fv_budget s = 0")
  case True
  then show ?thesis using inv by (simp add: grants_def push_node_eq)
next
  case False
  let ?h = "Some (length (fv_objects s))" and ?s = "s\<lparr>fv_budget := fv_budget s - 1\<rparr>"
  let ?n = "node\<lparr>cn_handle := ?h\<rparr>"
  let ?s' = "add_node (cn_store node) ?n ?s"
  have len: "cn_store node < length (fv_stores ?s)" using inv live by (auto simp: view_inv_def store_ok_def Let_def)
  have keeps: "view_keeps ?s ?s'" by (rule view_keeps_add_node [OF len])
  have "view_inv ?s'" using view_inv_add_node [of ?s ?n] assms by simp
  moreover have "handle_for (cn_store node) (node_path s node) (cn_directory node) ?s' ?h"
    using view_keeps_path(1) [OF keeps] by (auto simp: handle_for_def file_object_def intro!: exI [of _ ?n])
  ultimately have "grants ?s' (clone_file_handle ?h) 1
      (handle_for (cn_store node) (node_path s node) (cn_directory node))"
    by (intro clone_grants) simp_all
  then show ?thesis
    using False view_keeps_trans [OF view_keeps_budget view_keeps_trans [OF keeps]]
    by (auto simp: grants_def push_node_eq Let_def split: sum.splits)
qed

lemma grants_wrap_node:
  assumes inv: "view_inv s" and live: "a \<in> set (fv_live s)"
    and node: "node = \<lparr>cn_store = a, cn_backing = backing, cn_synthetic = synthetic, cn_directory = directory, cn_handle = None\<rparr>"
    and ok: "node_ok s node"
  shows "grants s (wrap_node a backing synthetic directory) 3 (handle_for a (node_path s node) directory)"
proof -
  obtain st where path: "node_path s node = Some (render_abs st)" using node_path_canonical [OF ok] by blast
  have same: "same_node s (node_path s node) directory n \<longleftrightarrow> node_key s n = node_key s node" for n
    using path node by (auto simp: same_node_def node_key_def)
  show ?thesis
  proof (cases "find (same_node s (node_path s node) directory) (cs_nodes (fv_stores s ! a))")
    case None
    then have fresh: "node_key s node \<notin> node_key s ` set (cs_nodes (fv_stores s ! a))"
      by (auto simp: find_None_iff same)
    let ?new = "bindS (export_file_object (\<lambda>h. FNode (node\<lparr>cn_handle := h\<rparr>))) (push_node a node)"
    have "grants (s\<lparr>fv_budget := b\<rparr>) ?new 2
        (handle_for a (node_path s node) directory)" for b
      using grants_push_node [of "s\<lparr>fv_budget := b\<rparr>" node] inv live ok fresh node by simp
    then have "grants s (bindS need_memory (\<lambda>_. ?new)) (1 + 2) (handle_for a (node_path s node) directory)"
      by (rule grants_spends [OF spends_memory]) (rule inv)
    then show ?thesis
      using None node by (elim grants_cong [rotated]) (simp_all add: wrap_node_def Let_def)
  next
    case (Some n)
    then have n: "n \<in> set (cs_nodes (fv_stores s ! a))" "node_key s n = node_key s node"
      by (auto simp: find_Some_iff same)
    then have obj: "file_object s (cn_handle n) = Some (FNode n)" "cn_store n = a"
      using inv live by (auto simp: view_inv_def store_ok_def Let_def)
    then have "handle_for a (node_path s node) directory s (cn_handle n)"
      using n(2) node by (auto simp: handle_for_def node_key_def)
    then have "grants s (clone_file_handle (cn_handle n)) 1 (handle_for a (node_path s node) directory)"
      using obj(1) inv by (intro clone_grants) (auto simp: file_object_nth)
    then show ?thesis using Some node by (elim grants_cong [rotated]) (simp_all add: wrap_node_def Let_def)
  qed
qed

section \<open>Opening is a checked lookup\<close>

text \<open>What opening the path \<open>st\<close> should answer.\<close>

definition view_lookup :: "FacetInitrd \<Rightarrow> CredentialFileStore \<Rightarrow> string list \<Rightarrow> bool \<Rightarrow> unit facet" where
  "view_lookup ini store st directory =
     (if synthetic_for_path (render_abs st) directory \<noteq> SYNTHETIC_NONE then Inr ()
      else if length (render_abs st) > FACET_PATH_MAX then Inl FACET_INVALID_ARGUMENT
      else case find_entry ini (render_abs st) directory of
             None \<Rightarrow> Inl FACET_NOT_FOUND
           | Some _ \<Rightarrow> search_way ini store st directory)"

text \<open>\<open>answers s m k r P\<close>: a refusal \<open>r\<close> is the answer, or a handle with \<open>P\<close> is granted.\<close>

definition answers :: "FileViewState \<Rightarrow> FacetHandle view \<Rightarrow> nat \<Rightarrow> unit facet \<Rightarrow> (FileViewState \<Rightarrow> FacetHandle \<Rightarrow> bool) \<Rightarrow> bool" where
  "answers s m k r P = (case r of Inl e \<Rightarrow> spends k (Inl e) m s | Inr _ \<Rightarrow> grants s m k P)"

lemma answers_bind:
  assumes "spends k r m s" and "\<And>x b. r = Inr x \<Longrightarrow> answers (s\<lparr>fv_budget := b\<rparr>) (f x) l (q x) P" and "view_inv s"
  shows "answers s (bindS m f) (k + l) (bindE r q) P"
proof (cases r)
  case (Inl e)
  then show ?thesis
    using spends_bind [OF assms(1), of l "\<lambda>_. Inl e" f] by (simp add: answers_def)
next
  case (Inr x)
  show ?thesis
  proof (cases "q x")
    case (Inl e)
    then have "spends l (Inl e) (f x) (s\<lparr>fv_budget := b\<rparr>)" for b using assms(2) [OF Inr, of b] by (simp add: answers_def)
    then show ?thesis
      using spends_bind [OF assms(1), of l "\<lambda>_. Inl e" f] Inr Inl by (auto simp: answers_def)
  next
    case (Inr u)
    then have "grants (s\<lparr>fv_budget := b\<rparr>) (f x) l P" for b
      using assms(2) [OF \<open>r = Inr x\<close>, of b] by (simp add: answers_def)
    with assms(1,3) show ?thesis
      using grants_spends [of k x m s f l P] Inr \<open>r = Inr x\<close> by (auto simp: answers_def)
  qed
qed

lemma answers_cong: "m s = m' s \<Longrightarrow> answers s m' k r P \<Longrightarrow> k \<le> l \<Longrightarrow> answers s m l r P"
  using grants_cong [of m s m' k P l] spends_weaken [of k _ m' s l]
  by (cases r) (auto simp: answers_def spends_def)

lemma answers_mono:
  "answers s m k r P \<Longrightarrow> k \<le> l \<Longrightarrow> r = r' \<Longrightarrow> (\<And>s' h. P s' h \<Longrightarrow> Q s' h) \<Longrightarrow> answers s m l r' Q"
  by (cases r) (auto simp: answers_def grants_def split: sum.splits intro: spends_weaken)

lemma find_entry_root_file:
  assumes "initrd_wf ini"
  shows "find_entry ini ''/'' False = None"
proof (cases "find_entry ini ''/'' False")
  case (Some i)
  have "i = 0"
    using find_entry_SomeD [OF Some] find_entry_SomeD [OF find_entry_root [OF assms]] assms
      nth_eq_iff_index_eq [of "map ie_path (in_entries ini)" i 0] by (simp add: initrd_wf_def)
  then show ?thesis using find_entry_SomeD [OF Some] find_entry_SomeD [OF find_entry_root [OF assms]] by simp
qed

lemma open_node_too_long:
  assumes "length path > FACET_PATH_MAX"
  shows "facet_initrd_open_node mem ini ''/'' path d = Inl FACET_INVALID_ARGUMENT"
  using assms by (auto simp: facet_initrd_open_node_def resolve_path_def)

lemma answers_checked_node:
  assumes inv: "view_inv s" and live: "a \<in> set (fv_live s)" and st: "plain_path st"
    and ini: "ini = fv_initrds s ! cs_initrd (fv_stores s ! a)" and found: "find_entry ini (render_abs st) directory = Some i"
  shows "answers s (bindS (check_search (fv_stores s ! a) (facet_initrd_node_path ini i) directory)
                      (\<lambda>_. wrap_node a (Some i) SYNTHETIC_NONE directory)) (length st + 2 + 3)
           (search_way ini (fv_stores s ! a) st directory) (handle_for a (Some (render_abs st)) directory)"
proof -
  let ?node = "\<lparr>cn_store = a, cn_backing = Some i, cn_synthetic = SYNTHETIC_NONE, cn_directory = directory, cn_handle = None\<rparr>"
  have i: "i < length (in_entries ini)" "ie_path (in_entries ini ! i) = render_abs st"
    "ie_directory (in_entries ini ! i) = directory" using found by (auto dest: find_entry_SomeD)
  have node: "node_ok s ?node" "node_path s ?node = Some (render_abs st)"
    using i st ini by (auto simp: node_ok_def node_path_def facet_initrd_node_path_def plain_path_def)
  have "spends (length st + 2) (search_way ini (fv_stores s ! a) st directory)
      (check_search (fv_stores s ! a) (facet_initrd_node_path ini i) directory) s"
    using spends_check_search [OF st, of s "fv_stores s ! a" directory] i(2) ini by (simp add: facet_initrd_node_path_def)
  moreover have "answers (s\<lparr>fv_budget := b\<rparr>) (wrap_node a (Some i) SYNTHETIC_NONE directory) 3 (Inr x)
      (handle_for a (Some (render_abs st)) directory)" for x b
    using grants_wrap_node [of "s\<lparr>fv_budget := b\<rparr>" a ?node] inv live node by (simp add: answers_def)
  ultimately have "answers s (bindS (check_search (fv_stores s ! a) (facet_initrd_node_path ini i) directory)
      (\<lambda>_. wrap_node a (Some i) SYNTHETIC_NONE directory)) (length st + 2 + 3)
      (bindE (search_way ini (fv_stores s ! a) st directory) Inr) (handle_for a (Some (render_abs st)) directory)"
    by (rule answers_bind) (rule inv)
  moreover have "bindE r Inr = r" for r :: "unit facet" by (cases r) auto
  ultimately show ?thesis by simp
qed

lemma components_chars: "c \<in> set (components s) \<Longrightarrow> set c \<subseteq> set s"
proof (induction s rule: components.induct)
  case (1 s)
  have "set (head_component s) \<subseteq> set s" "set (after_component s) \<subseteq> set s"
    by (auto simp: head_component_def after_component_def skip_slashes_def dest!: set_takeWhileD set_dropWhileD)
  with 1 show ?case by (subst (asm) (3) components.simps) (auto split: if_splits)
qed

lemma normalize_subset: "set (normalize st cs) \<subseteq> set st \<union> set cs"
proof (induction cs arbitrary: st)
  case (Cons c cs)
  have "set (path_step st c) \<subseteq> insert c (set st)" by (auto simp: path_step_def dest: in_set_butlastD)
  with Cons [of "path_step st c"] show ?case by auto
qed simp

lemma set_render_abs: "set (render_abs st) = insert CHR ''/'' (\<Union>c \<in> set st. set c)"
  by (auto simp: render_abs_def)

lemma cstr_append: "NUL \<notin> set xs \<Longrightarrow> cstr (xs @ ys) = xs @ cstr ys"
  by (induction xs) (auto simp: cstr_def)

lemma NUL_notin_cstr: "NUL \<notin> set (cstr s)"
  by (simp add: cstr_def notin_takeWhile_neq)

lemma open_node_InrD:
  assumes "facet_initrd_open_node True ini ''/'' path directory = Inr i"
  obtains st where "plain_path st" and "find_entry ini (render_abs st) directory = Some i"
    and "facet_initrd_node_path ini i = render_abs st"
proof -
  from assms obtain p r where res: "resolve_path True ''/'' path = Inr (p, r)" and i: "find_entry ini p directory = Some i"
    by (auto simp: facet_initrd_open_node_def error_monad split: if_splits option.splits)
  have "canonical_path_str ''/''" using canonical_path_str_render [of "[]"] by simp
  from resolve_path_SomeD [OF res this] obtain bs where bs: "''/'' = render_abs bs" "proper_stack bs"
    "p = render_abs (normalize (resolve_base bs path) (components path))"
    "proper_stack (normalize (resolve_base bs path) (components path))" "length p \<le> FACET_PATH_MAX" by blast
  have "bs = []" using bs(1,2) length_render_abs_eq_1 [of bs] by (metis length_Cons list.size(3) One_nat_def)
  moreover have "NUL \<notin> set path" using res by (auto simp: resolve_path_def split: if_splits)
  then have "NUL \<notin> set c" if "c \<in> set (components path)" for c using that components_chars by blast
  ultimately have "NUL \<notin> set p"
    using bs(3) normalize_subset [of "[]" "components path"] by (auto simp: set_render_abs resolve_base_def)
  then show thesis
    using that [of "normalize (resolve_base bs path) (components path)"] bs i find_entry_SomeD [OF i]
    by (auto simp: plain_path_def facet_initrd_node_path_def)
qed

lemma plain_path_length: "plain_path st \<Longrightarrow> length st \<le> FACET_PATH_MAX"
proof -
  have "length st \<le> length (render_abs st)" by (induction st) (auto simp: render_abs_Cons)
  then show "plain_path st \<Longrightarrow> length st \<le> FACET_PATH_MAX" by (simp add: plain_path_def)
qed

lemma answers_open_backed:
  assumes inv: "view_inv s" and live: "a \<in> set (fv_live s)" and ini: "ini = fv_initrds s ! cs_initrd (fv_stores s ! a)"
  shows "answers s (open_backed a path directory) (FACET_PATH_MAX + 6)
           (bindE (facet_initrd_open_node True ini ''/'' path directory)
              (\<lambda>i. search_way ini (fv_stores s ! a) (components (facet_initrd_node_path ini i)) directory))
           (\<lambda>s' h. \<exists>i. facet_initrd_open_node True ini ''/'' path directory = Inr i \<and>
              handle_for a (Some (facet_initrd_node_path ini i)) directory s' h)"
    (is "answers s _ _ _ ?P")
proof -
  let ?f = "\<lambda>mem inis. facet_initrd_open_node mem (inis ! cs_initrd (fv_stores s ! a)) ''/'' path directory"
  let ?rest = "\<lambda>i. bindS (check_search (fv_stores s ! a) (facet_initrd_node_path ini i) directory)
                     (\<lambda>_. wrap_node a (Some i) SYNTHETIC_NONE directory)"
  have opens: "spends 1 (?f True (fv_initrds s)) (with_memory ?f) s"
    by (rule spends_with_memory) (rule open_node_memory)
  have "answers (s\<lparr>fv_budget := b\<rparr>) (?rest i) (FACET_PATH_MAX + 5)
      (search_way ini (fv_stores s ! a) (components (facet_initrd_node_path ini i)) directory) ?P"
    if opened: "?f True (fv_initrds s) = Inr i" for i b
  proof -
    from opened obtain st where st: "plain_path st" "find_entry ini (render_abs st) directory = Some i"
      "facet_initrd_node_path ini i = render_abs st" unfolding ini [symmetric] by (elim open_node_InrD)
    have "answers (s\<lparr>fv_budget := b\<rparr>) (?rest i) (length st + 2 + 3) (search_way ini (fv_stores s ! a) st directory)
        (handle_for a (Some (render_abs st)) directory)"
      using answers_checked_node [of "s\<lparr>fv_budget := b\<rparr>" a st ini directory i] inv live st ini by simp
    moreover have "components (facet_initrd_node_path ini i) = st"
      using st by (simp add: components_render_abs plain_path_def)
    ultimately show ?thesis
      using plain_path_length [OF st(1)] opened st(3) ini
      by (elim answers_mono) auto
  qed
  then have "answers s (bindS (with_memory ?f) ?rest) (1 + (FACET_PATH_MAX + 5))
      (bindE (?f True (fv_initrds s)) (\<lambda>i. search_way ini (fv_stores s ! a) (components (facet_initrd_node_path ini i)) directory)) ?P"
    by (rule answers_bind [OF opens _ inv])
  then show ?thesis
    unfolding ini [symmetric] by (elim answers_cong [rotated]) (simp_all add: open_backed_def Let_def ini)
qed

text \<open>The path a client names, relative to the directory \<open>bs\<close>.\<close>

definition named_path :: "string list \<Rightarrow> string \<Rightarrow> string list" where
  "named_path bs path = normalize (resolve_base bs path) (components (cstr path))"

lemma named_path_proper: "proper_stack bs \<Longrightarrow> proper_stack (named_path bs path)"
  by (simp add: named_path_def resolve_base_def normalize_components_proper)

lemma named_path_NUL:
  assumes "NUL \<notin> set (render_abs bs)"
  shows "NUL \<notin> set (render_abs (named_path bs path))"
proof -
  have "set (named_path bs path) \<subseteq> set bs \<union> set (components (cstr path))"
    using normalize_subset [of "resolve_base bs path" "components (cstr path)"]
    by (auto simp: named_path_def resolve_base_def split: if_splits)
  then show ?thesis
    using assms NUL_notin_cstr [of path] components_chars [of _ "cstr path"] by (auto simp: set_render_abs)
qed

lemma candidate_named:
  assumes "proper_stack bs" and "NUL \<notin> set (render_abs bs)" and "path \<noteq> []"
  shows "normalise_candidate (cstr (if hd path = CHR ''/'' then path else render_abs bs @ ''/'' @ path)) =
         render_abs (named_path bs path)"
proof (cases "hd path = CHR ''/''")
  case True
  then have "cstr path \<noteq> []" "hd (cstr path) = CHR ''/''" using assms(3) by (cases path; auto simp: cstr_def)+
  with True show ?thesis by (simp add: normalise_candidate_eq named_path_def resolve_base_def)
next
  case False
  have "cstr (render_abs bs @ ''/'' @ path) = render_abs bs @ CHR ''/'' # cstr path"
    using cstr_append [of "render_abs bs @ ''/''" path] assms(2) by simp
  moreover have "components (render_abs bs @ CHR ''/'' # cstr path) = bs @ components (cstr path)"
    using assms(1) by (simp add: components_append_slash components_render_abs)
  ultimately show ?thesis
    using False assms(1)
    by (simp add: normalise_candidate_eq named_path_def resolve_base_def normalize_append normalize_proper_id)
qed

lemma synthetic_node_ok:
  assumes "synthetic_for_path p directory \<noteq> SYNTHETIC_NONE"
  shows "node_ok s \<lparr>cn_store = a, cn_backing = None, cn_synthetic = synthetic_for_path p directory,
           cn_directory = directory, cn_handle = h\<rparr>"
    and "node_path s \<lparr>cn_store = a, cn_backing = None, cn_synthetic = synthetic_for_path p directory,
           cn_directory = directory, cn_handle = h\<rparr> = Some p"
  using assms by (auto simp: synthetic_for_path_def node_ok_def node_path_def split: if_splits)

lemma view_lookup_open:
  assumes "initrd_wf ini" and "proper_stack st" and "NUL \<notin> set (render_abs st)"
    and "synthetic_for_path (render_abs st) directory = SYNTHETIC_NONE"
  shows "view_lookup ini store st directory =
           bindE (facet_initrd_open_node True ini ''/'' (render_abs st) directory)
             (\<lambda>i. search_way ini store (components (facet_initrd_node_path ini i)) directory)"
    and "facet_initrd_open_node True ini ''/'' (render_abs st) directory = Inr i \<Longrightarrow> facet_initrd_node_path ini i = render_abs st"
proof -
  have opened: "facet_initrd_open_node True ini ''/'' (render_abs st) directory =
      (if length (render_abs st) > FACET_PATH_MAX then Inl FACET_INVALID_ARGUMENT
       else case find_entry ini (render_abs st) directory of None \<Rightarrow> Inl FACET_NOT_FOUND | Some i \<Rightarrow> Inr i)"
    using assms open_node_render [of st ini directory] find_entry_root_file [OF assms(1)]
    by (auto simp: open_node_too_long plain_path_def split: option.splits)
  then show path: "facet_initrd_open_node True ini ''/'' (render_abs st) directory = Inr i \<Longrightarrow> facet_initrd_node_path ini i = render_abs st" for i
    by (auto simp: facet_initrd_node_path_def dest!: find_entry_SomeD split: if_splits option.splits)
  show "view_lookup ini store st directory =
      bindE (facet_initrd_open_node True ini ''/'' (render_abs st) directory)
        (\<lambda>i. search_way ini store (components (facet_initrd_node_path ini i)) directory)"
    using opened path assms(2,4)
    by (auto simp: view_lookup_def components_render_abs split: option.splits if_splits)
qed

lemma answers_open_target:
  assumes inv: "view_inv s" and live: "a \<in> set (fv_live s)" and st: "proper_stack st" "NUL \<notin> set (render_abs st)"
  shows "answers s (if synthetic_for_path (render_abs st) directory \<noteq> SYNTHETIC_NONE
                    then wrap_node a None (synthetic_for_path (render_abs st) directory) directory
                    else open_backed a (render_abs st) directory) (FACET_PATH_MAX + 6)
           (view_lookup (fv_initrds s ! cs_initrd (fv_stores s ! a)) (fv_stores s ! a) st directory)
           (handle_for a (Some (render_abs st)) directory)"
proof (cases "synthetic_for_path (render_abs st) directory = SYNTHETIC_NONE")
  case True
  have "initrd_wf (fv_initrds s ! cs_initrd (fv_stores s ! a))"
    using inv live by (auto simp: view_inv_def store_ok_def Let_def)
  note eq = view_lookup_open [OF this st True]
  show ?thesis
    using answers_open_backed [OF inv live refl, of "render_abs st" directory] True eq(2)
    unfolding eq(1) by (auto elim!: answers_mono)
next
  case False
  let ?wrap = "wrap_node a None (synthetic_for_path (render_abs st) directory) directory"
  have "grants s ?wrap 3 (handle_for a (Some (render_abs st)) directory)"
    using grants_wrap_node [OF inv live refl synthetic_node_ok(1) [OF False]] synthetic_node_ok(2) [OF False] by simp
  then have "grants s ?wrap (FACET_PATH_MAX + 6) (handle_for a (Some (render_abs st)) directory)"
    by (elim grants_cong [rotated]) simp_all
  then show ?thesis using False by (simp add: answers_def view_lookup_def)
qed

lemma answers_directory_open:
  assumes inv: "view_inv s" and live: "cn_store node \<in> set (fv_live s)" and path: "path \<noteq> []"
    and base: "node_path s node = Some (render_abs bs)" "proper_stack bs" "NUL \<notin> set (render_abs bs)"
  shows "answers s (directory_open node path directory) (FACET_PATH_MAX + 7)
           (view_lookup (fv_initrds s ! cs_initrd (fv_stores s ! cn_store node)) (fv_stores s ! cn_store node)
              (named_path bs path) directory)
           (handle_for (cn_store node) (Some (render_abs (named_path bs path))) directory)"
proof -
  let ?st = "named_path bs path" and ?a = "cn_store node"
  let ?open = "if synthetic_for_path (render_abs ?st) directory \<noteq> SYNTHETIC_NONE
               then wrap_node ?a None (synthetic_for_path (render_abs ?st) directory) directory
               else open_backed ?a (render_abs ?st) directory"
  let ?r = "view_lookup (fv_initrds s ! cs_initrd (fv_stores s ! ?a)) (fv_stores s ! ?a) ?st directory"
  have "answers (s\<lparr>fv_budget := b\<rparr>) ?open (FACET_PATH_MAX + 6) ?r (handle_for ?a (Some (render_abs ?st)) directory)" for b
    using answers_open_target [of "s\<lparr>fv_budget := b\<rparr>" ?a ?st directory] inv live
      named_path_proper [OF base(2)] named_path_NUL [OF base(3)] by simp
  then have "answers s (bindS need_memory (\<lambda>_. ?open)) (1 + (FACET_PATH_MAX + 6)) (bindE (Inr ()) (\<lambda>_. ?r))
      (handle_for ?a (Some (render_abs ?st)) directory)"
    by (rule answers_bind [OF spends_memory _ inv])
  moreover have "directory_open node path directory s = bindS need_memory (\<lambda>_. ?open) s"
    using base path candidate_named [OF base(2,3) path] by (simp add: directory_open_def Let_def)
  ultimately show ?thesis unfolding bindE_Inr by (elim answers_cong [rotated]) simp_all
qed

lemma answers_store_open:
  assumes inv: "view_inv s" and live: "a \<in> set (fv_live s)" and path: "path \<noteq> []"
    and ini: "ini = fv_initrds s ! cs_initrd (fv_stores s ! a)"
  shows "answers s (store_open a path directory) (FACET_PATH_MAX + 7)
           (if synthetic_for_path (cstr path) directory \<noteq> SYNTHETIC_NONE then Inr ()
            else bindE (facet_initrd_open_node True ini ''/'' path directory)
              (\<lambda>i. search_way ini (fv_stores s ! a) (components (facet_initrd_node_path ini i)) directory))
           (\<lambda>s' h. \<exists>p. handle_for a (Some p) directory s' h \<and>
              (if synthetic_for_path (cstr path) directory \<noteq> SYNTHETIC_NONE then p = cstr path
               else \<exists>i. facet_initrd_open_node True ini ''/'' path directory = Inr i \<and> p = facet_initrd_node_path ini i))"
    (is "answers s _ _ ?r ?P")
proof -
  let ?syn = "synthetic_for_path (cstr path) directory"
  let ?open = "if ?syn \<noteq> SYNTHETIC_NONE then wrap_node a None ?syn directory else open_backed a path directory"
  have "answers (s\<lparr>fv_budget := b\<rparr>) ?open (FACET_PATH_MAX + 6) ?r ?P" for b
  proof (cases "?syn = SYNTHETIC_NONE")
    case True
    then show ?thesis
      using answers_open_backed [of "s\<lparr>fv_budget := b\<rparr>" a ini path directory] inv live ini
      by (auto elim!: answers_mono)
  next
    case False
    have "grants (s\<lparr>fv_budget := b\<rparr>) (wrap_node a None ?syn directory) 3 (handle_for a (Some (cstr path)) directory)"
      using grants_wrap_node [of "s\<lparr>fv_budget := b\<rparr>", OF _ _ refl synthetic_node_ok(1) [OF False]] inv live
        synthetic_node_ok(2) [OF False] by simp
    then show ?thesis using False by (auto simp: answers_def grants_def split: sum.splits)
  qed
  then have "answers s (bindS need_memory (\<lambda>_. ?open)) (1 + (FACET_PATH_MAX + 6)) (bindE (Inr ()) (\<lambda>_. ?r)) ?P"
    by (rule answers_bind [OF spends_memory _ inv])
  moreover have "store_open a path directory s = bindS need_memory (\<lambda>_. ?open) s"
    using path by (simp add: store_open_def Let_def)
  ultimately show ?thesis unfolding bindE_Inr by (elim answers_cong [rotated]) simp_all
qed

section \<open>Creating and destroying stores\<close>

lemma node_frame:
  assumes "fv_initrds s' = fv_initrds s"
    and "cs_initrd (fv_stores s' ! cn_store n) = cs_initrd (fv_stores s ! cn_store n)"
  shows "node_path s' n = node_path s n" and "node_ok s' n = node_ok s n" and "node_key s' n = node_key s n"
  using assms by (simp_all add: node_path_def node_ok_def node_key_def Let_def)

lemma view_inv_references:
  assumes inv: "view_inv s" and n: "1 \<le> g (cs_references (fv_stores s ! a))"
  shows "view_inv (update_store a (\<lambda>st. st\<lparr>cs_references := g (cs_references st)\<rparr>) s)"
proof -
  let ?s = "update_store a (\<lambda>st. st\<lparr>cs_references := g (cs_references st)\<rparr>) s"
  have eq: "fv_initrds ?s = fv_initrds s" "fv_live ?s = fv_live s" "fv_objects ?s = fv_objects s"
    "length (fv_stores ?s) = length (fv_stores s)" by (simp_all add: update_store_def)
  have at: "fv_stores ?s ! b = (if b = a \<and> a < length (fv_stores s)
      then (fv_stores s ! a)\<lparr>cs_references := g (cs_references (fv_stores s ! a))\<rparr> else fv_stores s ! b)" for b
    by (cases "a < length (fv_stores s)") (auto simp: update_store_def nth_list_update list_update_beyond)
  have ok: "node_ok ?s = node_ok s" by (intro ext node_frame) (simp_all add: eq at)
  have key: "node_key ?s = node_key s" by (intro ext node_frame) (simp_all add: eq at)
  have obj: "file_object ?s = file_object s" by (simp add: fun_eq_iff file_object_def eq split: option.split)
  have "store_ok ?s b" if "b \<in> set (fv_live s)" for b
  proof -
    have "store_ok s b" using inv that by (simp add: view_inv_def)
    then show ?thesis using n by (cases "b = a") (simp_all add: store_ok_def Let_def ok key obj eq at)
  qed
  moreover have "object_live ?s k x = object_live s k x" for k x
    by (cases x) (simp_all add: object_live_def eq at)
  moreover have "credentials (fv_stores ?s ! b) = credentials (fv_stores s ! b)" for b
    by (simp add: at credentials_def)
  ultimately show ?thesis using inv unfolding view_inv_def eq by simp
qed

lemma view_inv_new_store:
  assumes inv: "view_inv s" and ini: "cs_initrd st < length (fv_initrds s)" and st: "cs_nodes st = []" "1 \<le> cs_references st"
    and h: "cs_handle st = Some (length (fv_objects s))"
    and fresh: "credentials st \<notin> (\<lambda>a. credentials (fv_stores s ! a)) ` set (fv_live s)"
  shows "view_inv (s\<lparr>fv_stores := fv_stores s @ [st], fv_live := length (fv_stores s) # fv_live s,
                     fv_objects := fv_objects s @ [Some (FStore (length (fv_stores s)))]\<rparr>)" (is "view_inv ?s")
proof -
  let ?a = "length (fv_stores s)"
  have live: "b < ?a" if "b \<in> set (fv_live s)" for b using inv that by (auto simp: view_inv_def store_ok_def Let_def)
  have old: "fv_stores ?s ! b = fv_stores s ! b" if "b < ?a" for b using that by (simp add: nth_append)
  have new: "fv_stores ?s ! ?a = st" by simp
  have obj: "file_object s k = Some obj \<Longrightarrow> file_object ?s k = Some obj" for k obj by (auto simp: file_object_nth nth_append)
  have "store_ok ?s b" if b: "b \<in> set (fv_live s)" for b
  proof -
    have ok: "store_ok s b" using inv b by (simp add: view_inv_def)
    have "node_ok ?s n = node_ok s n" "node_key ?s n = node_key s n" if "n \<in> set (cs_nodes (fv_stores s ! b))" for n
    proof -
      have "cn_store n = b" using ok that by (simp add: store_ok_def Let_def)
      with live [OF b] old show "node_ok ?s n = node_ok s n" "node_key ?s n = node_key s n" by (auto intro!: node_frame)
    qed
    then show ?thesis
      using ok live [OF b] old by (auto simp: store_ok_def Let_def intro: obj cong: map_cong)
  qed
  moreover have "store_ok ?s ?a" using ini st h by (auto simp: store_ok_def Let_def file_object_def)
  moreover have "object_live ?s k x" if "k < length (fv_objects ?s)" "fv_objects ?s ! k = Some x" for k x
  proof (cases "k < length (fv_objects s)")
    case True
    then have "object_live s k x" using inv that by (auto simp: view_inv_def nth_append)
    then show ?thesis using live old by (auto simp: object_live_def split: FileObject.splits)
  next
    case False
    with that h show ?thesis by (auto simp: object_live_def nth_append less_Suc_eq)
  qed
  moreover have "inj_on (\<lambda>b. credentials (fv_stores ?s ! b)) (set (fv_live ?s))"
  proof -
    have "?a \<notin> set (fv_live s)" using live by blast
    moreover have "inj_on (\<lambda>b. credentials (fv_stores ?s ! b)) (set (fv_live s)) = inj_on (\<lambda>b. credentials (fv_stores s ! b)) (set (fv_live s))"
      using live old by (auto intro!: inj_on_cong)
    moreover have "(\<lambda>b. credentials (fv_stores ?s ! b)) ` set (fv_live s) = (\<lambda>b. credentials (fv_stores s ! b)) ` set (fv_live s)"
      using live old by (auto intro!: image_cong)
    ultimately show ?thesis using inv fresh new by (simp add: view_inv_def)
  qed
  ultimately show ?thesis using inv live unfolding view_inv_def by auto
qed

lemma new_store_inv:
  assumes inv: "view_inv s" and ini: "ini < length (fv_initrds s)"
    and fresh: "(ini, uid, gid, admin) \<notin> (\<lambda>a. credentials (fv_stores s ! a)) ` set (fv_live s)"
  shows "view_inv (snd (new_store ini uid gid admin ps s))"
proof (cases "fv_budget s = 0")
  case True
  then show ?thesis
    using inv by (simp add: new_store_def export_file_object_def bindS_def need_memory_def split: prod.split)
next
  case False
  obtain passwd shadow where ps: "ps = (passwd, shadow)" by fastforce
  let ?st = "\<lparr>cs_handle = Some (length (fv_objects s)), cs_initrd = ini, cs_uid = uid, cs_gid = gid, cs_admin = admin,
              cs_virtual_passwd = passwd, cs_virtual_shadow = shadow, cs_references = 1, cs_nodes = []\<rparr>"
  let ?s = "s\<lparr>fv_budget := fv_budget s - 1\<rparr>"
  have "view_inv (?s\<lparr>fv_stores := fv_stores ?s @ [?st], fv_live := length (fv_stores ?s) # fv_live ?s,
                     fv_objects := fv_objects ?s @ [Some (FStore (length (fv_stores ?s)))]\<rparr>)" (is "view_inv ?s'")
    by (rule view_inv_new_store) (use inv ini fresh in \<open>simp_all add: credentials_def\<close>)
  also have "?s' = snd (new_store ini uid gid admin ps s)"
    using False ps
    by (simp add: new_store_def export_file_object_def link_store_def bindS_def need_memory_def Let_def)
  finally show ?thesis .
qed

lemma view_inv_create:
  assumes inv: "view_inv s" and ini: "ini < length (fv_initrds s)"
    and create: "dominit0_credential_file_store_create users ini uid gid admin s = Returns (r, s')"
  shows "view_inv s'"
proof (cases "find (same_credentials s ini uid gid admin) (fv_live s)")
  case (Some a)
  then show ?thesis
    using create view_inv_references [OF inv, of Suc a] by (auto simp: dominit0_credential_file_store_create_def)
next
  case None
  then have fresh: "(ini, uid, gid, admin) \<notin> (\<lambda>a. credentials (fv_stores s ! a)) ` set (fv_live s)"
    by (auto simp: find_None_iff same_credentials_def credentials_def)
  obtain b where b: "snd (need_memory_times 3 s) = s\<lparr>fv_budget := b\<rparr>"
    using spends_times [of 3 s] by (auto simp: spends_def)
  have all: "view_inv (snd (bindS (need_memory_times 3) (\<lambda>_. case t of Inl e \<Rightarrow> failS e | Inr t \<Rightarrow> new_store ini uid gid admin t) s))" for t
    using b inv new_store_inv [of "s\<lparr>fv_budget := b\<rparr>" ini uid gid admin] ini fresh
    by (auto simp: bindS_def failS_def split: prod.splits sum.splits)
  show ?thesis
  proof (cases "fv_budget s = 0")
    case True
    then show ?thesis using create None inv by (simp add: dominit0_credential_file_store_create_def)
  next
    case False
    then obtain t where t: "render_virtual_credentials users = Returns t"
      using create None by (cases "render_virtual_credentials users") (simp_all add: dominit0_credential_file_store_create_def)
    show ?thesis
      using create None False all [of t] t
      by (simp add: dominit0_credential_file_store_create_def split: prod.splits sum.splits)
  qed
qed

lemma nth_update_if: "k < length xs \<Longrightarrow> xs[i := v] ! k = (if i = k then v else xs ! k)"
  by (cases "i = k") auto

lemma fold_unexport:
  "length (fv_objects (fold (\<lambda>node. unexport_file_object (cn_handle node)) ns s)) = length (fv_objects s)"
  "k < length (fv_objects s) \<Longrightarrow>
     fv_objects (fold (\<lambda>node. unexport_file_object (cn_handle node)) ns s) ! k =
       (if Some k \<in> cn_handle ` set ns then None else fv_objects s ! k)"
  "fv_stores (fold (\<lambda>node. unexport_file_object (cn_handle node)) ns s) = fv_stores s"
  "fv_initrds (fold (\<lambda>node. unexport_file_object (cn_handle node)) ns s) = fv_initrds s"
  "fv_live (fold (\<lambda>node. unexport_file_object (cn_handle node)) ns s) = fv_live s"
  by (induction ns arbitrary: s) (auto simp: unexport_file_object_def nth_list_update split: option.splits)

text \<open>The last reference: the store leaves the list and all its objects are withdrawn.\<close>

lemma destroy_last:
  assumes "\<not> cs_references (fv_stores s ! a) > 1"
  shows "fv_initrds (dominit0_credential_file_store_destroy a s) = fv_initrds s"
    and "fv_stores (dominit0_credential_file_store_destroy a s) = fv_stores s"
    and "fv_live (dominit0_credential_file_store_destroy a s) = remove1 a (fv_live s)"
    and "length (fv_objects (dominit0_credential_file_store_destroy a s)) = length (fv_objects s)"
    and "k < length (fv_objects s) \<Longrightarrow> fv_objects (dominit0_credential_file_store_destroy a s) ! k =
           (if Some k = cs_handle (fv_stores s ! a) \<or> Some k \<in> cn_handle ` set (cs_nodes (fv_stores s ! a))
            then None else fv_objects s ! k)"
  using assms
  by (auto simp: dominit0_credential_file_store_destroy_def Let_def unexport_file_object_def fold_unexport
      nth_update_if split: option.splits)

lemma view_inv_destroy:
  assumes inv: "view_inv s" and live: "a \<in> set (fv_live s)"
  shows "view_inv (dominit0_credential_file_store_destroy a s)"
proof (cases "cs_references (fv_stores s ! a) > 1")
  case True
  then show ?thesis
    using view_inv_references [OF inv, of "\<lambda>n. n - 1" a]
    by (simp add: dominit0_credential_file_store_destroy_def Let_def)
next
  case False
  let ?s = "dominit0_credential_file_store_destroy a s"
  note eq = destroy_last [OF False]
  have rest: "set (remove1 a (fv_live s)) = set (fv_live s) - {a}" using inv by (simp add: view_inv_def)
  have ok: "store_ok s b" if "b \<in> set (fv_live s)" for b using inv that by (simp add: view_inv_def)
  have mine: "file_object s (cs_handle (fv_stores s ! a)) = Some (FStore a)"
    "\<forall>n \<in> set (cs_nodes (fv_stores s ! a)). cn_store n = a \<and> file_object s (cn_handle n) = Some (FNode n)"
    using ok [OF live] by (auto simp: store_ok_def Let_def)
  have obj: "file_object ?s h = Some x" if "file_object s h = Some x" "x \<noteq> FStore a" "\<And>n. x = FNode n \<Longrightarrow> cn_store n \<noteq> a" for h x
    using that mine eq(4,5) by (force simp: file_object_nth)
  have frame: "node_ok ?s = node_ok s" "node_key ?s = node_key s" by (intro ext node_frame; simp add: eq)+
  have "store_ok ?s b" if "b \<in> set (fv_live s)" "b \<noteq> a" for b
    using ok [OF that(1)] that(2) unfolding store_ok_def Let_def frame eq by (auto intro!: obj)
  moreover have "object_live ?s k x" if k: "k < length (fv_objects s)" "fv_objects ?s ! k = Some x" for k x
  proof -
    have "fv_objects s ! k = Some x" "Some k \<noteq> cs_handle (fv_stores s ! a)"
      "Some k \<notin> cn_handle ` set (cs_nodes (fv_stores s ! a))" using k eq(5) [of k] by (auto split: if_splits)
    moreover from this k have "object_live s k x" using inv by (simp add: view_inv_def)
    ultimately show ?thesis by (cases x) (auto simp: object_live_def eq rest image_iff)
  qed
  moreover have "inj_on (\<lambda>b. credentials (fv_stores s ! b)) (set (fv_live s) - {a})"
    using inv by (auto simp: view_inv_def intro: inj_on_subset)
  ultimately show ?thesis using inv unfolding view_inv_def eq rest by auto
qed

text \<open>Exporting a metadata object changes no path and no kind of the archive.\<close>

lemma tree_entry:
  assumes "tree_of ini' = tree_of ini"
  shows "length (in_entries ini') = length (in_entries ini)"
    and "i < length (in_entries ini) \<Longrightarrow> entry_core (in_entries ini' ! i) = entry_core (in_entries ini ! i)"
proof -
  have map: "map entry_core (in_entries ini') = map entry_core (in_entries ini)" using assms by (simp add: tree_of_def)
  then show len: "length (in_entries ini') = length (in_entries ini)" by (metis length_map)
  show "entry_core (in_entries ini' ! i) = entry_core (in_entries ini ! i)" if "i < length (in_entries ini)"
    using arg_cong [OF map, of "\<lambda>l. l ! i"] that len by simp
qed

lemma view_inv_archive:
  assumes inv: "view_inv s" and tree: "tree_of ini = tree_of (fv_initrds s ! k)"
  shows "view_inv (s\<lparr>fv_initrds := (fv_initrds s)[k := ini]\<rparr>)" (is "view_inv ?s")
proof (cases "k < length (fv_initrds s)")
  case True
  have same: "tree_of (fv_initrds ?s ! j) = tree_of (fv_initrds s ! j)" for j
    using tree True by (simp add: nth_list_update)
  have wf: "\<forall>i \<in> set (fv_initrds ?s). initrd_wf i"
    using inv True initrd_wf_tree_of [OF tree] by (auto simp: view_inv_def dest!: set_update_subset_insert [THEN subsetD])
  have core: "ie_path e = ie_path e' \<and> ie_directory e = ie_directory e'" if "entry_core e = entry_core e'" for e e'
    using that by (simp add: entry_core_def)
  have nodes: "node_ok ?s n \<and> node_path ?s n = node_path s n" if ok: "node_ok s n" for n
  proof (cases "cn_synthetic n = SYNTHETIC_NONE")
    case True
    let ?j = "cs_initrd (fv_stores s ! cn_store n)"
    from ok True obtain i where i: "cn_backing n = Some i" "i < length (in_entries (fv_initrds s ! ?j))"
      by (auto simp: node_ok_def Let_def)
    note entry = tree_entry(1) [OF same [of ?j]] core [OF tree_entry(2) [OF same [of ?j] i(2)]]
    show ?thesis
      using ok True i entry by (simp add: node_ok_def node_path_def facet_initrd_node_path_def Let_def)
  next
    case False
    then show ?thesis using ok by (simp add: node_ok_def node_path_def)
  qed
  have "store_ok ?s b" if "b \<in> set (fv_live s)" for b
  proof -
    have ok: "store_ok s b" using inv that by (simp add: view_inv_def)
    then have keys: "map (node_key ?s) (cs_nodes (fv_stores s ! b)) = map (node_key s) (cs_nodes (fv_stores s ! b))"
      using nodes by (auto simp: store_ok_def Let_def node_key_def)
    have "file_object ?s = file_object s" by (simp add: fun_eq_iff file_object_def split: option.split)
    with ok nodes show ?thesis by (simp add: store_ok_def Let_def keys)
  qed
  moreover have "object_live ?s h x = object_live s h x" for h x by (cases x) (simp_all add: object_live_def)
  ultimately show ?thesis using inv wf unfolding view_inv_def by simp
next
  case False
  then show ?thesis using inv by (simp add: list_update_beyond)
qed

section \<open>Runs of the file view\<close>

text \<open>
  One step: an archive is mounted, a store is created or released, or a client
  calls a store or a node it holds a handle of.
\<close>

inductive view_step :: "FileViewState \<Rightarrow> FileViewState \<Rightarrow> bool" where
  vs_archive: "facet_initrd_create h img = Some ini \<Longrightarrow> view_step s (s\<lparr>fv_initrds := fv_initrds s @ [ini]\<rparr>)"
| vs_create: "ini < length (fv_initrds s) \<Longrightarrow>
    dominit0_credential_file_store_create users ini uid gid admin s = Returns (r, s') \<Longrightarrow> view_step s s'"
| vs_destroy: "a \<in> set (fv_live s) \<Longrightarrow> view_step s (dominit0_credential_file_store_destroy a s)"
| vs_store_open: "file_object s h = Some (FStore a) \<Longrightarrow> view_step s (snd (store_open a path directory s))"
| vs_store_interface: "file_object s h = Some (FStore a) \<Longrightarrow> view_step s (snd (view_store_get_interface I a iid s))"
| vs_open: "file_object s h = Some (FNode n) \<Longrightarrow> view_step s (snd (directory_open n path directory s))"
| vs_list: "file_object s h = Some (FNode n) \<Longrightarrow> view_step s (snd (view_directory_list n cursor maximum s))"
| vs_path: "file_object s h = Some (FNode n) \<Longrightarrow> view_step s (snd (get_node_path n s))"
| vs_size: "file_object s h = Some (FNode n) \<Longrightarrow> view_step s (snd (file_size n s))"
| vs_read: "file_object s h = Some (FNode n) \<Longrightarrow> view_step s (snd (file_read n offset maximum s))"
| vs_write: "file_object s h = Some (FNode n) \<Longrightarrow> view_step s (snd (file_write n offset bytes s))"
| vs_node_interface: "file_object s h = Some (FNode n) \<Longrightarrow> view_step s (snd (node_get_interface I expo n iid s))"
| vs_memory: "view_step s (s\<lparr>fv_budget := b\<rparr>)"

definition initial_view :: FileViewState where
  "initial_view = \<lparr>fv_initrds = [], fv_stores = [], fv_live = [], fv_objects = [], fv_budget = 0\<rparr>"

lemma answers_inv:
  assumes "answers s m k r P" and "view_inv s"
  shows "view_inv (snd (m s))"
proof (cases r)
  case (Inl e)
  with assms show ?thesis by (auto simp: answers_def intro: spends_inv)
next
  case (Inr u)
  with assms show ?thesis by (simp add: answers_def grants_def)
qed

lemma object_of_live:
  assumes "view_inv s" and "file_object s h = Some obj"
  shows "case obj of FStore a \<Rightarrow> a \<in> set (fv_live s)
         | FNode n \<Rightarrow> cn_store n \<in> set (fv_live s) \<and> node_ok s n"
proof -
  from assms have "case obj of FStore a \<Rightarrow> a \<in> set (fv_live s)
      | FNode n \<Rightarrow> cn_store n \<in> set (fv_live s) \<and> n \<in> set (cs_nodes (fv_stores s ! cn_store n))"
    by (auto simp: file_object_nth view_inv_def object_live_def split: FileObject.splits)
  with assms(1) show ?thesis by (auto simp: view_inv_def store_ok_def Let_def split: FileObject.splits)
qed

lemma node_NUL:
  assumes "view_inv s" and "cn_store n \<in> set (fv_live s)" and "node_ok s n" and "node_path s n = Some p"
  shows "NUL \<notin> set p"
proof (cases "cn_synthetic n = SYNTHETIC_NONE")
  case True
  let ?ini = "fv_initrds s ! cs_initrd (fv_stores s ! cn_store n)"
  have "initrd_wf ?ini" using assms(1,2) by (auto simp: view_inv_def store_ok_def Let_def)
  with True assms(3,4) show ?thesis
    by (auto simp: node_ok_def node_path_def facet_initrd_node_path_def Let_def initrd_wf_def entry_wf_def)
next
  case False
  with assms(4) show ?thesis by (cases "cn_synthetic n") (auto simp: node_path_def)
qed

lemma directory_open_inv:
  assumes inv: "view_inv s" and n: "cn_store n \<in> set (fv_live s)" "node_ok s n"
  shows "view_inv (snd (directory_open n path directory s))"
proof (cases "path = []")
  case True
  then show ?thesis using inv by (simp add: directory_open_def)
next
  case False
  obtain bs where bs: "node_path s n = Some (render_abs bs)" "proper_stack bs" using node_path_canonical [OF n(2)] by blast
  from answers_inv [OF answers_directory_open [OF inv n(1) False bs node_NUL [OF inv n bs(1)]] inv]
  show ?thesis .
qed

lemma spends_read_synthetic:
  "spends 1 (if cn_synthetic n = SYNTHETIC_SHADOW \<and> \<not> cs_admin store then Inl FACET_ACCESS_DENIED
             else Inr (take maximum (drop offset contents)))
     (read_synthetic store n contents offset maximum) s"
proof (cases "cn_synthetic n = SYNTHETIC_SHADOW \<and> \<not> cs_admin store")
  case True
  then show ?thesis using spends_weaken [OF spends_fail, of 1] by (simp add: read_synthetic_def)
next
  case False
  let ?count = "if length contents - offset > maximum then maximum else length contents - offset"
  show ?thesis
  proof (cases "offset \<ge> length contents")
    case True
    then show ?thesis using False spends_weaken [OF spends_return, of 1] by (auto simp: read_synthetic_def)
  next
    case less: False
    have "spends 1 (Inr ()) (if ?count = 0 then returnS () else need_memory) s"
      using spends_memory spends_weaken [OF spends_return, of 1] by auto
    from spends_bind [OF this spends_return, of "\<lambda>_. take ?count (drop offset contents)"]
    have "spends 1 (Inr (take ?count (drop offset contents))) (read_synthetic store n contents offset maximum) s"
      using False less by (auto simp: read_synthetic_def Let_def)
    moreover have "take ?count (drop offset contents) = take maximum (drop offset contents)" by simp
    ultimately show ?thesis using False by auto
  qed
qed

text \<open>A listing changes nothing.\<close>

definition view_quiet :: "'a view \<Rightarrow> bool" where
  "view_quiet m \<longleftrightarrow> (\<forall>s. \<exists>b. snd (m s) = s\<lparr>fv_budget := b\<rparr>)"

lemma budget_same: "\<exists>b. s = s\<lparr>fv_budget := b\<rparr>"
  by (rule exI [of _ "fv_budget s"]) simp

lemma quiet_basic [simp]: "view_quiet (returnS x)" "view_quiet (failS e)" "view_quiet need_memory" "view_quiet (with_memory f)"
  by (auto simp: view_quiet_def returnS_def failS_def need_memory_def with_memory_def budget_same)

lemma quiet_bind [intro]:
  assumes "view_quiet m" and "\<And>x. view_quiet (f x)"
  shows "view_quiet (bindS m f)"
  unfolding view_quiet_def
proof
  fix s
  obtain r s' where ms: "m s = (r, s')" by fastforce
  from assms(1) obtain b where b: "s' = s\<lparr>fv_budget := b\<rparr>" unfolding view_quiet_def by (metis ms snd_conv)
  show "\<exists>b. snd (bindS m f s) = s\<lparr>fv_budget := b\<rparr>"
  proof (cases r)
    case (Inl e)
    then show ?thesis using ms b by (auto simp: bindS_def)
  next
    case (Inr x)
    obtain b' where "snd (f x (s\<lparr>fv_budget := b\<rparr>)) = (s\<lparr>fv_budget := b\<rparr>)\<lparr>fv_budget := b'\<rparr>"
      using assms(2) [of x] unfolding view_quiet_def by blast
    then show ?thesis using Inr ms b by (auto simp: bindS_def)
  qed
qed

lemma quiet_times [simp]: "view_quiet (need_memory_times n)"
  by (induction n) auto

lemma quiet_list: "view_quiet (view_directory_list n cursor maximum)"
proof -
  have etc: "view_quiet (list_etc cursor maximum)" by (auto simp: list_etc_def Let_def simp del: need_memory_times.simps)
  have extend: "view_quiet (extend_posix_root path cursor maximum l)" for path l
    by (cases l) (auto simp: extend_posix_root_def simp del: need_memory_times.simps)
  have "\<exists>b. snd (view_directory_list n cursor maximum s) = s\<lparr>fv_budget := b\<rparr>" for s
  proof (cases "cn_synthetic n = SYNTHETIC_ETC_DIRECTORY")
    case True
    then show ?thesis using etc by (simp add: view_directory_list_def view_quiet_def)
  next
    case False
    have "view_quiet (bindS (with_memory f) (extend_posix_root path cursor maximum))" for f path
      using extend by auto
    then show ?thesis
      using False by (cases "cn_backing n")
        (auto simp: view_directory_list_def view_quiet_def Let_def budget_same)
  qed
  then show ?thesis by (simp add: view_quiet_def)
qed

lemma quiet_inv: "view_quiet m \<Longrightarrow> view_inv s \<Longrightarrow> view_inv (snd (m s))"
  unfolding view_quiet_def by (metis view_inv_budget)

lemma quiet_clone: "view_quiet (clone_file_handle h)"
  by (auto simp: clone_file_handle_def)

lemma node_interface_inv:
  assumes "view_inv s"
  shows "view_inv (snd (node_get_interface I expo n iid s))"
proof -
  let ?k = "cs_initrd (fv_stores s ! cn_store n)"
  have "view_inv (s\<lparr>fv_initrds := (fv_initrds s)[?k := snd (facet_initrd_node_metadata_handle expo (fv_initrds s ! ?k) i)]\<rparr>)" for i
    by (rule view_inv_archive [OF assms tree_of_metadata_handle])
  then show ?thesis
    using assms quiet_inv [OF quiet_clone assms, of "cn_handle n"]
    by (auto simp: node_get_interface_def Let_def case_prod_beta split: option.splits)
qed

lemma view_inv_mount:
  assumes inv: "view_inv s" and ini: "initrd_wf ini"
  shows "view_inv (s\<lparr>fv_initrds := fv_initrds s @ [ini]\<rparr>)" (is "view_inv ?s")
proof -
  have "store_ok ?s b" if "b \<in> set (fv_live s)" for b
  proof -
    have ok: "store_ok s b" using inv that by (simp add: view_inv_def)
    have nodes: "node_ok ?s n" "node_key ?s n = node_key s n" if "n \<in> set (cs_nodes (fv_stores s ! b))" for n
      using ok that by (auto simp: store_ok_def node_ok_def node_key_def node_path_def Let_def nth_append)
    then have keys: "map (node_key ?s) (cs_nodes (fv_stores s ! b)) = map (node_key s) (cs_nodes (fv_stores s ! b))" by simp
    have "file_object ?s = file_object s" by (simp add: fun_eq_iff file_object_def split: option.split)
    with ok nodes(1) show ?thesis by (simp add: store_ok_def Let_def keys)
  qed
  moreover have "object_live ?s h x = object_live s h x" for h x by (cases x) (simp_all add: object_live_def)
  ultimately show ?thesis using inv ini unfolding view_inv_def by simp
qed

lemma file_read_quiet: "\<exists>b. snd (file_read n offset maximum s) = s\<lparr>fv_budget := b\<rparr>"
  using spends_read_synthetic [of n "fv_stores s ! cn_store n" maximum offset _ s]
  by (auto simp: file_read_def spends_def Let_def split: option.splits intro: budget_same)

lemma view_step_inv:
  assumes "view_step s s'" and inv: "view_inv s"
  shows "view_inv s'"
  using assms(1)
proof cases
  case (vs_archive h img ini)
  then show ?thesis using view_inv_mount [OF inv] by (auto dest: facet_initrd_create_SomeD)
next
  case (vs_store_open h a path directory)
  then have "a \<in> set (fv_live s)" using object_of_live [OF inv] by fastforce
  then show ?thesis
    using vs_store_open(1) inv answers_inv [OF answers_store_open [OF inv _ _ refl] inv]
    by (cases "path = []") (auto simp: store_open_def failS_def)
next
  case (vs_open h n path directory)
  then show ?thesis using object_of_live [OF inv, of h "FNode n"] directory_open_inv [OF inv] by simp
next
  case (vs_store_interface h a I iid)
  then show ?thesis using inv quiet_inv [OF quiet_clone inv] by (simp add: view_store_get_interface_def)
next
  case (vs_read h n offset maximum)
  obtain b where "snd (file_read n offset maximum s) = s\<lparr>fv_budget := b\<rparr>" using file_read_quiet by blast
  with vs_read(1) inv show ?thesis by simp
next
  case (vs_list h n cursor maximum)
  then show ?thesis using quiet_inv [OF quiet_list inv] by simp
qed (use inv view_inv_create [OF inv] view_inv_destroy [OF inv] node_interface_inv [OF inv] in
    \<open>auto simp: get_node_path_def file_size_def file_write_def failS_def Let_def split: option.splits\<close>)

section \<open>Rendered credentials\<close>

lemma length_base_text:
  assumes "n < b ^ k" and "2 \<le> b" and "0 < k"
  shows "length (base_text b n) \<le> k"
  using assms
proof (induction b n arbitrary: k rule: base_text.induct)
  case (1 b n)
  show ?case
  proof (cases "n < b")
    case True
    then show ?thesis using "1.prems" by (subst base_text.simps) simp
  next
    case False
    then obtain j where j: "k = Suc j" "0 < j"
      using "1.prems" by (cases k; cases "k - 1") auto
    have "n div b < b ^ j" using "1.prems"(1) j by (simp add: less_mult_imp_div_less mult.commute)
    then have "length (base_text b (n div b)) \<le> j" using "1.IH" False "1.prems"(2) j by simp
    then show ?thesis using False "1.prems"(2) j by (subst base_text.simps) simp
  qed
qed

lemma length_decimal_u32: "length (decimal (unat (w :: u32))) \<le> 10"
proof (rule length_base_text)
  have "unat w < 2 ^ 32" using unsigned_less [of w] by simp
  then show "unat w < 10 ^ 10" by simp
qed simp_all

lemma length_passwd_line:
  "length (passwd_line name uid gid home shell) \<le> 2 * length name + length home + length shell + 28"
  using length_decimal_u32 [of uid] length_decimal_u32 [of gid] by (simp add: passwd_line_def)

text \<open>The fields of a user that the rendering can place.\<close>

definition renderable :: "FacetConfigUser \<Rightarrow> bool" where
  "renderable user \<longleftrightarrow>
     (case rendered_fields user of None \<Rightarrow> False | Some (name, home, shell, hash) \<Rightarrow> length name \<le> 20)"

definition user_passwd :: "FacetConfigUser \<Rightarrow> string" where
  "user_passwd user =
     (case rendered_fields user of None \<Rightarrow> []
      | Some (name, home, shell, hash) \<Rightarrow> passwd_line name (us_uid user) (us_gid user) home shell)"

definition user_shadow :: "FacetConfigUser \<Rightarrow> string" where
  "user_shadow user =
     (case rendered_fields user of None \<Rightarrow> [] | Some (name, home, shell, hash) \<Rightarrow> shadow_line name hash)"

lemma user_text_fits:
  assumes "renderable user"
  shows "length (user_passwd user) + 1 \<le> passwd_capacity [user]" and "length (user_shadow user) + 1 \<le> shadow_capacity [user]"
proof -
  obtain name home shell hash where f: "rendered_fields user = Some (name, home, shell, hash)" "length name \<le> 20"
    using assms by (auto simp: renderable_def split: option.splits)
  show "length (user_passwd user) + 1 \<le> passwd_capacity [user]"
    using f length_passwd_line [of name "us_uid user" "us_gid user" home shell]
    by (simp add: user_passwd_def passwd_capacity_def)
  show "length (user_shadow user) + 1 \<le> shadow_capacity [user]"
    using f by (simp add: user_shadow_def shadow_capacity_def shadow_line_def)
qed

lemma capacity_append:
  "passwd_capacity (xs @ ys) = passwd_capacity xs + passwd_capacity ys - 1"
  "shadow_capacity (xs @ ys) = shadow_capacity xs + shadow_capacity ys - 1"
  by (simp_all add: passwd_capacity_def shadow_capacity_def)

lemma texts_fit:
  "\<forall>user \<in> set users. renderable user \<Longrightarrow>
   length (concat (map user_passwd users)) + 1 \<le> passwd_capacity users \<and>
   length (concat (map user_shadow users)) + 1 \<le> shadow_capacity users"
proof (induction users)
  case (Cons u users)
  then show ?case using user_text_fits [of u] capacity_append [of "[u]" users] by auto
qed (simp add: passwd_capacity_def shadow_capacity_def)

lemma render_user_fits:
  assumes "renderable user" and "length passwd + length (user_passwd user) < P" and "length shadow + length (user_shadow user) < S"
  shows "render_user P S user (passwd, shadow) = Inr (passwd @ user_passwd user, shadow @ user_shadow user)"
  using assms
  by (auto simp: render_user_def renderable_def append_line_def user_passwd_def user_shadow_def
      split: option.splits prod.splits)

lemma render_users_fit:
  assumes "\<forall>user \<in> set users. renderable user" and "passwd_capacity users \<le> P" and "shadow_capacity users \<le> S"
  shows "foldE (render_user P S) users ([], []) = Inr (concat (map user_passwd users), concat (map user_shadow users))"
  using assms
proof (induction users rule: rev_induct)
  case (snoc u users)
  have cap: "passwd_capacity users \<le> P" "shadow_capacity users \<le> S"
    using snoc.prems(2,3) capacity_append [of users "[u]"] by (auto simp: passwd_capacity_def shadow_capacity_def)
  have "foldE (render_user P S) users ([], []) = Inr (concat (map user_passwd users), concat (map user_shadow users))"
    using snoc.IH snoc.prems(1) cap by simp
  moreover have "length (concat (map user_passwd (users @ [u]))) + 1 \<le> P" "length (concat (map user_shadow (users @ [u]))) + 1 \<le> S"
    using texts_fit [OF snoc.prems(1)] snoc.prems(2,3) by linarith+
  ultimately show ?case using render_user_fits [of u] snoc.prems(1) by (simp add: foldE_append)
qed simp

section \<open>Listing the mount\<close>

lemma spends_list_etc:
  assumes "cursor \<le> length etc_names"
  shows "spends 4 (Inr (take maximum (drop cursor (map (\<lambda>name. (name, EntryType_File)) etc_names)),
                        cursor + min maximum (length etc_names - cursor), length etc_names \<le> cursor + maximum))
           (list_etc cursor maximum) s"
proof (cases "cursor \<ge> length etc_names \<or> maximum = 0")
  case True
  then show ?thesis using assms spends_weaken [OF spends_return, of 4] by (auto simp: list_etc_def)
next
  case False
  define n where "n = (if length etc_names - cursor > maximum then maximum else length etc_names - cursor)"
  let ?l = "(map (\<lambda>name. (name, EntryType_File)) (take n (drop cursor etc_names)), cursor + n, cursor + n = length etc_names)"
  have "list_etc cursor maximum = bindS (need_memory_times (Suc n)) (\<lambda>_. returnS ?l)"
    using False unfolding list_etc_def n_def Let_def by simp
  moreover have "spends (Suc n + 0) (bindE (Inr ()) (\<lambda>_. Inr ?l)) (bindS (need_memory_times (Suc n)) (\<lambda>_. returnS ?l)) s"
    by (rule spends_bind [OF spends_times spends_return])
  moreover have "n \<le> 3" by (auto simp: n_def etc_names_def)
  moreover have "?l = (take maximum (drop cursor (map (\<lambda>name. (name, EntryType_File)) etc_names)),
      cursor + min maximum (length etc_names - cursor), length etc_names \<le> cursor + maximum)"
    using False by (auto simp: n_def take_map drop_map min_def)
  ultimately show ?thesis using spends_weaken [of "Suc n" _ "list_etc cursor maximum" s 4] by simp
qed

interpretation etc_listing: paged_listing
  "\<lambda>cursor maximum. fst (list_etc cursor maximum (s\<lparr>fv_budget := 4\<rparr>))" "map (\<lambda>name. (name, EntryType_File)) etc_names" for s
  by unfold_locales (use spends_list_etc [of _ _ "s\<lparr>fv_budget := 4\<rparr>"] in \<open>auto simp: spends_def\<close>)

text \<open>A page of a directory of the archive, for a caller that may read it.\<close>

lemma list_backed:
  assumes "cn_synthetic n = SYNTHETIC_NONE" and "cn_backing n = Some i" and "ini = fv_initrds s ! cs_initrd (fv_stores s ! cn_store n)"
    and "ie_directory (in_entries ini ! i)" and "allows (fv_stores s ! cn_store n) (in_entries ini ! i) 5"
    and "c = children_of (ie_path (in_entries ini ! i)) (in_entries ini)" and "cursor \<le> length c"
  shows "fst (view_directory_list n cursor maximum (s\<lparr>fv_budget := 3\<rparr>)) =
    (if cursor = 0 \<and> length c < maximum \<and> ie_path (in_entries ini ! i) = ''/posix''
     then Inr (c @ [(''etc'', EntryType_Directory)], length c, True)
     else directory_list True ini (in_entries ini ! i) cursor maximum)"
proof -
  let ?f = "\<lambda>mem inis. bindE (check_access inis (fv_stores s ! cn_store n) i 5)
     (\<lambda>_. facet_initrd_node_list mem (inis ! cs_initrd (fv_stores s ! cn_store n)) i cursor maximum)"
  have path: "node_path (s\<lparr>fv_budget := b\<rparr>) n = Some (ie_path (in_entries ini ! i))" for b
    using assms by (simp add: node_path_def facet_initrd_node_path_def)
  have f: "?f True (fv_initrds s) = directory_list True ini (in_entries ini ! i) cursor maximum"
    using assms by (simp add: check_access_eq facet_initrd_node_list_def)
  obtain b where b: "with_memory ?f (s\<lparr>fv_budget := 3\<rparr>) = (?f True (fv_initrds s), s\<lparr>fv_budget := b\<rparr>)" "2 \<le> b"
    using with_memory_enough [of "s\<lparr>fv_budget := 3\<rparr>" ?f] by auto
  then obtain k where k: "b = Suc (Suc k)" by (metis Suc_le_D Suc_le_mono numeral_2_eq_2)
  have "view_directory_list n cursor maximum (s\<lparr>fv_budget := 3\<rparr>) =
      bindS (\<lambda>_. (directory_list True ini (in_entries ini ! i) cursor maximum, s\<lparr>fv_budget := b\<rparr>))
        (extend_posix_root (Some (ie_path (in_entries ini ! i))) cursor maximum) (s\<lparr>fv_budget := 3\<rparr>)"
    using assms(1,2) b(1) f path [of 3] by (simp add: view_directory_list_def Let_def bindS_def)
  then show ?thesis
    using assms directory_list_children [of cursor "in_entries ini ! i" ini maximum]
    by (auto simp: bindS_def returnS_def extend_posix_root_def need_memory_def numeral_2_eq_2 min_def k)
qed

lemma list_one_pages_cong:
  assumes "\<And>c. c \<le> m \<Longrightarrow> f c 8 = g c 8" and "\<And>c entries next end. c \<le> m \<Longrightarrow> g c 8 = Inr (entries, next, end) \<Longrightarrow> next \<le> m"
  shows "c \<le> m \<Longrightarrow> list_one_pages fuel f c = list_one_pages fuel g c"
proof (induction fuel arbitrary: c)
  case (Suc fuel)
  then show ?case using assms by (auto split: sum.splits prod.splits)
qed simp

section \<open>Properties\<close>

text \<open>A view of the sample archive for the user 1000, holding a handle of its root directory.\<close>

definition sample_root_node :: CredentialNode where
  "sample_root_node = \<lparr>cn_store = 0, cn_backing = Some 0, cn_synthetic = SYNTHETIC_NONE, cn_directory = True, cn_handle = Some 1\<rparr>"

definition sample_store :: CredentialFileStore where
  "sample_store =
     \<lparr>cs_handle = Some 0, cs_initrd = 0, cs_uid = 1000, cs_gid = 1000, cs_admin = False,
      cs_virtual_passwd = default_passwd, cs_virtual_shadow = default_shadow, cs_references = 1,
      cs_nodes = [sample_root_node]\<rparr>"

definition sample_view :: FileViewState where
  "sample_view =
     \<lparr>fv_initrds = [sample_fs], fv_stores = [sample_store], fv_live = [0],
      fv_objects = [Some (FStore 0), Some (FNode sample_root_node)], fv_budget = 5000\<rparr>"

lemma sample_view_inv: "view_inv sample_view"
proof -
  have "canonical_path_str ''/''" using canonical_path_str_render [of "[]"] by simp
  then have "store_ok sample_view 0"
    by (simp add: store_ok_def sample_view_def sample_store_def sample_root_node_def node_ok_def node_key_def
        file_object_def sample_simps)
  then show ?thesis
    using sample_fs_wf
    by (auto simp: view_inv_def object_live_def sample_view_def sample_store_def sample_root_node_def less_Suc_eq)
qed

text \<open>
  C21. The file views stay consistent.  Whatever archives are mounted and whatever
  stores are created and released, in any order with the calls of clients: every
  live store has its own credentials, is reachable under its handle and has a
  positive reference count, no two nodes of it stand for the same path and kind,
  every node names an existing archive entry of its kind (or a file of the
  synthetic mount), and every handle that still resolves belongs to a live store:
  no released store is reachable.
\<close>

theorem file_view_invariant:
  assumes "view_step\<^sup>*\<^sup>* initial_view s"
  shows "view_inv s"
  using assms
proof (induction rule: rtranclp_induct)
  case base
  show ?case by (simp add: view_inv_def initial_view_def)
next
  case (step s s')
  then show ?case by (auto intro: view_step_inv)
qed

theorem file_view_invariant_witness:
  "\<exists>ini s. facet_initrd_create 10 sample_image = Some ini \<and>
     dominit0_credential_file_store_create [] 0 1000 1000 False (initial_view\<lparr>fv_initrds := [ini], fv_budget := 20\<rparr>) =
       Returns (Some 0, s) \<and> fv_live s = [0] \<and> view_inv s"
proof -
  obtain ini where ini: "facet_initrd_create 10 sample_image = Some ini" using sample_image_create by blast
  let ?s1 = "initial_view\<lparr>fv_initrds := fv_initrds initial_view @ [ini]\<rparr>"
  let ?s2 = "?s1\<lparr>fv_budget := 20\<rparr>"
  have "view_step initial_view ?s1" by (rule vs_archive [OF ini])
  moreover have "view_step ?s1 ?s2" by (rule vs_memory)
  moreover obtain s where s: "dominit0_credential_file_store_create [] 0 1000 1000 False ?s2 = Returns (Some 0, s)" "fv_live s = [0]"
    by (simp add: dominit0_credential_file_store_create_def initial_view_def render_virtual_credentials_def bindS_def
        need_memory_def returnS_def new_store_def export_file_object_def link_store_def numeral_3_eq_3)
  moreover from s(1) have "view_step ?s2 s" by (rule vs_create [rotated]) (simp add: initial_view_def)
  ultimately have "view_step\<^sup>*\<^sup>* initial_view s" by (meson r_into_rtranclp rtranclp_trans)
  from file_view_invariant [OF this] s ini show ?thesis by (auto simp: initial_view_def)
qed

text \<open>
  C23. Opening through a directory handle.  With enough memory, opening a path
  relative to a directory of the view answers as the checked lookup of the
  component-wise normalised path does: the synthetic mount is always found, a path
  that is too long is refused, a missing entry of that kind is not found, and an
  entry is granted exactly when every directory on the way exists and may be
  searched with the credentials of the store, with the first missing or forbidden
  directory deciding the error.  A granted handle denotes a node of the same store
  with that path and kind; a refusal changes nothing.
\<close>

theorem view_open_spec:
  assumes "view_inv s" and "file_object s h = Some (FNode n)" and "node_path s n = Some (render_abs bs)"
    and "proper_stack bs" and "path \<noteq> []" and "FACET_PATH_MAX + 7 \<le> fv_budget s"
  shows "case view_lookup (fv_initrds s ! cs_initrd (fv_stores s ! cn_store n)) (fv_stores s ! cn_store n)
                (named_path bs path) directory of
           Inl e \<Rightarrow> fst (directory_open n path directory s) = Inl e \<and>
                    (\<exists>b. snd (directory_open n path directory s) = s\<lparr>fv_budget := b\<rparr>)
         | Inr _ \<Rightarrow> (\<exists>h' n'. fst (directory_open n path directory s) = Inr h' \<and>
                      file_object (snd (directory_open n path directory s)) h' = Some (FNode n') \<and>
                      cn_store n' = cn_store n \<and> cn_directory n' = directory \<and>
                      node_path (snd (directory_open n path directory s)) n' = Some (render_abs (named_path bs path)))"
proof -
  have live: "cn_store n \<in> set (fv_live s)" "node_ok s n" using object_of_live [OF assms(1,2)] by auto
  have "NUL \<notin> set (render_abs bs)" by (rule node_NUL [OF assms(1) live assms(3)])
  from answers_directory_open [OF assms(1) live(1) assms(5,3,4) this, of directory] assms(6)
  show ?thesis by (auto simp: answers_def spends_def grants_def handle_for_def split: sum.splits)
qed

theorem view_open_spec_witness:
  "fst (directory_open sample_root_node ''bin/./nosuch'' False sample_view) = Inl FACET_NOT_FOUND \<and>
   (\<exists>h n. fst (directory_open sample_root_node ''bin/../bin/sh'' False sample_view) = Inr h \<and>
      file_object (snd (directory_open sample_root_node ''bin/../bin/sh'' False sample_view)) h = Some (FNode n) \<and>
      node_path (snd (directory_open sample_root_node ''bin/../bin/sh'' False sample_view)) n = Some ''/bin/sh'')"
proof -
  have obj: "file_object sample_view (Some 1) = Some (FNode sample_root_node)" by (simp add: file_object_def sample_view_def)
  have base: "node_path sample_view sample_root_node = Some (render_abs [])"
    by (simp add: node_path_def sample_view_def sample_root_node_def sample_store_def facet_initrd_node_path_def sample_simps)
  have budget: "FACET_PATH_MAX + 7 \<le> fv_budget sample_view" by (simp add: sample_view_def)
  have named: "named_path [] ''bin/./nosuch'' = [''bin'', ''nosuch'']" "named_path [] ''bin/../bin/sh'' = [''bin'', ''sh'']"
    by code_simp+
  have no: "view_lookup sample_fs sample_store [''bin'', ''nosuch''] False = Inl FACET_NOT_FOUND"
    by (simp add: view_lookup_def synthetic_for_path_def render_abs_Cons sample_simps)
  have yes: "view_lookup sample_fs sample_store [''bin'', ''sh''] False = Inr ()"
    by (simp add: view_lookup_def synthetic_for_path_def render_abs_Cons search_way_def way_Cons search_one_def
        entry_allows_def sample_store_def sample_simps)
  have st: "fv_stores sample_view ! cn_store sample_root_node = sample_store"
    "fv_initrds sample_view ! cs_initrd sample_store = sample_fs"
    by (simp_all add: sample_view_def sample_root_node_def sample_store_def)
  have path: "render_abs [''bin'', ''sh''] = ''/bin/sh''" by (simp add: render_abs_Cons)
  show ?thesis
    using view_open_spec [OF sample_view_inv obj base _ _ budget, of "''bin/./nosuch''" False]
      view_open_spec [OF sample_view_inv obj base _ _ budget, of "''bin/../bin/sh''" False]
    unfolding st named no yes path by auto
qed

text \<open>A client that opens a file through a store and reads from the handle it got.\<close>

definition view_read :: "nat \<Rightarrow> string \<Rightarrow> nat \<Rightarrow> nat \<Rightarrow> string view" where
  "view_read a path offset maximum =
     bindS (store_open_file_view a path) (\<lambda>h s.
       case file_object s h of
         Some (FNode n) \<Rightarrow> file_read n offset maximum s
       | _ \<Rightarrow> (Inl FACET_INVALID_HANDLE, s))"

lemma backed_node_reads:
  assumes inv: "view_inv s" and obj: "file_object s h = Some (FNode n)" and path: "node_path s n = Some p"
    and kind: "\<not> cn_directory n" "synthetic_for_path p False = SYNTHETIC_NONE"
    and ini: "ini = fv_initrds s ! cs_initrd (fv_stores s ! cn_store n)" and entry: "find_entry ini p False = Some i"
  shows "fst (file_read n offset maximum s) =
    (if \<not> allows (fv_stores s ! cn_store n) (in_entries ini ! i) 4 then Inl FACET_ACCESS_DENIED
     else facet_initrd_node_read ini i offset maximum)"
proof -
  have live: "cn_store n \<in> set (fv_live s)" "node_ok s n" using object_of_live [OF inv obj] by auto
  then have wf: "initrd_wf ini" using inv ini by (auto simp: view_inv_def store_ok_def Let_def)
  have syn: "cn_synthetic n = SYNTHETIC_NONE"
    using path kind live(2) by (cases "cn_synthetic n") (auto simp: node_path_def node_ok_def synthetic_for_path_def)
  then obtain j where "cn_backing n = Some j" "j < length (in_entries ini)" "\<not> ie_directory (in_entries ini ! j)"
      "ie_path (in_entries ini ! j) = p"
    using live(2) path kind(1) ini by (auto simp: node_ok_def node_path_def facet_initrd_node_path_def Let_def)
  moreover from this have "j = i" using find_entry_Some_iff [OF wf, of p False j] entry by auto
  ultimately show ?thesis using syn ini by (simp add: file_read_def check_access_eq Let_def)
qed

lemma answers_open_entry:
  assumes "view_inv s" and "a \<in> set (fv_live s)" and "store = fv_stores s ! a" and "ini = fv_initrds s ! cs_initrd store"
    and "proper_stack st" and "NUL \<notin> set (render_abs st)" and "length (render_abs st) \<le> FACET_PATH_MAX"
    and "synthetic_for_path (render_abs st) False = SYNTHETIC_NONE" and "find_entry ini (render_abs st) False = Some i"
  shows "answers s (store_open_file_view a (render_abs st)) (FACET_PATH_MAX + 7) (search_way ini store st False)
    (handle_for a (Some (render_abs st)) False)"
proof -
  let ?p = "render_abs st"
  have wf: "initrd_wf ini" using assms(1-4) by (auto simp: view_inv_def store_ok_def Let_def)
  have c: "cstr ?p = ?p" using assms(6) by (auto simp: cstr_def takeWhile_eq_all_conv)
  have ne: "?p \<noteq> []" by simp
  have open1: "facet_initrd_open_node True ini ''/'' ?p False = Inr i"
    using view_lookup_open(1) [OF wf assms(5,6,8), of store] assms(7-9) open_node_render [of st ini False] assms(5,6)
      find_entry_root_file [OF wf]
    by (auto simp: plain_path_def)
  then have "facet_initrd_node_path ini i = ?p"
    using find_entry_SomeD [OF assms(9)] by (simp add: facet_initrd_node_path_def)
  then show ?thesis
    using answers_store_open [OF assms(1,2) ne, of ini False] assms(3,4,5,8) c open1
    by (auto simp: store_open_file_view_def components_render_abs elim!: answers_mono)
qed

text \<open>
  C22. No access without permission, and access with it.  Reading a file of the
  archive through the store of a user returns data exactly when every directory on
  the way to it may be searched and the file may be read with the credentials of
  the store; the data are then the first \<open>maximum\<close> bytes of the file as the loader
  sees it.
\<close>

theorem view_file_access:
  assumes "view_inv s" and "a \<in> set (fv_live s)" and "store = fv_stores s ! a" and "ini = fv_initrds s ! cs_initrd store"
    and "proper_stack st" and "NUL \<notin> set (render_abs st)" and "length (render_abs st) \<le> FACET_PATH_MAX"
    and "synthetic_for_path (render_abs st) False = SYNTHETIC_NONE"
    and "find_entry ini (render_abs st) False = Some i" and "FACET_PATH_MAX + 7 \<le> fv_budget s"
  shows "fst (view_read a (render_abs st) 0 maximum s) = Inr data \<longleftrightarrow>
    (\<forall>k. k = 0 \<or> k < length st \<longrightarrow>
       dir_searchable ini (render_abs (take k st)) (cs_uid store) (cs_gid store) (cs_admin store)) \<and>
    entry_allows (in_entries ini ! i) (cs_uid store) (cs_gid store) (cs_admin store) 4 \<and>
    (\<exists>bytes. facet_initrd_find_file ini (render_abs st) = Inr bytes \<and> data = take maximum bytes)"
proof -
  let ?p = "render_abs st"
  let ?m = "store_open_file_view a ?p"
  have wf: "initrd_wf ini" using assms(1-4) by (auto simp: view_inv_def store_ok_def Let_def)
  have e: "i < length (in_entries ini)" "\<not> ie_directory (in_entries ini ! i)" "ie_path (in_entries ini ! i) = ?p"
    using find_entry_SomeD [OF assms(9)] by auto
  then have ewf: "entry_wf (in_data ini) (in_entries ini ! i)" using wf by (simp add: initrd_wf_def)
  let ?b = "take (ie_size (in_entries ini ! i)) (drop (ie_data (in_entries ini ! i)) (in_data ini))"
  have bytes: "facet_initrd_find_file ini ?p = Inr ?b"
    using assms(7,9) by (simp add: facet_initrd_find_file_def Let_def)
  note ans = answers_open_entry [OF assms(1-9)]
  show ?thesis
  proof (cases "search_way ini store st False")
    case (Inl x)
    then have "fst (view_read a ?p 0 maximum s) = Inl x"
      using ans assms(10) by (auto simp: answers_def spends_def view_read_def bindS_def split: prod.splits)
    then show ?thesis using Inl search_way_ok_iff [OF wf, of store st False] by auto
  next
    case (Inr u)
    then obtain h n s' where s': "?m s = (Inr h, s')" "view_inv s'" "view_keeps s s'" "file_object s' h = Some (FNode n)"
      "cn_store n = a" "node_path s' n = Some ?p" "\<not> cn_directory n"
      using ans assms(10) by (cases "?m s") (auto simp: answers_def grants_def handle_for_def split: sum.splits)
    have "credentials (fv_stores s' ! a) = credentials store" "fv_initrds s' = fv_initrds s"
      using s'(3) assms(3) by (auto simp: view_keeps_def credentials_def dest!: spec [of _ a])
    then have "fst (view_read a ?p 0 maximum s) =
        (if \<not> entry_allows (in_entries ini ! i) (cs_uid store) (cs_gid store) (cs_admin store) 4 then Inl FACET_ACCESS_DENIED
         else facet_initrd_node_read ini i 0 maximum)"
      using backed_node_reads [OF s'(2,4,6,7) assms(8), of ini i 0 maximum] s'(1,4,5) assms(4,9)
      by (simp add: view_read_def bindS_def credentials_def)
    then show ?thesis
      using node_read_bytes [OF ewf e(2), of 0 maximum] bytes Inr search_way_ok_iff [OF wf, of store st False]
      by auto
  qed
qed

theorem view_file_access_witness:
  "fst (view_read 0 ''/bin/secret'' 0 4 sample_view) = Inr ''#!/b''"
proof -
  have p: "render_abs [''bin'', ''secret''] = ''/bin/secret''" by (simp add: render_abs_Cons)
  have live: "0 \<in> set (fv_live sample_view)" and st: "sample_store = fv_stores sample_view ! 0"
    and ini: "sample_fs = fv_initrds sample_view ! cs_initrd sample_store"
    by (simp_all add: sample_view_def sample_store_def)
  have entry: "find_entry sample_fs (render_abs [''bin'', ''secret'']) False = Some 3"
    by (simp add: render_abs_Cons sample_simps)
  have "facet_initrd_find_file sample_fs ''/bin/secret'' = Inr ''#!/bin/sh''"
    by (simp add: facet_initrd_find_file_def sample_simps)
  moreover have "k < length [''bin'', ''secret''] \<Longrightarrow> dir_searchable sample_fs (render_abs (take k [''bin'', ''secret''])) 1000 1000 False" for k
    by (auto simp: dir_searchable_def sample_simps entry_allows_def less_Suc_eq render_abs_Cons)
  moreover have "dir_searchable sample_fs ''/'' 1000 1000 False"
    by (simp add: dir_searchable_def sample_simps entry_allows_def)
  moreover have "entry_allows (in_entries sample_fs ! 3) 1000 1000 False 4" by (simp add: sample_simps entry_allows_def)
  ultimately show ?thesis
    using view_file_access [OF sample_view_inv live st ini, of "[''bin'', ''secret'']" 3 4 "''#!/b''"] entry
    by (auto simp: p sample_store_def sample_view_def synthetic_for_path_def proper_component_def)
qed

text \<open>The page loop of ls on a directory of the archive, in every case.\<close>

lemma view_listing_pages:
  assumes "cn_synthetic n = SYNTHETIC_NONE" and "cn_backing n = Some i" and "ini = fv_initrds s ! cs_initrd (fv_stores s ! cn_store n)"
    and "ie_directory (in_entries ini ! i)" and "allows (fv_stores s ! cn_store n) (in_entries ini ! i) 5"
    and "c = children_of (ie_path (in_entries ini ! i)) (in_entries ini)" and "length c < fuel"
  shows "list_one_pages fuel (\<lambda>cursor maximum. fst (view_directory_list n cursor maximum (s\<lparr>fv_budget := 3\<rparr>))) 0 =
    Some (Inr (c @ (if ie_path (in_entries ini ! i) = ''/posix'' \<and> length c < 8 then [(''etc'', EntryType_Directory)] else [])))"
    (is "list_one_pages fuel ?f 0 = _")
proof (cases "ie_path (in_entries ini ! i) = ''/posix'' \<and> length c < 8")
  case True
  obtain k where k: "fuel = Suc k" using assms(7) by (cases fuel) auto
  show ?thesis using True list_backed [OF assms(1-6), of 0 8] by (simp add: k)
next
  case False
  let ?g = "directory_list True ini (in_entries ini ! i)"
  have page: "cursor \<le> length c \<Longrightarrow> ?g cursor 8 =
      Inr (take 8 (drop cursor c), cursor + min 8 (length c - cursor), length c \<le> cursor + 8)" for cursor
    using initrd_listing.lst_page [of cursor "in_entries ini ! i" ini 8] assms(6) by simp
  have "list_one_pages fuel ?f 0 = list_one_pages fuel ?g 0"
    by (rule list_one_pages_cong [of "length c"]) (use False list_backed [OF assms(1-6)] page in auto)
  then show ?thesis
    using False initrd_listing.pages_complete [of "in_entries ini ! i" ini fuel] assms(6,7) by auto
qed

text \<open>
  C25. Listing.  With the memory for a page, whoever may read a directory of the
  archive through a view gets from the page loop of ls exactly its immediate children, in archive order, and
  for /posix, if it has fewer than eight children, the synthetic directory etc
  behind them.  The synthetic directory itself is listed with its three files.
\<close>

theorem view_listing_spec:
  assumes "cn_synthetic n = SYNTHETIC_NONE" and "cn_backing n = Some i" and "ini = fv_initrds s ! cs_initrd (fv_stores s ! cn_store n)"
    and "ie_directory (in_entries ini ! i)" and "allows (fv_stores s ! cn_store n) (in_entries ini ! i) 5"
    and "c = children_of (ie_path (in_entries ini ! i)) (in_entries ini)" and "length c < fuel"
    and "ie_path (in_entries ini ! i) = ''/posix'' \<longrightarrow> length c < 8"
    and "cn_synthetic etc = SYNTHETIC_ETC_DIRECTORY" and "3 < fuel"
  shows "list_one_pages fuel (\<lambda>cursor maximum. fst (view_directory_list n cursor maximum (s\<lparr>fv_budget := 3\<rparr>))) 0 =
      Some (Inr (c @ (if ie_path (in_entries ini ! i) = ''/posix'' then [(''etc'', EntryType_Directory)] else []))) \<and>
    list_one_pages fuel (\<lambda>cursor maximum. fst (view_directory_list etc cursor maximum (s\<lparr>fv_budget := 4\<rparr>))) 0 =
      Some (Inr [(''fstab'', EntryType_File), (''passwd'', EntryType_File), (''shadow'', EntryType_File)])"
proof
  show "list_one_pages fuel (\<lambda>cursor maximum. fst (view_directory_list n cursor maximum (s\<lparr>fv_budget := 3\<rparr>))) 0 =
      Some (Inr (c @ (if ie_path (in_entries ini ! i) = ''/posix'' then [(''etc'', EntryType_Directory)] else [])))"
    using view_listing_pages [OF assms(1-7)] assms(8) by auto
  have "(\<lambda>cursor maximum. fst (view_directory_list etc cursor maximum (s\<lparr>fv_budget := 4\<rparr>))) =
      (\<lambda>cursor maximum. fst (list_etc cursor maximum (s\<lparr>fv_budget := 4\<rparr>)))"
    using assms(9) by (intro ext) (simp add: view_directory_list_def)
  moreover have "list_one_pages fuel (\<lambda>cursor maximum. fst (list_etc cursor maximum (s\<lparr>fv_budget := 4\<rparr>))) 0 =
      Some (Inr (map (\<lambda>name. (name, EntryType_File)) etc_names))"
    using assms(10) by (intro etc_listing.pages_complete) (simp add: etc_names_def)
  ultimately show "list_one_pages fuel (\<lambda>cursor maximum. fst (view_directory_list etc cursor maximum (s\<lparr>fv_budget := 4\<rparr>))) 0 =
      Some (Inr [(''fstab'', EntryType_File), (''passwd'', EntryType_File), (''shadow'', EntryType_File)])"
    by (simp add: etc_names_def)
qed

text \<open>
  With eight or more children the mount point is not listed, although it can be
  opened: only a first page that ends the listing gets it appended.
\<close>

lemma full_posix_hides_mount:
  assumes "cn_synthetic n = SYNTHETIC_NONE" and "cn_backing n = Some i" and "ini = fv_initrds s ! cs_initrd (fv_stores s ! cn_store n)"
    and "ie_directory (in_entries ini ! i)" and "allows (fv_stores s ! cn_store n) (in_entries ini ! i) 5"
    and "c = children_of ''/posix'' (in_entries ini)" and "length c < fuel"
    and "ie_path (in_entries ini ! i) = ''/posix''" and "8 \<le> length c"
  shows "list_one_pages fuel (\<lambda>cursor maximum. fst (view_directory_list n cursor maximum (s\<lparr>fv_budget := 3\<rparr>))) 0 = Some (Inr c)"
  using view_listing_pages [OF assms(1-5), of c fuel] assms(6-9) by simp

definition sample_posix :: "string \<Rightarrow> FacetInitrd" where
  "sample_posix names =
     \<lparr>in_data = [],
      in_entries = root_entry # new_entry ''/posix'' 0 0 True 0x41ED 0 0 #
        map (\<lambda>c. new_entry (''/posix/'' @ [c]) 0 0 True 0x41ED 0 0) names,
      in_store_handle = None\<rparr>"

definition sample_posix_node :: CredentialNode where
  "sample_posix_node =
     \<lparr>cn_store = 0, cn_backing = Some 1, cn_synthetic = SYNTHETIC_NONE, cn_directory = True, cn_handle = None\<rparr>"

definition sample_etc_node :: CredentialNode where
  "sample_etc_node =
     \<lparr>cn_store = 0, cn_backing = None, cn_synthetic = SYNTHETIC_ETC_DIRECTORY, cn_directory = True, cn_handle = None\<rparr>"

theorem view_listing_spec_witness:
  "list_one_pages 9 (\<lambda>cursor maximum. fst (view_directory_list sample_posix_node cursor maximum
      (sample_view\<lparr>fv_initrds := [sample_posix ''ab''], fv_budget := 3\<rparr>))) 0 =
     Some (Inr [(''a'', EntryType_Directory), (''b'', EntryType_Directory), (''etc'', EntryType_Directory)]) \<and>
   list_one_pages 9 (\<lambda>cursor maximum. fst (view_directory_list sample_etc_node cursor maximum
      (sample_view\<lparr>fv_initrds := [sample_posix ''ab''], fv_budget := 4\<rparr>))) 0 =
     Some (Inr [(''fstab'', EntryType_File), (''passwd'', EntryType_File), (''shadow'', EntryType_File)])"
proof -
  let ?s = "sample_view\<lparr>fv_initrds := [sample_posix ''ab'']\<rparr>"
  have node: "cn_synthetic sample_posix_node = SYNTHETIC_NONE" "cn_backing sample_posix_node = Some 1"
    "cn_synthetic sample_etc_node = SYNTHETIC_ETC_DIRECTORY"
    by (simp_all add: sample_posix_node_def sample_etc_node_def)
  have ini: "sample_posix ''ab'' = fv_initrds ?s ! cs_initrd (fv_stores ?s ! cn_store sample_posix_node)"
    by (simp add: sample_view_def sample_store_def sample_posix_node_def)
  have e: "in_entries (sample_posix ''ab'') ! 1 = new_entry ''/posix'' 0 0 True 0x41ED 0 0"
    by (simp add: sample_posix_def)
  have dir: "ie_directory (in_entries (sample_posix ''ab'') ! 1)"
    "allows (fv_stores ?s ! cn_store sample_posix_node) (in_entries (sample_posix ''ab'') ! 1) 5"
    unfolding e by (simp_all add: new_entry_def entry_allows_def sample_view_def sample_store_def sample_posix_node_def)
  have c: "children_of ''/posix'' (in_entries (sample_posix ''ab'')) = [(''a'', EntryType_Directory), (''b'', EntryType_Directory)]"
    by (simp add: sample_posix_def new_entry_def root_entry_def immediate_child_def entry_type_def)
  show ?thesis
    using view_listing_spec [OF node(1,2) ini dir refl _ _ node(3), of 9]
    unfolding e by (simp add: new_entry_def c)
qed

text \<open>
  C24. Rendering the credential files.  For configured users whose strings are all
  present and whose names have at most 20 bytes, the buffers the code sizes in
  advance hold the texts: the rendering succeeds, and /etc/passwd and /etc/shadow
  have one complete line per user, in the order of the configuration.
\<close>

theorem virtual_credentials_render:
  assumes "users \<noteq> []" and "\<forall>user \<in> set users. renderable user"
  shows "render_virtual_credentials users =
    Returns (Inr (concat (map user_passwd users), concat (map user_shadow users)))"
  using assms render_users_fit [OF assms(2) order.refl order.refl]
  by (auto simp: render_virtual_credentials_def renderable_def list_ex_iff split: option.splits)

definition sample_user :: "string \<Rightarrow> FacetConfigUser" where
  "sample_user name =
     \<lparr>us_name = Some name, us_password_hash = Some ''x'', us_admin = False, us_uid = 1000, us_gid = 1000,
      us_home_path = Some ''/home'', us_native_shell = None, us_posix_shell = Some ''/bin/sh'', us_present = 0\<rparr>"

lemma decimal_1000: "decimal 1000 = ''1000''"
  by (simp add: base_text.simps digit_char_def char_of_eq_iff)

theorem virtual_credentials_render_witness:
  "render_virtual_credentials [sample_user ''ann''] =
     Returns (Inr (''ann:x:1000:1000:ann:/home:/bin/sh'' @ [CHR 0x0A], ''ann:x:::::::'' @ [CHR 0x0A]))"
proof -
  have "renderable (sample_user ''ann'')" by (simp add: renderable_def rendered_fields_def sample_user_def)
  then have "render_virtual_credentials [sample_user ''ann''] =
      Returns (Inr (user_passwd (sample_user ''ann''), user_shadow (sample_user ''ann'')))"
    using virtual_credentials_render [of "[sample_user ''ann'']"] by simp
  moreover have "user_passwd (sample_user ''ann'') = ''ann:x:1000:1000:ann:/home:/bin/sh'' @ [CHR 0x0A]"
    "user_shadow (sample_user ''ann'') = ''ann:x:::::::'' @ [CHR 0x0A]"
    by (simp_all add: user_passwd_def user_shadow_def rendered_fields_def sample_user_def passwd_line_def shadow_line_def
        decimal_1000)
  ultimately show ?thesis by simp
qed

text \<open>
  The buffer counts a name once, the line has it twice: a name of 46 bytes, which
  the configuration accepts, leaves no room, and no store can be created.
\<close>

lemma long_user_name_refused:
  "render_virtual_credentials [sample_user (replicate 46 CHR ''a'')] = Returns (Inl FACET_ERROR)"
  by (simp add: render_virtual_credentials_def rendered_fields_def sample_user_def render_user_def append_line_def
      passwd_line_def passwd_capacity_def decimal_1000)

text \<open>
  The configuration accepts a user without a POSIX shell; the rendering takes the
  length of the missing string.
\<close>

lemma missing_shell_undefined:
  "validate_user ((sample_user ''ann'')\<lparr>us_password_hash := Some ''$5$facet$j7FgoXidvJl10CTaW0nguGP3ZnvKnqS3/IHmDVliPQ9'',
      us_posix_shell := None, us_present := -1\<rparr>) ''users'' = Inr ()"
  "render_virtual_credentials [(sample_user ''ann'')\<lparr>us_posix_shell := None\<rparr>] = Undefined"
  by (simp_all add: validate_user_def valid_password_hash_def absolute_def sample_user_def render_virtual_credentials_def
      rendered_fields_def Let_def)

end
