(* ===== verification/Spec2Isabelle.thy ===== *)
theory Spec2Isabelle
  imports Archive Wire Auth FileView
begin

text \<open>
  Verification of FacetOS.
\<close>

end
